(* ===== verification/GoPrelude.thy ===== *)
theory GoPrelude
  imports Main "HOL-Library.Word"
begin

text \<open>
  The parts of the Go language and of its packages \<^verbatim>\<open>errors\<close>, \<^verbatim>\<open>fmt\<close> and \<^verbatim>\<open>strings\<close>
  that the program uses, as HOL functions: error values, panics, decimal and
  hexadecimal printing, joining and splitting of strings.  A Go string is a
  sequence of bytes, so it is a HOL \<open>string\<close> (a list of 8-bit characters).
  The lemmas on them are shared by every component.
\<close>

section \<open>Shared collections\<close>

named_theorems go_string "evaluation of the printing and splitting functions"
named_theorems go_split "case splits on results, errors and optional values"

declare option.splits [go_split] sum.splits [go_split] if_splits [go_split]
  prod.splits [go_split]

type_synonym byte = "8 word"
type_synonym duration = int

section \<open>Errors and panics\<close>

text \<open>
  An \<^verbatim>\<open>error\<close> is one of the sentinels the code compares with, a formatted message,
  a format with one \<^verbatim>\<open>%q\<close> argument (kept apart, unquoted) or a message that wraps
  another error (\<^verbatim>\<open>%w\<close>).
\<close>

datatype go_error =
    ErrEOF
  | ErrCanceled
  | ErrDeadlineExceeded
  | Errorf string
  | ErrorfQ string string
  | Wrapf string go_error

fun errors_is :: "go_error \<Rightarrow> go_error \<Rightarrow> bool" where
  "errors_is (Wrapf s e) target = (Wrapf s e = target \<or> errors_is e target)"
| "errors_is e target = (e = target)"

datatype panic = NilDereference | BadTypeAssertion | SendOnClosedChannel

text \<open>Sequencing of computations that may panic.\<close>

definition bind_panic :: "panic + 'a \<Rightarrow> ('a \<Rightarrow> panic + 'b) \<Rightarrow> panic + 'b" where
  "bind_panic m f = (case m of Inl p \<Rightarrow> Inl p | Inr x \<Rightarrow> f x)"

lemma bind_panic_simps [simp]:
  "bind_panic (Inl p) f = Inl p"
  "bind_panic (Inr x) f = f x"
  by (simp_all add: bind_panic_def)

lemma bind_panic_Inr:
  "bind_panic m f = Inr y \<longleftrightarrow> (\<exists>x. m = Inr x \<and> f x = Inr y)"
  by (cases m) auto

lemma bind_panic_cong [fundef_cong]:
  "m = m' \<Longrightarrow> (\<And>x. m' = Inr x \<Longrightarrow> f x = f' x) \<Longrightarrow> bind_panic m f = bind_panic m' f'"
  by (cases m') (auto simp: bind_panic_def)

section \<open>Printing of numbers\<close>

definition digit_char :: "nat \<Rightarrow> char" where
  "digit_char n = ''0123456789abcdef'' ! n"

fun dec_nat :: "nat \<Rightarrow> string" where
  "dec_nat n = (if n < 10 then [digit_char n] else dec_nat (n div 10) @ [digit_char (n mod 10)])"

declare dec_nat.simps [simp del]

definition dec_int :: "int \<Rightarrow> string" where
  "dec_int i = (if i < 0 then CHR ''-'' # dec_nat (nat (- i)) else dec_nat (nat i))"

fun hex_nat :: "nat \<Rightarrow> string" where
  "hex_nat n = (if n < 16 then [digit_char n] else hex_nat (n div 16) @ [digit_char (n mod 16)])"

declare hex_nat.simps [simp del]

text \<open>\<^verbatim>\<open>%02x\<close> and \<^verbatim>\<open>%04x\<close>: hexadecimal, padded with zeros on the left.\<close>

definition hex_pad :: "nat \<Rightarrow> nat \<Rightarrow> string" where
  "hex_pad w n = replicate (w - length (hex_nat n)) CHR ''0'' @ hex_nat n"

lemmas number_printing [go_string] =
  dec_nat.simps hex_nat.simps dec_int_def digit_char_def hex_pad_def

lemma digit_char_set: "n < 16 \<Longrightarrow> digit_char n \<in> set ''0123456789abcdef''"
  unfolding digit_char_def by (rule nth_mem) simp

lemma digit_char_dec: "n < 10 \<Longrightarrow> digit_char n \<in> set ''0123456789''"
proof -
  assume n: "n < 10"
  then have "n \<in> set [0..<10]" by simp
  then show ?thesis by (auto simp: digit_char_def upt_rec numeral_eq_Suc)
qed

lemma dec_nat_digits: "set (dec_nat n) \<subseteq> set ''0123456789''"
proof (induction n rule: dec_nat.induct)
  case (1 n)
  show ?case
  proof (cases "n < 10")
    case True
    with digit_char_dec [of n] show ?thesis by (simp add: dec_nat.simps [of n])
  next
    case False
    with "1.IH" digit_char_dec [of "n mod 10"] show ?thesis
      by (simp add: dec_nat.simps [of n])
  qed
qed

lemma dec_nat_not_Nil [simp]: "dec_nat n \<noteq> []"
  by (subst dec_nat.simps) simp

lemma hex_nat_digits: "set (hex_nat n) \<subseteq> set ''0123456789abcdef''"
proof (induction n rule: hex_nat.induct)
  case (1 n)
  show ?case
  proof (cases "n < 16")
    case True
    with digit_char_set [of n] show ?thesis by (simp add: hex_nat.simps [of n])
  next
    case False
    with "1.IH" digit_char_set [of "n mod 16"] show ?thesis
      by (simp add: hex_nat.simps [of n])
  qed
qed

lemma dec_nat_notin: "c \<notin> set ''0123456789'' \<Longrightarrow> c \<notin> set (dec_nat n)"
  using dec_nat_digits by blast

lemma hex_nat_notin: "c \<notin> set ''0123456789abcdef'' \<Longrightarrow> c \<notin> set (hex_nat n)"
  using hex_nat_digits by blast

section \<open>Package strings\<close>

fun join :: "string \<Rightarrow> string list \<Rightarrow> string" where
  "join sep [] = []"
| "join sep [x] = x"
| "join sep (x # y # zs) = x @ sep @ join sep (y # zs)"

fun index_of :: "char \<Rightarrow> string \<Rightarrow> nat option" where
  "index_of c [] = None"
| "index_of c (x # xs) = (if x = c then Some 0 else map_option Suc (index_of c xs))"

fun split_on :: "char \<Rightarrow> string \<Rightarrow> string list" where
  "split_on c [] = [[]]"
| "split_on c (x # xs) =
     (if x = c then [] # split_on c xs
      else (case split_on c xs of [] \<Rightarrow> [[x]] | y # ys \<Rightarrow> (x # y) # ys))"

lemma set_join: "set (join sep xs) \<subseteq> set sep \<union> \<Union> (set ` set xs)"
  by (induction sep xs rule: join.induct) auto

lemma join_notin: "c \<notin> set sep \<Longrightarrow> (\<And>x. x \<in> set xs \<Longrightarrow> c \<notin> set x) \<Longrightarrow> c \<notin> set (join sep xs)"
  using set_join [of sep xs] by blast

lemma index_of_append: "c \<notin> set xs \<Longrightarrow> index_of c (xs @ c # ys) = Some (length xs)"
  by (induction xs) auto

lemma index_of_None: "index_of c xs = None \<longleftrightarrow> c \<notin> set xs"
  by (induction xs) auto

lemma split_on_not_Nil [simp]: "split_on c xs \<noteq> []"
  by (cases xs) (auto split: list.splits)

lemma split_on_notin: "c \<notin> set xs \<Longrightarrow> split_on c xs = [xs]"
  by (induction xs) auto

lemma split_on_append: "c \<notin> set xs \<Longrightarrow> split_on c (xs @ c # ys) = xs # split_on c ys"
  by (induction xs) auto

lemma join_Cons: "ys \<noteq> [] \<Longrightarrow> join sep (x # ys) = x @ sep @ join sep ys"
  by (cases ys) auto

lemma join_split_on: "join [c] (split_on c s) = s"
proof (induction s)
  case (Cons x xs)
  obtain y ys where s: "split_on c xs = y # ys"
    by (cases "split_on c xs") auto
  with Cons show ?case by (cases ys) (auto simp: join_Cons)
qed simp

text \<open>
  A key made of two parts and a separator that the second part does not contain
  determines both parts.
\<close>

lemma append_sep_inject:
  assumes "a @ c # s = b @ c # t" and "c \<notin> set s" and "c \<notin> set t"
  shows "a = b \<and> s = t"
  using assms
  by (auto simp: append_eq_append_conv2 append_eq_Cons_conv Cons_eq_append_conv)

section \<open>Maps and their iteration order\<close>

text \<open>
  Ranging over a Go map visits every key once, in an order the language leaves
  open.  An operation that ranges over a map takes the order as an argument;
  \<open>enumerates ks m\<close> says that \<open>ks\<close> is such an order.
\<close>

definition enumerates :: "'k list \<Rightarrow> ('k \<rightharpoonup> 'v) \<Rightarrow> bool" where
  "enumerates ks m \<longleftrightarrow> distinct ks \<and> set ks = dom m"

lemma enumerates_finite: "enumerates ks m \<Longrightarrow> finite (dom m)"
  by (auto simp: enumerates_def) (metis List.finite_set)

lemma enumerates_empty [simp]: "enumerates [] m \<longleftrightarrow> m = Map.empty"
  by (auto simp: enumerates_def)

lemma finite_enumerates: "finite (dom m) \<Longrightarrow> \<exists>ks. enumerates ks m"
  using finite_distinct_list by (fastforce simp: enumerates_def)

lemma enumerates_length: "enumerates ks m \<Longrightarrow> length ks = card (dom m)"
  unfolding enumerates_def by (metis distinct_card)

lemma ball_dom_the: "(\<forall>i\<in>dom m. P i (the (m i))) \<longleftrightarrow> (\<forall>i x. m i = Some x \<longrightarrow> P i x)"
  by (force simp: dom_def)

lemma enumerates_unique:
  "enumerates ks m \<Longrightarrow> enumerates ks' m \<Longrightarrow> set ks = set ks' \<and> length ks = length ks'"
  by (simp add: enumerates_length) (simp add: enumerates_def)

end
