(* ===== verification/GoNet.thy ===== *)
theory GoNet
  imports GoPrelude
begin

unbundle bit_operations_syntax

text \<open>
  The fragment of Go's package \<^verbatim>\<open>net\<close> (and of \<^verbatim>\<open>net/netip\<close> under it) that the
  program calls: addresses and masks as byte slices, \<^verbatim>\<open>IP.To4\<close>, \<^verbatim>\<open>IP.String\<close>,
  \<^verbatim>\<open>ParseIP\<close>, \<^verbatim>\<open>IP.IsLoopback\<close> and its kin, \<^verbatim>\<open>IPMask.Size\<close>, \<^verbatim>\<open>CIDRMask\<close>,
  \<^verbatim>\<open>IP.Mask\<close> and \<^verbatim>\<open>HardwareAddr.String\<close>.  The nil slice is the empty list: the
  program compares with nil only results of \<^verbatim>\<open>To4\<close>, \<^verbatim>\<open>ParseIP\<close> and of libpcap, and
  none of these is an empty slice other than nil.
\<close>

type_synonym ip = "byte list"
type_synonym ipmask = "byte list"
type_synonym mac = "byte list"

section \<open>Addresses\<close>

definition v4_in_v6_prefix :: "byte list" where
  "v4_in_v6_prefix = [0, 0, 0, 0, 0, 0, 0, 0, 0, 0, 255, 255]"

definition to4 :: "ip \<Rightarrow> ip" where
  "to4 ip = (if length ip = 4 then ip
             else if length ip = 16 \<and> take 12 ip = v4_in_v6_prefix then drop 12 ip
             else [])"

definition IPv4 :: "byte \<Rightarrow> byte \<Rightarrow> byte \<Rightarrow> byte \<Rightarrow> ip" where
  "IPv4 a b c d = v4_in_v6_prefix @ [a, b, c, d]"

definition is_loopback :: "ip \<Rightarrow> bool" where
  "is_loopback ip = (if to4 ip \<noteq> [] then hd (to4 ip) = 127
                     else ip = replicate 15 0 @ [1])"

definition is_multicast :: "ip \<Rightarrow> bool" where
  "is_multicast ip = (if to4 ip \<noteq> [] then hd (to4 ip) AND 240 = 224
                      else length ip = 16 \<and> hd ip = 255)"

definition is_link_local_unicast :: "ip \<Rightarrow> bool" where
  "is_link_local_unicast ip =
     (if to4 ip \<noteq> [] then take 2 (to4 ip) = [169, 254]
      else length ip = 16 \<and> hd ip = 254 \<and> (ip ! 1) AND 192 = 128)"

lemma to4_length: "to4 ip = [] \<or> length (to4 ip) = 4"
  by (auto simp: to4_def)

lemma to4_of_v4 [simp]: "length ip = 4 \<Longrightarrow> to4 ip = ip"
  by (simp add: to4_def)

lemma to4_idem [simp]: "to4 (to4 ip) = to4 ip"
  by (auto simp: to4_def)

lemma to4_IPv4 [simp]: "to4 (IPv4 a b c d) = [a, b, c, d]"
  by (simp add: to4_def IPv4_def v4_in_v6_prefix_def)

section \<open>Printing\<close>

definition ipv4_string :: "ip \<Rightarrow> string" where
  "ipv4_string ip = join ''.'' (map (\<lambda>b. dec_nat (unat b)) ip)"

text \<open>The eight 16-bit groups of an IPv6 address.\<close>

fun groups16 :: "byte list \<Rightarrow> nat list" where
  "groups16 (a # b # bs) = (256 * unat a + unat b) # groups16 bs"
| "groups16 _ = []"

text \<open>
  The first longest run of at least two zero groups, as the pair of its start and
  its end; \<open>(255, 255)\<close> when there is none.
\<close>

definition zero_run :: "nat list \<Rightarrow> nat \<times> nat" where
  "zero_run gs = fold (\<lambda>i (zs, ze).
      let l = length (takeWhile (\<lambda>g. g = 0) (drop i gs))
      in if 2 \<le> l \<and> ze - zs < l then (i, i + l) else (zs, ze))
    [0..<length gs] (255, 255)"

definition ipv6_string :: "ip \<Rightarrow> string" where
  "ipv6_string ip = (let gs = groups16 ip; (zs, ze) = zero_run gs in
     if zs = 255 then join '':'' (map hex_nat gs)
     else join '':'' (map hex_nat (take zs gs)) @ ''::'' @ join '':'' (map hex_nat (drop ze gs)))"

definition ip_string :: "ip \<Rightarrow> string" where
  "ip_string ip =
     (if ip = [] then ''<nil>''
      else if length ip \<noteq> 4 \<and> length ip \<noteq> 16
        then ''?'' @ concat (map (\<lambda>b. hex_pad 2 (unat b)) ip)
      else if to4 ip \<noteq> [] then ipv4_string (to4 ip)
      else ipv6_string ip)"

definition mac_string :: "mac \<Rightarrow> string" where
  "mac_string a = join '':'' (map (\<lambda>b. hex_pad 2 (unat b)) a)"

section \<open>Parsing\<close>

definition is_digit :: "char \<Rightarrow> bool" where
  "is_digit c \<longleftrightarrow> c \<in> set ''0123456789''"

definition digit_val :: "char \<Rightarrow> nat" where
  "digit_val c = of_char c - 48"

text \<open>
  The loop of \<^verbatim>\<open>parseIPv4Fields\<close>: the value and the number of digits of the current
  field, and the fields before it.  No digit since the last dot (or the start) is
  \<open>dl = 0\<close>.
\<close>

fun parse_v4_fields :: "nat \<Rightarrow> nat \<Rightarrow> byte list \<Rightarrow> string \<Rightarrow> byte list option" where
  "parse_v4_fields v dl fs [] =
     (if length fs < 3 then None else Some (fs @ [of_nat v]))"
| "parse_v4_fields v dl fs (c # cs) =
     (if is_digit c then
        if dl = 1 \<and> v = 0 then None
        else let v' = 10 * v + digit_val c in
             if 255 < v' then None else parse_v4_fields v' (Suc dl) fs cs
      else if c = CHR ''.'' then
        if dl = 0 \<or> cs = [] then None
        else if length fs = 3 then None
        else parse_v4_fields 0 0 (fs @ [of_nat v]) cs
      else None)"

definition parse_ipv4 :: "string \<Rightarrow> ip option" where
  "parse_ipv4 s = map_option (\<lambda>fs. v4_in_v6_prefix @ fs) (parse_v4_fields 0 0 [] s)"

definition is_hex :: "char \<Rightarrow> bool" where
  "is_hex c \<longleftrightarrow> c \<in> set ''0123456789abcdefABCDEF''"

definition hex_val :: "char \<Rightarrow> nat" where
  "hex_val c = (if is_digit c then of_char c - 48
                else if of_char c < (97 :: nat) then of_char c - 55 else of_char c - 87)"

definition hex_value :: "string \<Rightarrow> nat" where
  "hex_value s = foldl (\<lambda>acc c. 16 * acc + hex_val c) 0 s"

text \<open>
  The loop of \<^verbatim>\<open>parseIPv6\<close> on the rest of the input: the bytes so far and the
  position of the ellipsis.  The result is the bytes, the ellipsis and what is left
  of the input.
\<close>

function parse_v6_loop ::
    "byte list \<Rightarrow> nat option \<Rightarrow> string \<Rightarrow> (byte list \<times> nat option \<times> string) option" where
  "parse_v6_loop bs e s =
     (if 16 \<le> length bs then Some (bs, e, s)
      else let h = takeWhile is_hex s; r = dropWhile is_hex s in
        if 4 < length h \<or> h = [] then None
        else if r \<noteq> [] \<and> hd r = CHR ''.'' then
          if e = None \<and> length bs \<noteq> 12 then None
          else if 16 < length bs + 4 then None
          else map_option (\<lambda>fs. (bs @ fs, e, [])) (parse_v4_fields 0 0 [] s)
        else let bs' = bs @ [of_nat (hex_value h div 256), of_nat (hex_value h)] in
          if r = [] then Some (bs', e, [])
          else if hd r \<noteq> CHR '':'' then None
          else if length r = 1 then None
          else if hd (tl r) = CHR '':'' then
            if e \<noteq> None then None
            else if length r = 2 then Some (bs', Some (length bs'), [])
            else parse_v6_loop bs' (Some (length bs')) (tl (tl r))
          else parse_v6_loop bs' e (tl r))"
  by pat_completeness auto
termination
  by (relation "measure (\<lambda>(bs, e, s). 16 - length bs)") auto

declare parse_v6_loop.simps [simp del]

definition parse_ipv6 :: "string \<Rightarrow> ip option" where
  "parse_ipv6 s =
     (let e0 = (if take 2 s = ''::'' then Some 0 else None);
          s0 = (if take 2 s = ''::'' then drop 2 s else s) in
      if e0 = Some 0 \<and> s0 = [] then Some (replicate 16 0)
      else case parse_v6_loop [] e0 s0 of
        None \<Rightarrow> None
      | Some (bs, e, rest) \<Rightarrow>
          if rest \<noteq> [] then None
          else if length bs < 16 then
            (case e of None \<Rightarrow> None
             | Some k \<Rightarrow> Some (take k bs @ replicate (16 - length bs) 0 @ drop k bs))
          else if e \<noteq> None then None
          else Some bs)"

text \<open>
  \<^verbatim>\<open>ParseIP\<close>: the first of \<^verbatim>\<open>.\<close>, \<^verbatim>\<open>:\<close> and \<^verbatim>\<open>%\<close> in the input decides; an address with a
  zone is refused.
\<close>

definition parse_ip :: "string \<Rightarrow> ip option" where
  "parse_ip s =
     (case filter (\<lambda>c. c \<in> set ''.:%'') s of
        [] \<Rightarrow> None
      | c # _ \<Rightarrow> if c = CHR ''.'' then parse_ipv4 s
                 else if c = CHR '':'' \<and> CHR ''%'' \<notin> set s then parse_ipv6 s
                 else None)"

section \<open>Masks\<close>

definition byte_bits :: "byte \<Rightarrow> bool list" where
  "byte_bits b = map (bit b) [7, 6, 5, 4, 3, 2, 1, 0]"

definition ip_bits :: "byte list \<Rightarrow> bool list" where
  "ip_bits bs = concat (map byte_bits bs)"

text \<open>\<^verbatim>\<open>IPMask.Size\<close>: the number of leading ones and of all bits, \<open>(0, 0)\<close> when the
  mask is not ones followed by zeros.\<close>

definition mask_size :: "ipmask \<Rightarrow> nat \<times> nat" where
  "mask_size m = (let bs = ip_bits m in
     if True \<in> set (dropWhile id bs) then (0, 0) else (length (takeWhile id bs), length bs))"

fun cidr_bytes :: "nat \<Rightarrow> nat \<Rightarrow> byte list" where
  "cidr_bytes 0 n = []"
| "cidr_bytes (Suc l) n =
     (if 8 \<le> n then 255 # cidr_bytes l (n - 8) else NOT (drop_bit n 255) # cidr_bytes l 0)"

definition cidr_mask :: "nat \<Rightarrow> nat \<Rightarrow> ipmask" where
  "cidr_mask ones bits =
     (if bits \<noteq> 32 \<and> bits \<noteq> 128 then [] else if bits < ones then []
      else cidr_bytes (bits div 8) ones)"

definition ip_mask :: "ip \<Rightarrow> ipmask \<Rightarrow> ip" where
  "ip_mask ip m =
     (let m' = (if length m = 16 \<and> length ip = 4 \<and> (\<forall>b\<in>set (take 12 m). b = 255)
                then drop 12 m else m);
          ip' = (if length m' = 4 \<and> length ip = 16 \<and> take 12 ip = v4_in_v6_prefix
                 then drop 12 ip else ip)
      in if length ip' \<noteq> length m' then [] else map2 (AND) ip' m')"

section \<open>Lemmas\<close>

text \<open>No printed address holds the separator of the registry's keys or a bracket.\<close>

lemma hex_pad_set: "set (hex_pad w n) \<subseteq> set ''0123456789abcdef''"
  using hex_nat_digits [of n] by (auto simp: hex_pad_def)

lemma ipv4_string_set: "set (ipv4_string ip) \<subseteq> set ''.0123456789''"
proof -
  have "set (ipv4_string ip) \<subseteq> set ''.'' \<union> \<Union> (set ` set (map (\<lambda>b. dec_nat (unat b)) ip))"
    unfolding ipv4_string_def by (rule set_join)
  also have "\<dots> \<subseteq> set ''.0123456789''"
    using dec_nat_digits by fastforce
  finally show ?thesis .
qed

lemma join_hex_set: "set (join '':'' (map hex_nat gs)) \<subseteq> set '':0123456789abcdef''"
proof -
  have "set (join '':'' (map hex_nat gs)) \<subseteq> set '':'' \<union> \<Union> (set ` set (map hex_nat gs))"
    by (rule set_join)
  also have "\<dots> \<subseteq> set '':0123456789abcdef''"
    using hex_nat_digits by fastforce
  finally show ?thesis .
qed

lemma ipv6_string_set: "set (ipv6_string ip) \<subseteq> set '':0123456789abcdef''"
proof (cases "zero_run (groups16 ip)")
  case (Pair zs ze)
  then show ?thesis
    using join_hex_set [of "groups16 ip"] join_hex_set [of "take zs (groups16 ip)"]
      join_hex_set [of "drop ze (groups16 ip)"]
    by (simp add: ipv6_string_def Let_def)
qed

lemma ip_string_set: "set (ip_string ip) \<subseteq> set ''<nil>?.:0123456789abcdef''"
proof -
  let ?S = "set ''<nil>?.:0123456789abcdef''"
  let ?q = "concat (map (\<lambda>b. hex_pad 2 (unat b)) ip)"
  have 1: "set ''.0123456789'' \<subseteq> ?S" and 2: "set '':0123456789abcdef'' \<subseteq> ?S"
    and 3: "set ''0123456789abcdef'' \<subseteq> ?S" and 4: "set ''<nil>'' \<subseteq> ?S" and 5: "CHR ''?'' \<in> ?S"
    by simp_all
  have "set ?q \<subseteq> ?S"
    using subset_trans [OF hex_pad_set 3] by (force simp only: set_concat set_map)
  with 5 have q: "set (''?'' @ ?q) \<subseteq> ?S"
    by (simp only: set_append list.set Un_subset_iff insert_subset empty_subsetI simp_thms)
  show ?thesis
    unfolding ip_string_def
    by (simp only: 4 q subset_trans [OF ipv4_string_set 1] subset_trans [OF ipv6_string_set 2]
      simp_thms split: if_split)
qed

lemma ip_string_notin: "c \<notin> set ''<nil>?.:0123456789abcdef'' \<Longrightarrow> c \<notin> set (ip_string ip)"
  using ip_string_set by blast

lemma ip_string_IPv4: "ip_string (IPv4 a b c d) = ipv4_string [a, b, c, d]"
  by (simp add: ip_string_def IPv4_def v4_in_v6_prefix_def to4_def)

lemma ip_string_v4: "length ip = 4 \<Longrightarrow> ip_string ip = ipv4_string ip"
  by (auto simp: ip_string_def)

lemma ip_string_to4: "to4 ip \<noteq> [] \<Longrightarrow> ip_string (to4 ip) = ip_string ip"
  using to4_length [of ip] by (auto simp: ip_string_def to4_def)

subsection \<open>Printing and parsing of IPv4 addresses\<close>

lemma digit_char_val:
  assumes "n < 10"
  shows "is_digit (digit_char n)" and "digit_val (digit_char n) = n"
proof -
  have "\<forall>n\<in>set [0..<10]. is_digit (digit_char n) \<and> digit_val (digit_char n) = n"
    by code_simp
  with assms show "is_digit (digit_char n)" and "digit_val (digit_char n) = n" by auto
qed

lemma parse_v4_fields_dec:
  "n \<le> 255 \<Longrightarrow>
   parse_v4_fields 0 0 fs (dec_nat n @ cs) = parse_v4_fields n (length (dec_nat n)) fs cs"
proof (induction n arbitrary: cs rule: dec_nat.induct)
  case (1 n)
  show ?case
  proof (cases "n < 10")
    case True
    then show ?thesis by (simp add: dec_nat.simps [of n] digit_char_val)
  next
    case False
    then have "parse_v4_fields 0 0 fs (dec_nat (n div 10) @ digit_char (n mod 10) # cs)
      = parse_v4_fields (n div 10) (length (dec_nat (n div 10))) fs (digit_char (n mod 10) # cs)"
      using "1.IH" "1.prems" by simp
    also have "\<dots> = parse_v4_fields n (Suc (length (dec_nat (n div 10)))) fs cs"
    proof -
      from False have "n div 10 \<noteq> 0" by simp
      with False "1.prems" show ?thesis by (simp add: digit_char_val)
    qed
    finally show ?thesis using False by (simp add: dec_nat.simps [of n])
  qed
qed

lemma parse_v4_fields_dot:
  "n \<le> 255 \<Longrightarrow> length fs < 3 \<Longrightarrow> cs \<noteq> [] \<Longrightarrow>
   parse_v4_fields 0 0 fs (dec_nat n @ CHR ''.'' # cs) = parse_v4_fields 0 0 (fs @ [of_nat n]) cs"
  by (subst parse_v4_fields_dec) (auto simp: is_digit_def)

lemma unat_byte_le: "unat (b :: byte) \<le> 255"
  using unsigned_less [of b, where 'a = nat] by simp

lemma parse_v4_fields_string:
  "parse_v4_fields 0 0 [] (ipv4_string [a, b, c, d]) = Some [a, b, c, d]"
proof -
  have "parse_v4_fields 0 0 [a, b, c] (dec_nat (unat d) @ []) = Some [a, b, c, d]"
    by (subst parse_v4_fields_dec) (simp_all add: unat_byte_le)
  then show ?thesis
    by (simp add: ipv4_string_def parse_v4_fields_dot unat_byte_le)
qed

lemma filter_sep_digits: "set xs \<subseteq> set ''0123456789'' \<Longrightarrow> filter (\<lambda>c. c \<in> set ''.:%'') xs = []"
  by (auto simp: filter_empty_conv)

lemma parse_ip_string:
  assumes "length ip = 4"
  shows "parse_ip (ip_string ip) = Some (v4_in_v6_prefix @ ip)"
proof -
  from assms obtain a b c d where ip: "ip = [a, b, c, d]"
    by (auto simp: numeral_eq_Suc length_Suc_conv)
  have "filter (\<lambda>c. c \<in> set ''.:%'') (ipv4_string [a, b, c, d])
    = filter (\<lambda>c. c \<in> set ''.:%'') (dec_nat (unat a)) @ CHR ''.'' #
      filter (\<lambda>c. c \<in> set ''.:%'') (dec_nat (unat b) @ CHR ''.'' # dec_nat (unat c)
        @ CHR ''.'' # dec_nat (unat d))"
    by (simp add: ipv4_string_def)
  also have "filter (\<lambda>c. c \<in> set ''.:%'') (dec_nat (unat a)) = []"
    by (rule filter_sep_digits) (rule dec_nat_digits)
  finally have "\<exists>ys. filter (\<lambda>c. c \<in> set ''.:%'') (ipv4_string [a, b, c, d]) = CHR ''.'' # ys"
    by simp
  then show ?thesis
    by (auto simp: ip ip_string_v4 parse_ip_def parse_ipv4_def parse_v4_fields_string)
qed

lemma ip_string_v4_inject:
  assumes "length ip = 4" and "length ip' = 4" and "ip_string ip = ip_string ip'"
  shows "ip = ip'"
proof -
  have "Some (v4_in_v6_prefix @ ip) = Some (v4_in_v6_prefix @ ip')"
    using parse_ip_string [OF assms(1)] parse_ip_string [OF assms(2)] assms(3) by metis
  then show ?thesis by (simp only: option.inject same_append_eq)
qed

text \<open>What \<^verbatim>\<open>ParseIP\<close> accepts holds nothing but hexadecimal digits, dots and colons.\<close>

lemma parse_v4_fields_chars:
  "parse_v4_fields v dl fs s = Some bs \<Longrightarrow> c \<in> set s \<Longrightarrow> is_hex c \<or> c = CHR ''.'' \<or> c = CHR '':''"
proof (induction v dl fs s rule: parse_v4_fields.induct)
  case (2 v dl fs x cs)
  have "is_digit x \<Longrightarrow> is_hex x" by (auto simp: is_digit_def is_hex_def)
  with 2 show ?case by (auto simp: Let_def split: if_splits)
qed simp

lemma parse_v6_loop_chars:
  "parse_v6_loop bs e s = Some (bs', e', rest) \<Longrightarrow> rest = [] \<Longrightarrow> c \<in> set s \<Longrightarrow>
   is_hex c \<or> c = CHR ''.'' \<or> c = CHR '':''"
proof (induction bs e s rule: parse_v6_loop.induct)
  case (1 bs e s)
  let ?r = "dropWhile is_hex s"
  have s: "is_hex c \<or> c \<in> set ?r"
    using "1.prems"(3) set_takeWhileD [of c is_hex s]
    by (metis UnE set_append takeWhile_dropWhile_id)
  show ?case
  proof (cases "?r \<noteq> [] \<and> hd ?r = CHR ''.''")
    case True
    then show ?thesis
      using "1.prems" parse_v4_fields_chars [of 0 0 "[]" s _ c]
      by (auto simp: parse_v6_loop.simps [of bs e s] Let_def split: if_splits)
  next
    case False
    show ?thesis
    proof (cases "c \<in> set ?r \<and> c \<noteq> CHR '':''")
      case True
      then have "c \<in> set (tl ?r)" if "hd ?r = CHR '':''" using that by (cases ?r) auto
      moreover have "c \<in> set (tl (tl ?r))" if "hd ?r = CHR '':''" "hd (tl ?r) = CHR '':''"
        using that True by (cases ?r; cases "tl ?r") auto
      moreover have "length ?r = 2 \<Longrightarrow> hd ?r = CHR '':'' \<Longrightarrow> hd (tl ?r) \<noteq> CHR '':''"
        using True by (auto simp: numeral_2_eq_2 length_Suc_conv)
      ultimately show ?thesis
        using "1.prems" "1.IH" False True
        by (auto simp: parse_v6_loop.simps [of bs e s] Let_def split: if_splits)
    qed (use s in auto)
  qed
qed

lemma parse_ip_chars:
  assumes "parse_ip s = Some ip" and "c \<in> set s"
  shows "is_hex c \<or> c = CHR ''.'' \<or> c = CHR '':''"
proof -
  from assms(1) consider "parse_ipv4 s = Some ip" | "parse_ipv6 s = Some ip"
    by (auto simp: parse_ip_def split: list.splits if_splits)
  then show ?thesis
  proof cases
    case 1
    then obtain z where "parse_v4_fields 0 0 [] s = Some z" by (auto simp: parse_ipv4_def)
    then show ?thesis using assms(2) by (rule parse_v4_fields_chars)
  next
    case 2
    let ?s = "if take 2 s = ''::'' then drop 2 s else s"
    have "set s = set (take 2 s) \<union> set (drop 2 s)"
      by (metis append_take_drop_id set_append)
    with assms(2) have "c = CHR '':'' \<or> c \<in> set ?s" by (cases "take 2 s = ''::''") auto
    moreover have "?s = [] \<or> (\<exists>e0 bs e. parse_v6_loop [] e0 ?s = Some (bs, e, []))"
      using 2 by (auto simp: parse_ipv6_def Let_def simp del: replicate.simps
          split: if_splits option.splits) blast+
    then have "c \<in> set ?s \<Longrightarrow> is_hex c \<or> c = CHR ''.'' \<or> c = CHR '':''"
      using parse_v6_loop_chars by fastforce
    ultimately show ?thesis by blast
  qed
qed

lemma parse_ip_notin:
  "parse_ip s = Some ip \<Longrightarrow> c \<notin> set ''0123456789abcdefABCDEF.:'' \<Longrightarrow> c \<notin> set s"
  using parse_ip_chars [of s ip c] by (auto simp: is_hex_def)

subsection \<open>Masks\<close>

lemma bit_255: "bit (255 :: byte) k \<longleftrightarrow> k < 8"
proof -
  have "(255 :: byte) = - 1" by simp
  then show ?thesis by (simp only: bit_minus_1_iff possible_bit_word) simp
qed

lemma byte_bits_and_255: "b AND 255 = (b :: byte)"
proof -
  have "(255 :: byte) = - 1" by simp
  then show ?thesis by (simp only: and.right_neutral)
qed

lemma length_byte_bits [simp]: "length (byte_bits b) = 8"
  by (simp add: byte_bits_def)

lemma length_ip_bits [simp]: "length (ip_bits bs) = 8 * length bs"
  by (induction bs) (simp_all add: ip_bits_def)

lemma nth_byte_bits: "i < 8 \<Longrightarrow> byte_bits b ! i = bit b (7 - i)"
proof -
  assume "i < 8"
  then have "i = 0 \<or> i = 1 \<or> i = 2 \<or> i = 3 \<or> i = 4 \<or> i = 5 \<or> i = 6 \<or> i = 7" by arith
  then show ?thesis by (elim disjE) (simp_all add: byte_bits_def)
qed

lemma bit_masked:
  "k < 8 \<Longrightarrow> bit (b AND NOT (drop_bit n 255) :: byte) k \<longleftrightarrow> bit b k \<and> 8 \<le> n + k"
proof -
  assume k: "k < 8"
  have e: "(255 :: byte) = - 1" by simp
  from k show ?thesis unfolding e by (auto simp: bit_simps)
qed

lemma byte_bits_masked:
  assumes "n < 8"
  shows "byte_bits (b AND NOT (drop_bit n 255)) = take n (byte_bits b) @ replicate (8 - n) False"
proof (rule nth_equalityI)
  fix i
  assume "i < length (byte_bits (b AND NOT (drop_bit n 255)))"
  then have i: "i < 8" by simp
  then show "byte_bits (b AND NOT (drop_bit n 255)) ! i
      = (take n (byte_bits b) @ replicate (8 - n) False) ! i"
    using assms by (auto simp: nth_byte_bits bit_masked nth_append)
qed (use assms in simp)

lemma ip_bits_masked:
  "length ip = l \<Longrightarrow> n \<le> 8 * l \<Longrightarrow>
   ip_bits (map2 (AND) ip (cidr_bytes l n)) = take n (ip_bits ip) @ replicate (8 * l - n) False"
proof (induction l arbitrary: ip n)
  case 0
  then show ?case by (simp add: ip_bits_def)
next
  case (Suc l)
  then obtain b bs where ip: "ip = b # bs" and bs: "length bs = l"
    by (cases ip) auto
  show ?case
  proof (cases "8 \<le> n")
    case True
    with Suc.IH [OF bs, of "n - 8"] Suc.prems show ?thesis
      by (simp add: ip ip_bits_def byte_bits_and_255)
  next
    case False
    with Suc.IH [OF bs, of 0] show ?thesis
      by (simp add: ip ip_bits_def byte_bits_masked replicate_add [symmetric])
  qed
qed

lemma length_cidr_bytes [simp]: "length (cidr_bytes l n) = l"
  by (induction l arbitrary: n) auto

lemma ip_mask_cidr:
  "length ip = 4 \<Longrightarrow> n \<le> 32 \<Longrightarrow> ip_mask ip (cidr_mask n 32) = map2 (AND) ip (cidr_bytes 4 n)"
  by (simp add: ip_mask_def cidr_mask_def Let_def)

lemma mask_size_bound: "fst (mask_size m) \<le> 8 * length m"
proof -
  have "length (takeWhile id (ip_bits m)) \<le> length (ip_bits m)"
    by (rule length_takeWhile_le)
  then show ?thesis by (simp add: mask_size_def Let_def)
qed

lemma cidr_bytes_bits:
  "n \<le> 8 * l \<Longrightarrow> ip_bits (cidr_bytes l n) = replicate n True @ replicate (8 * l - n) False"
proof -
  assume n: "n \<le> 8 * l"
  have a: "map2 (AND) (replicate l 255) (cidr_bytes l n) = cidr_bytes l n"
    by (rule nth_equalityI) (simp_all add: byte_bits_and_255 and.commute)
  have "byte_bits 255 = replicate 8 True"
    by (simp add: byte_bits_def bit_255 numeral_eq_Suc)
  then have "ip_bits (replicate l 255) = replicate (8 * l) True"
    by (induction l) (simp_all add: ip_bits_def replicate_add [symmetric])
  with ip_bits_masked [of "replicate l 255" l n] n a show ?thesis by (simp add: min_def)
qed

lemma mask_size_cidr:
  assumes "n \<le> 32"
  shows "mask_size (cidr_mask n 32) = (n, 32)"
proof -
  have "ip_bits (cidr_mask n 32) = replicate n True @ replicate (32 - n) False"
    using cidr_bytes_bits [of n 4] assms by (simp add: cidr_mask_def)
  moreover have "takeWhile id (replicate n True @ replicate k False) = replicate n True"
    and "dropWhile id (replicate n True @ replicate k False) = replicate k False" for k
    by (induction n) (cases k, simp_all)+
  ultimately show ?thesis using assms by (simp add: mask_size_def)
qed

end
