(* ===== verification/Packet.thy ===== *)
theory Packet
  imports GoNet
begin

text \<open>
  The packet that flows through the pipelines (\<^verbatim>\<open>internal/proxy/types.go\<close>) and the
  link types (\<^verbatim>\<open>internal/proxy/linktypes.go\<close>), with what the program observes of
  gopacket.  A \<^verbatim>\<open>gopacket.Packet\<close> is an interface value, here the record of the
  results of the methods the program calls on it.  The library's functions
  (decoding, serialisation, the printers of its enumerations) are a parameter, a
  record of type \<open>gopacket_lib\<close>; no result of this development assumes anything
  about them unless the statement says so.
\<close>

section \<open>Link types and layer types\<close>

type_synonym link_type = "8 word"

definition LinkTypeNull :: link_type where "LinkTypeNull = 0"
definition LinkTypeEthernet :: link_type where "LinkTypeEthernet = 1"
definition LinkTypeRaw :: link_type where "LinkTypeRaw = 101"
definition LinkTypeLoop :: link_type where "LinkTypeLoop = 108"
definition LinkTypeRawOpenBSD :: link_type where "LinkTypeRawOpenBSD = 14"
definition LinkTypeRawOthers :: link_type where "LinkTypeRawOthers = 12"

lemmas link_type_defs =
  LinkTypeNull_def LinkTypeEthernet_def LinkTypeRaw_def LinkTypeLoop_def
  LinkTypeRawOpenBSD_def LinkTypeRawOthers_def

datatype layer_type =
    LayerTypeEthernet
  | LayerTypeLoopback
  | LayerTypeIPv4
  | LayerTypeIPv6
  | LayerTypeUDP
  | LayerTypePayload
  | OtherLayerType nat

section \<open>Layers\<close>

record ipv4_layer =
  ip4_Version :: byte
  ip4_IHL :: byte
  ip4_TOS :: byte
  ip4_Length :: "16 word"
  ip4_Id :: "16 word"
  ip4_Flags :: byte
  ip4_FragOffset :: "16 word"
  ip4_TTL :: byte
  ip4_Protocol :: byte
  ip4_Checksum :: "16 word"
  ip4_SrcIP :: ip
  ip4_DstIP :: ip
  ip4_Options :: "(byte \<times> byte list) list"

definition IPProtocolUDP :: byte where "IPProtocolUDP = 17"

text \<open>
  \<open>udp_network\<close> is the network layer that \<^verbatim>\<open>SetNetworkLayerForChecksum\<close> records for
  the checksum computation.
\<close>

record udp_layer =
  udp_SrcPort :: "16 word"
  udp_DstPort :: "16 word"
  udp_Length :: "16 word"
  udp_Payload :: "byte list"
  udp_network :: "ipv4_layer option"

record eth_layer =
  eth_SrcMAC :: mac
  eth_DstMAC :: mac
  eth_EthernetType :: "16 word"

definition EthernetTypeIPv4 :: "16 word" where "EthernetTypeIPv4 = 0x0800"

record ipv6_layer =
  ip6_FlowLabel :: "32 word"

text \<open>
  A layer as the dynamic type behind the \<^verbatim>\<open>gopacket.Layer\<close> interface; the code
  finds out which one it is by a type assertion.
\<close>

datatype layer =
    L_IPv4 ipv4_layer
  | L_UDP udp_layer
  | L_Ethernet eth_layer
  | L_IPv6 ipv6_layer
  | L_Other layer_type

definition as_ipv4 :: "layer \<Rightarrow> ipv4_layer option" where
  "as_ipv4 l = (case l of L_IPv4 v \<Rightarrow> Some v | _ \<Rightarrow> None)"

definition as_udp :: "layer \<Rightarrow> udp_layer option" where
  "as_udp l = (case l of L_UDP v \<Rightarrow> Some v | _ \<Rightarrow> None)"

definition as_ethernet :: "layer \<Rightarrow> eth_layer option" where
  "as_ethernet l = (case l of L_Ethernet v \<Rightarrow> Some v | _ \<Rightarrow> None)"

definition as_ipv6 :: "layer \<Rightarrow> ipv6_layer option" where
  "as_ipv6 l = (case l of L_IPv6 v \<Rightarrow> Some v | _ \<Rightarrow> None)"

section \<open>Decoded packets\<close>

record gopacket =
  gp_network :: "layer_type option"       \<comment> \<open>\<^verbatim>\<open>NetworkLayer()\<close>, its \<^verbatim>\<open>LayerType()\<close>\<close>
  gp_transport :: "layer_type option"     \<comment> \<open>\<^verbatim>\<open>TransportLayer()\<close>, its \<^verbatim>\<open>LayerType()\<close>\<close>
  gp_layer :: "layer_type \<Rightarrow> layer option" \<comment> \<open>\<^verbatim>\<open>Layer(t)\<close>\<close>
  gp_error :: "go_error option"           \<comment> \<open>\<^verbatim>\<open>ErrorLayer()\<close>, its \<^verbatim>\<open>Error()\<close>\<close>
  gp_application :: "byte list option"    \<comment> \<open>\<^verbatim>\<open>ApplicationLayer()\<close>, its \<^verbatim>\<open>Payload()\<close>\<close>
  gp_data :: "byte list"                  \<comment> \<open>\<^verbatim>\<open>Data()\<close>\<close>
  gp_dump :: string                       \<comment> \<open>\<^verbatim>\<open>Dump()\<close>\<close>

text \<open>
  The timestamp of the capture information: whether it is the zero time, and the
  time of day it prints as, in microseconds since midnight of its location.
\<close>

record capture_info =
  ci_zero :: bool
  ci_tod_us :: nat
  ci_CaptureLength :: int
  ci_Length :: int

text \<open>\<^verbatim>\<open>proxy.Packet\<close>; the interface value \<^verbatim>\<open>Packet\<close> may be nil.\<close>

record packet =
  pk_Raw :: "byte list"
  pk_Metadata :: capture_info
  pk_Packet :: "gopacket option"
  pk_ArrivalInterface :: string

section \<open>The library\<close>

datatype ser_layer =
    S_Ethernet eth_layer
  | S_Loopback
  | S_IPv4 ipv4_layer
  | S_UDP udp_layer
  | S_Payload "byte list"

record serialize_options =
  so_FixLengths :: bool
  so_ComputeChecksums :: bool

record gopacket_lib =
  gl_new_packet :: "byte list \<Rightarrow> layer_type \<Rightarrow> gopacket"
  gl_serialize :: "serialize_options \<Rightarrow> ser_layer list \<Rightarrow> go_error + byte list"
  gl_set_network :: "udp_layer \<Rightarrow> ipv4_layer \<Rightarrow> go_error + udp_layer"
  gl_link_type_string :: "link_type \<Rightarrow> string"
  gl_ether_type_string :: "16 word \<Rightarrow> string"
  gl_protocol_string :: "byte \<Rightarrow> string"

text \<open>
  What gopacket documents of \<^verbatim>\<open>Layer\<close>: the layer returned for a type has that type.
\<close>

definition typed_layers :: "gopacket \<Rightarrow> bool" where
  "typed_layers g \<longleftrightarrow>
     (\<forall>l. gp_layer g LayerTypeIPv4 = Some l \<longrightarrow> as_ipv4 l \<noteq> None) \<and>
     (\<forall>l. gp_layer g LayerTypeUDP = Some l \<longrightarrow> as_udp l \<noteq> None) \<and>
     (\<forall>l. gp_layer g LayerTypeEthernet = Some l \<longrightarrow> as_ethernet l \<noteq> None)"

definition packet_ipv4 :: "packet \<Rightarrow> ipv4_layer option" where
  "packet_ipv4 p =
     Option.bind (pk_Packet p) (\<lambda>g. Option.bind (gp_layer g LayerTypeIPv4) as_ipv4)"

definition packet_udp :: "packet \<Rightarrow> udp_layer option" where
  "packet_udp p =
     Option.bind (pk_Packet p) (\<lambda>g. Option.bind (gp_layer g LayerTypeUDP) as_udp)"

section \<open>A packet to evaluate on\<close>

text \<open>A UDP datagram over IPv4 and Ethernet, for the concrete instances of the theorems.\<close>

definition example_ipv4 :: "ip \<Rightarrow> ip \<Rightarrow> ipv4_layer" where
  "example_ipv4 src dst =
     \<lparr>ip4_Version = 4, ip4_IHL = 5, ip4_TOS = 0, ip4_Length = 32, ip4_Id = 7, ip4_Flags = 2,
      ip4_FragOffset = 0, ip4_TTL = 64, ip4_Protocol = 17, ip4_Checksum = 0,
      ip4_SrcIP = src, ip4_DstIP = dst, ip4_Options = []\<rparr>"

definition example_udp :: udp_layer where
  "example_udp = \<lparr>udp_SrcPort = 9003, udp_DstPort = 9003, udp_Length = 12,
     udp_Payload = [1, 2, 3, 4], udp_network = None\<rparr>"

definition example_gopacket :: "ip \<Rightarrow> ip \<Rightarrow> mac \<Rightarrow> gopacket" where
  "example_gopacket src dst smac =
     \<lparr>gp_network = Some LayerTypeIPv4, gp_transport = Some LayerTypeUDP,
      gp_layer = (\<lambda>t. if t = LayerTypeIPv4 then Some (L_IPv4 (example_ipv4 src dst))
                      else if t = LayerTypeUDP then Some (L_UDP example_udp)
                      else if t = LayerTypeEthernet then Some (L_Ethernet \<lparr>eth_SrcMAC = smac,
                        eth_DstMAC = [255, 255, 255, 255, 255, 255], eth_EthernetType = 0x0800\<rparr>)
                      else None),
      gp_error = None, gp_application = Some [1, 2, 3, 4], gp_data = [], gp_dump = []\<rparr>"

definition example_packet :: "string \<Rightarrow> ip \<Rightarrow> packet" where
  "example_packet iname src =
     \<lparr>pk_Raw = [], pk_Metadata = \<lparr>ci_zero = True, ci_tod_us = 0, ci_CaptureLength = 0, ci_Length = 0\<rparr>,
      pk_Packet = Some (example_gopacket src [192, 168, 1, 255] [2, 0, 0, 0, 0, 1]),
      pk_ArrivalInterface = iname\<rparr>"

lemmas example_defs =
  example_ipv4_def example_udp_def example_gopacket_def example_packet_def

lemma as_ipv4_simps [simp]: "as_ipv4 (L_IPv4 v) = Some v" "as_ipv4 l = Some v \<longleftrightarrow> l = L_IPv4 v"
  by (auto simp: as_ipv4_def split: layer.splits)

lemma as_udp_simps [simp]: "as_udp (L_UDP v) = Some v" "as_udp l = Some v \<longleftrightarrow> l = L_UDP v"
  by (auto simp: as_udp_def split: layer.splits)

lemma as_ethernet_simps [simp]:
  "as_ethernet (L_Ethernet v) = Some v" "as_ethernet l = Some v \<longleftrightarrow> l = L_Ethernet v"
  by (auto simp: as_ethernet_def split: layer.splits)

lemma packet_ipv4_Some:
  "packet_ipv4 p = Some v \<longleftrightarrow>
     (\<exists>g. pk_Packet p = Some g \<and> gp_layer g LayerTypeIPv4 = Some (L_IPv4 v))"
  by (auto simp: packet_ipv4_def bind_eq_Some_conv)

lemma packet_udp_Some:
  "packet_udp p = Some u \<longleftrightarrow>
     (\<exists>g. pk_Packet p = Some g \<and> gp_layer g LayerTypeUDP = Some (L_UDP u))"
  by (auto simp: packet_udp_def bind_eq_Some_conv)

end
