(* ===== verification/Config.thy ===== *)
theory Config
  imports Packet
begin

text \<open>
  \<^verbatim>\<open>internal/config/utils.go\<close>: the BPF filter of an interface, the network of an
  address in CIDR form, and the conversion of the libpcap timeout.
\<close>

section \<open>Operations\<close>

text \<open>\<^verbatim>\<open>pcap.InterfaceAddress\<close>, the fields the program reads.\<close>

record interface_address =
  ia_IP :: ip
  ia_Netmask :: ipmask
  ia_Broadaddr :: ip
  ia_P2P :: ip

definition GetNetwork :: "interface_address \<Rightarrow> go_error + string" where
  "GetNetwork addr =
     (let ip4 = to4 (ia_IP addr) in
      if ip4 = [] then
        Inl (Errorf (''unable to getNetwork for IPv6 address: '' @ ip_string (ia_IP addr)))
      else
        let size = fst (mask_size (ia_Netmask addr)); mask = cidr_mask size 32 in
        Inr (ip_string (ip_mask ip4 mask) @ ''/'' @ dec_nat size))"

text \<open>The networks of the loop over the addresses, each as a BPF term.\<close>

fun source_networks :: "interface_address list \<Rightarrow> string list" where
  "source_networks [] = []"
| "source_networks (addr # addrs) =
     (case GetNetwork addr of
        Inl e \<Rightarrow> source_networks addrs
      | Inr net \<Rightarrow>
          if 0 < fst (mask_size (ia_Netmask addr))
          then (''src net '' @ net) # source_networks addrs
          else source_networks addrs)"

definition parenthesize :: "string \<Rightarrow> string" where
  "parenthesize s = ''('' @ s @ '')''"

definition BuildBPFFilter :: "32 word list \<Rightarrow> interface_address list \<Rightarrow> string" where
  "BuildBPFFilter ports addresses =
     (if length ports < 1 then ''''
      else
        let bpfPortFilters = map (\<lambda>p. ''udp port '' @ dec_int (sint p)) ports;
            ports_joined = join '' or '' bpfPortFilters;
            bpfFilter = (if length bpfPortFilters > 1 then parenthesize ports_joined
                         else ports_joined);
            networks = source_networks addresses
        in if length networks \<ge> 1 then
             let joined = join '' or '' networks;
                 networkFilter = (if length networks > 1 then parenthesize joined else joined)
             in bpfFilter @ '' and '' @ networkFilter
           else bpfFilter)"

text \<open>\<^verbatim>\<open>time.Duration\<close> is an \<^verbatim>\<open>int64\<close> of nanoseconds; the product wraps around.\<close>

definition Millisecond :: "64 word" where "Millisecond = 1000000"

definition ParseTimeout :: "64 word \<Rightarrow> 64 word" where
  "ParseTimeout timeout = timeout * Millisecond"

section \<open>Lemmas\<close>

lemma source_networks_iff:
  "s \<in> set (source_networks addrs) \<longleftrightarrow>
     (\<exists>addr\<in>set addrs. \<exists>net. GetNetwork addr = Inr net \<and>
        0 < fst (mask_size (ia_Netmask addr)) \<and> s = ''src net '' @ net)"
  by (induction addrs) (auto split: sum.splits)

lemma source_networks_append:
  "source_networks (as @ bs) = source_networks as @ source_networks bs"
  by (induction as) (auto split: sum.splits)

lemma GetNetwork_error_iff: "(\<exists>e. GetNetwork addr = Inl e) \<longleftrightarrow> to4 (ia_IP addr) = []"
  by (simp add: GetNetwork_def Let_def)

lemma source_networks_v6: "(\<forall>addr\<in>set addrs. to4 (ia_IP addr) = []) \<Longrightarrow> source_networks addrs = []"
  by (induction addrs) (auto simp: GetNetwork_def)

lemma GetNetwork_Inr:
  assumes "to4 (ia_IP addr) \<noteq> []" and "length (ia_Netmask addr) = 4"
    and "fst (mask_size (ia_Netmask addr)) = n"
  shows "\<exists>net. GetNetwork addr = Inr (ipv4_string net @ ''/'' @ dec_nat n) \<and>
           length net = 4 \<and>
           ip_bits net = take n (ip_bits (to4 (ia_IP addr))) @ replicate (32 - n) False"
proof -
  have l: "length (to4 (ia_IP addr)) = 4"
    using assms(1) to4_length by blast
  have n: "n \<le> 32"
    using mask_size_bound [of "ia_Netmask addr"] assms by simp
  let ?net = "map2 (AND) (to4 (ia_IP addr)) (cidr_bytes 4 n)"
  have "length ?net = 4" using l by simp
  moreover have "ip_bits ?net = take n (ip_bits (to4 (ia_IP addr))) @ replicate (32 - n) False"
    using ip_bits_masked [OF l, of n] n by simp
  moreover have "GetNetwork addr = Inr (ipv4_string ?net @ ''/'' @ dec_nat n)"
    using assms n l by (simp add: GetNetwork_def Let_def ip_mask_cidr ip_string_v4)
  ultimately show ?thesis by blast
qed

section \<open>Properties\<close>

text \<open>
  The network of an IPv4 address with a four-byte netmask is the address with its
  host bits cleared, in the form \<open>a.b.c.d/n\<close>: the first \<open>n\<close> bits are those of the
  address, the others are zero, and \<open>n\<close> is the length of the netmask.
\<close>

theorem GetNetwork_clears_host_bits:
  assumes "to4 (ia_IP addr) \<noteq> []" and "length (ia_Netmask addr) = 4"
  shows "\<exists>net n. GetNetwork addr = Inr (ipv4_string net @ ''/'' @ dec_nat n) \<and>
           n = fst (mask_size (ia_Netmask addr)) \<and> length net = 4 \<and>
           ip_bits net = take n (ip_bits (to4 (ia_IP addr))) @ replicate (32 - n) False"
  using GetNetwork_Inr [OF assms refl] by blast

theorem GetNetwork_clears_host_bits_witness:
  "\<exists>net n. GetNetwork \<lparr>ia_IP = [192, 168, 77, 9], ia_Netmask = [255, 255, 240, 0],
        ia_Broadaddr = [], ia_P2P = []\<rparr> = Inr (ipv4_string net @ ''/'' @ dec_nat n) \<and>
     n = fst (mask_size [255, 255, 240, 0]) \<and> length net = 4 \<and>
     ip_bits net = take n (ip_bits [192, 168, 77, 9]) @ replicate (32 - n) False"
  using GetNetwork_clears_host_bits [of "\<lparr>ia_IP = [192, 168, 77, 9],
    ia_Netmask = [255, 255, 240, 0], ia_Broadaddr = [], ia_P2P = []\<rparr>"] by simp

text \<open>
  C35. The filter of at least one port is the disjunction of the ports, followed by the
  disjunction of the source networks when an address gives one: every port occurs as a
  term, in order, and an address contributes exactly when it is an IPv4 address with a
  netmask of at least one bit.  No port gives the empty filter.
\<close>

theorem BuildBPFFilter_shape:
  "BuildBPFFilter ports addrs =
     (let ps = map (\<lambda>p. ''udp port '' @ dec_int (sint p)) ports;
          ns = map (\<lambda>a. ''src net '' @ projr (GetNetwork a))
                 (filter (\<lambda>a. to4 (ia_IP a) \<noteq> [] \<and> 0 < fst (mask_size (ia_Netmask a))) addrs);
          disj = (\<lambda>xs. if length xs = 1 then hd xs else ''('' @ join '' or '' xs @ '')'')
      in if ps = [] then '''' else if ns = [] then disj ps else disj ps @ '' and '' @ disj ns)"
proof -
  have ns: "source_networks addrs = map (\<lambda>a. ''src net '' @ projr (GetNetwork a))
      (filter (\<lambda>a. to4 (ia_IP a) \<noteq> [] \<and> 0 < fst (mask_size (ia_Netmask a))) addrs)"
    by (induction addrs) (auto simp: GetNetwork_def Let_def)
  have one: "length xs = 1 \<Longrightarrow> join '' or '' xs = hd xs" for xs :: "string list"
    by (cases xs) auto
  show ?thesis
    unfolding ns [symmetric] BuildBPFFilter_def
    by (cases ports; cases "source_networks addrs")
      (auto simp: Let_def parenthesize_def one)
qed

text \<open>
  C36. \<^verbatim>\<open>ParseTimeout\<close> multiplies by a million without overflow exactly on the inputs of
  absolute value up to 9223372036854 milliseconds, and wraps around modulo \<open>2 ^ 64\<close>
  outside.
\<close>

theorem ParseTimeout_exact:
  "sint (ParseTimeout t) = sint t * 1000000 \<longleftrightarrow> \<bar>sint t\<bar> \<le> 9223372036854"
proof -
  have s: "sint (ParseTimeout t) = signed_take_bit 63 (sint t * 1000000)"
    by (simp add: ParseTimeout_def Millisecond_def sint_word_ariths)
  have "sint (ParseTimeout t) = sint t * 1000000 \<longleftrightarrow>
      - (2 ^ 63) \<le> sint t * 1000000 \<and> sint t * 1000000 < 2 ^ 63"
    unfolding s by (rule signed_take_bit_int_eq_self_iff)
  also have "\<dots> \<longleftrightarrow> \<bar>sint t\<bar> \<le> 9223372036854" by simp arith
  finally show ?thesis .
qed

end
