(* ===== verification/Cli.thy ===== *)
theory Cli
  imports Config
begin

text \<open>
  \<^verbatim>\<open>cmd/udp-proxy-2020/cli.go\<close> and \<^verbatim>\<open>getDurations\<close> of \<^verbatim>\<open>main.go\<close>: the command line, once
  the library kong has filled it in, its validation, the log level and the durations.
  \<^verbatim>\<open>os.Exit\<close> is a value.
\<close>

section \<open>State\<close>

text \<open>The fields of 64 and 32 bits are words; \<open>c_\<close> stands for the \<^verbatim>\<open>CLI\<close> of the code.\<close>

record cli =
  c_Interface :: "string list"
  c_FixedIp :: "string list"
  c_Port :: "32 word list"
  c_Timeout :: "64 word"
  c_CacheTTL :: "64 word"
  c_DeliverLocal :: bool
  c_Level :: string
  c_LogLines :: bool
  c_Logfile :: string
  c_NoListen :: bool
  c_Decode :: bool
  c_Pcap :: bool
  c_PcapPath :: string
  c_GraphPipeline :: string
  c_ListInterfaces :: bool
  c_Version :: bool

text \<open>The variables of \<^verbatim>\<open>main.go\<close> that the linker sets.\<close>

record build_info =
  bi_Version :: string
  bi_Buildinfos :: string
  bi_Tag :: string
  bi_CommitID :: string
  bi_Delta :: string

text \<open>Why the program stops: its exit code, or an error that its caller reports.\<close>

datatype failure = Exit nat | Failed go_error

section \<open>Arguments\<close>

definition newline :: string where "newline = [CHR 0x0A]"

definition version_text :: "build_info \<Rightarrow> string" where
  "version_text b =
     (let delta = (if length (bi_Delta b) > 0 then '' ['' @ bi_Delta b @ '' delta]'' else '''');
          tag = (if length (bi_Delta b) > 0 then ''Unknown'' else bi_Tag b) in
      ''udp-proxy-2020 Version '' @ bi_Version b @ '' -- Copyright 2020-2026 Aaron Turner'' @ newline @
      bi_CommitID b @ '' ('' @ tag @ '')'' @ delta @ '' built at '' @ bi_Buildinfos b @ newline)"

text \<open>\<^verbatim>\<open>parseArgs\<close> after the parser: what it prints on the two outputs, and its result.\<close>

definition parseArgs :: "build_info \<Rightarrow> cli \<Rightarrow> string \<times> string \<times> (failure + cli)" where
  "parseArgs b cli =
     (if c_Version cli then (version_text b, '''', Inl (Exit 0))
      else if length (c_Interface cli) < 2 \<and> \<not> c_ListInterfaces cli \<and> \<not> c_Version cli \<and>
          c_GraphPipeline cli = ''''
        then ('''', ''Please specify two or more --interface'' @ newline, Inl (Exit 1))
      else if length (c_Port cli) < 1 \<and> \<not> c_ListInterfaces cli \<and> \<not> c_Version cli \<and>
          c_GraphPipeline cli = ''''
        then ('''', ''Please specify one or more --port'' @ newline, Inl (Exit 1))
      else if c_GraphPipeline cli \<noteq> '''' then
        if length (c_Interface cli) < 2
          then ('''', ''Please specify two or more --interface for --graph-pipeline'' @ newline, Inl (Exit 1))
        else if length (c_Port cli) < 1
          then ('''', ''Please specify one or more --port for --graph-pipeline'' @ newline, Inl (Exit 1))
        else ('''', '''', Inr cli)
      else ('''', '''', Inr cli))"

section \<open>Logging\<close>

text \<open>\<^verbatim>\<open>slog.Level\<close>, an integer type with its order.\<close>

datatype slog_level = Level int

fun level_int :: "slog_level \<Rightarrow> int" where
  "level_int (Level i) = i"

instantiation slog_level :: linorder
begin

definition less_eq_slog_level :: "slog_level \<Rightarrow> slog_level \<Rightarrow> bool" where
  "less_eq_slog_level l m \<longleftrightarrow> level_int l \<le> level_int m"

definition less_slog_level :: "slog_level \<Rightarrow> slog_level \<Rightarrow> bool" where
  "less_slog_level l m \<longleftrightarrow> level_int l < level_int m"

instance
proof
  fix l m n :: slog_level
  show "(l < m) = (l \<le> m \<and> \<not> m \<le> l)" by (auto simp: less_eq_slog_level_def less_slog_level_def)
  show "l \<le> l" by (simp add: less_eq_slog_level_def)
  show "l \<le> m \<Longrightarrow> m \<le> n \<Longrightarrow> l \<le> n" by (simp add: less_eq_slog_level_def)
  show "l \<le> m \<Longrightarrow> m \<le> l \<Longrightarrow> l = m"
    by (cases l; cases m) (simp add: less_eq_slog_level_def)
  show "l \<le> m \<or> m \<le> l" by (auto simp: less_eq_slog_level_def)
qed

end

definition LevelDebug :: slog_level where "LevelDebug = Level (-4)"
definition LevelInfo :: slog_level where "LevelInfo = Level 0"
definition LevelWarn :: slog_level where "LevelWarn = Level 4"
definition LevelError :: slog_level where "LevelError = Level 8"

definition log_level :: "string \<Rightarrow> slog_level" where
  "log_level s =
     (if s = ''trace'' then Level (level_int LevelDebug - 4)
      else if s = ''debug'' then LevelDebug
      else if s = ''warn'' then LevelWarn
      else if s = ''info'' then LevelInfo
      else if s = ''error'' then LevelError
      else LevelInfo)"

record handler =
  hd_Level :: slog_level
  hd_AddSource :: bool
  hd_file :: "string option"      \<comment> \<open>\<open>None\<close> is the standard error\<close>

text \<open>\<open>open_file\<close> is the error of \<^verbatim>\<open>os.OpenFile\<close>, if any; an exit is after a message.\<close>

definition setupLogging :: "(string \<Rightarrow> go_error option) \<Rightarrow> cli \<Rightarrow> failure + handler" where
  "setupLogging open_file cli =
     (let level = log_level (c_Level cli) in
      if c_Logfile cli \<noteq> ''stderr'' then
        (case open_file (c_Logfile cli) of
           Some err \<Rightarrow> Inl (Exit 1)
         | None \<Rightarrow> Inr \<lparr>hd_Level = level, hd_AddSource = c_LogLines cli,
             hd_file = Some (c_Logfile cli)\<rparr>)
      else Inr \<lparr>hd_Level = level, hd_AddSource = c_LogLines cli, hd_file = None\<rparr>)"

text \<open>What \<^verbatim>\<open>slog\<close> does with the level: a record is written when it is at least that.\<close>

definition handler_enabled :: "handler \<Rightarrow> slog_level \<Rightarrow> bool" where
  "handler_enabled h level \<longleftrightarrow> hd_Level h \<le> level"

section \<open>Durations\<close>

text \<open>
  \<^verbatim>\<open>time.ParseDuration\<close> of a positive decimal integer followed by \<^verbatim>\<open>m\<close>: it refuses a number
  of minutes whose nanoseconds do not fit 64 bits.
\<close>

definition Minute :: duration where "Minute = 60000000000"

definition parse_minutes :: "int \<Rightarrow> go_error + duration" where
  "parse_minutes n =
     (if n > 2 ^ 63 div Minute
      then Inl (ErrorfQ ''time: invalid duration %q'' (dec_int n @ ''m''))
      else if n * Minute > 2 ^ 63 - 1
      then Inl (ErrorfQ ''time: invalid duration %q'' (dec_int n @ ''m''))
      else Inr (n * Minute))"

definition getDurations :: "cli \<Rightarrow> failure + (duration \<times> duration)" where
  "getDurations cli =
     (let timeout = ParseTimeout (c_Timeout cli) in
      if sint (c_CacheTTL cli) \<le> 0 then Inl (Exit 1)
      else (case parse_minutes (sint (c_CacheTTL cli)) of
          Inl err \<Rightarrow> Inl (Exit 1)
        | Inr ttl \<Rightarrow> Inr (sint timeout, ttl)))"

section \<open>Properties\<close>

text \<open>
  The arguments are accepted exactly when no version is asked for and there are two
  interfaces and a port, or only the interfaces are to be listed; drawing the pipelines
  asks for interfaces and a port even then.  Every refusal says why and exits with code 1.
\<close>

theorem parseArgs_accepts:
  "case parseArgs b cli of (out, err, r) \<Rightarrow>
     (r = Inr cli \<and> out = [] \<and> err = [] \<longleftrightarrow> \<not> c_Version cli \<and>
        (2 \<le> length (c_Interface cli) \<and> c_Port cli \<noteq> [] \<or>
         c_ListInterfaces cli \<and> c_GraphPipeline cli = [])) \<and>
     (r = Inr cli \<or> r = Inl (Exit 0) \<and> c_Version cli \<and> out = version_text b \<or>
      r = Inl (Exit 1) \<and> err \<noteq> [])"
  by (auto simp: parseArgs_def)

text \<open>
  Each level of \<^verbatim>\<open>--level\<close> lets through exactly the records of its own level and the
  more severe ones; the levels are ordered trace, debug, info, warn, error.
\<close>

theorem log_level_order:
  "setupLogging open_file (cli\<lparr>c_Level := l, c_Logfile := ''stderr''\<rparr>) =
     Inr \<lparr>hd_Level = log_level l, hd_AddSource = c_LogLines cli, hd_file = None\<rparr> \<and>
   (handler_enabled \<lparr>hd_Level = log_level l, hd_AddSource = c_LogLines cli, hd_file = None\<rparr> m \<longleftrightarrow>
      log_level l \<le> m) \<and>
   log_level ''trace'' < log_level ''debug'' \<and> log_level ''debug'' < log_level ''info'' \<and>
   log_level ''info'' < log_level ''warn'' \<and> log_level ''warn'' < log_level ''error''"
  by (simp add: setupLogging_def handler_enabled_def log_level_def LevelDebug_def LevelInfo_def
      LevelWarn_def LevelError_def less_slog_level_def)

text \<open>
  The time to live is the given number of minutes, exactly and without overflow, for 1
  to 153722867 minutes; the program exits with code 1 on any other number.
\<close>

theorem getDurations_ttl:
  "getDurations cli =
     (if 1 \<le> sint (c_CacheTTL cli) \<and> sint (c_CacheTTL cli) \<le> 153722867
      then Inr (sint (ParseTimeout (c_Timeout cli)), sint (c_CacheTTL cli) * 60 * 10 ^ 9)
      else Inl (Exit 1))"
  by (auto simp: getDurations_def parse_minutes_def Minute_def Let_def)

end
