(* ===== verification/Pipeline.thy ===== *)
theory Pipeline
  imports Packet
begin

text \<open>
  The interfaces \<^verbatim>\<open>Source\<close>, \<^verbatim>\<open>Processor\<close> and \<^verbatim>\<open>Sink\<close> of \<^verbatim>\<open>internal/proxy/types.go\<close> and
  the pipeline of \<^verbatim>\<open>internal/proxy/pipeline.go\<close> that runs packets from a source through
  processors to sinks.  An interface value is the record of its methods, over a type
  \<open>'w\<close> of states of everything the stages read and change.
\<close>

section \<open>Interfaces\<close>

text \<open>
  \<^verbatim>\<open>Process\<close> may change the packet it is given a pointer to, so it returns the packet
  as well; \<^verbatim>\<open>Read\<close> is \<open>None\<close> when it never returns.
\<close>

record 'w processor =
  pr_Process :: "packet \<Rightarrow> 'w \<Rightarrow> panic + (bool \<times> go_error option \<times> packet \<times> 'w)"
  pr_Name :: string

record 'w sink =
  sk_Write :: "packet \<Rightarrow> 'w \<Rightarrow> panic + (go_error option \<times> 'w)"
  sk_Close :: "'w \<Rightarrow> go_error option \<times> 'w"
  sk_Name :: string

record 'w source =
  sr_Read :: "'w \<Rightarrow> (packet option \<times> go_error option \<times> 'w) option"
  sr_Close :: "'w \<Rightarrow> go_error option \<times> 'w"
  sr_Name :: string

record 'w pipeline =
  pl_Source :: "'w source"
  pl_Processors :: "'w processor list"
  pl_Sinks :: "'w sink list"

section \<open>Operations\<close>

definition NewPipeline :: "'w source \<Rightarrow> 'w pipeline" where
  "NewPipeline source = \<lparr>pl_Source = source, pl_Processors = [], pl_Sinks = []\<rparr>"

definition AddProcessor :: "'w processor \<Rightarrow> 'w pipeline \<Rightarrow> 'w pipeline" where
  "AddProcessor proc p = p\<lparr>pl_Processors := pl_Processors p @ [proc]\<rparr>"

definition AddSink :: "'w sink \<Rightarrow> 'w pipeline \<Rightarrow> 'w pipeline" where
  "AddSink sink p = p\<lparr>pl_Sinks := pl_Sinks p @ [sink]\<rparr>"

text \<open>
  The loop over the processors: an error or a processor that does not keep the packet
  breaks it, and the first component of the result is \<^verbatim>\<open>continueProcessing\<close>.
\<close>

fun process_all :: "'w processor list \<Rightarrow> packet \<Rightarrow> 'w \<Rightarrow> panic + (bool \<times> packet \<times> 'w)" where
  "process_all [] pkt w = Inr (True, pkt, w)"
| "process_all (proc # procs) pkt w =
     bind_panic (pr_Process proc pkt w) (\<lambda>(keep, err, pkt', w').
       if err \<noteq> None then Inr (False, pkt', w')
       else if \<not> keep then Inr (False, pkt', w')
       else process_all procs pkt' w')"

text \<open>The loop over the sinks: an error is logged and the next sink is written to.\<close>

fun write_all :: "'w sink list \<Rightarrow> packet \<Rightarrow> 'w \<Rightarrow> panic + 'w" where
  "write_all [] pkt w = Inr w"
| "write_all (sink # sinks) pkt w =
     bind_panic (sk_Write sink pkt w) (\<lambda>(err, w'). write_all sinks pkt w')"

fun close_sinks :: "'w sink list \<Rightarrow> 'w \<Rightarrow> 'w" where
  "close_sinks [] w = w"
| "close_sinks (sink # sinks) w = close_sinks sinks (snd (sk_Close sink w))"

definition closeAll :: "'w pipeline \<Rightarrow> 'w \<Rightarrow> 'w" where
  "closeAll p w = close_sinks (pl_Sinks p) (snd (sr_Close (pl_Source p) w))"

text \<open>One packet: the body of the loop of \<^verbatim>\<open>Run\<close> after a read.\<close>

definition handle_packet :: "'w pipeline \<Rightarrow> packet \<Rightarrow> 'w \<Rightarrow> panic + 'w" where
  "handle_packet p pkt w =
     bind_panic (process_all (pl_Processors p) pkt w) (\<lambda>(continueProcessing, pkt', w').
       if \<not> continueProcessing then Inr w' else write_all (pl_Sinks p) pkt' w')"

definition stops_run :: "go_error \<Rightarrow> bool" where
  "stops_run err \<longleftrightarrow> err = ErrEOF \<or> errors_is err ErrCanceled \<or> errors_is err ErrDeadlineExceeded"

text \<open>
  \<^verbatim>\<open>Run\<close>: \<open>None\<close> when it does not return, \<open>Inl\<close> when a stage panics; otherwise the error
  it returns (it has none to return) and the state after the deferred \<^verbatim>\<open>closeAll\<close>.
\<close>

partial_function (option) Run ::
    "'w pipeline \<Rightarrow> 'w \<Rightarrow> (panic + (go_error option \<times> 'w)) option" where
  "Run p w =
     Option.bind (sr_Read (pl_Source p) w) (\<lambda>(pkt, err, w').
       case err of
         Some e \<Rightarrow> if stops_run e then Some (Inr (None, closeAll p w')) else Run p w'
       | None \<Rightarrow>
           (case pkt of
              None \<Rightarrow> Run p w'
            | Some q \<Rightarrow>
                (case handle_packet p q w' of
                   Inl panic \<Rightarrow> Some (Inl panic)
                 | Inr w'' \<Rightarrow> Run p w'')))"

section \<open>Contracts of the stages\<close>

text \<open>
  A processor is safe for a class of packets and a state invariant when it neither
  panics on them nor leaves them; a sink likewise.  The loops inherit it.
\<close>

locale safe_processor =
  fixes proc :: "'w processor" and good :: "packet \<Rightarrow> bool" and ok :: "'w \<Rightarrow> bool"
  assumes process_safe: "good p \<Longrightarrow> ok w \<Longrightarrow>
    \<exists>keep err p' w'. pr_Process proc p w = Inr (keep, err, p', w') \<and>
      pk_ArrivalInterface p' = pk_ArrivalInterface p \<and> good p' \<and> ok w'"
begin

lemma process_cons:
  assumes "good p" and "ok w"
    and "\<And>p w. good p \<Longrightarrow> ok w \<Longrightarrow> \<exists>c p' w'. process_all procs p w = Inr (c, p', w') \<and>
      pk_ArrivalInterface p' = pk_ArrivalInterface p \<and> good p' \<and> ok w'"
  shows "\<exists>c p' w'. process_all (proc # procs) p w = Inr (c, p', w') \<and>
    pk_ArrivalInterface p' = pk_ArrivalInterface p \<and> good p' \<and> ok w'"
  using process_safe [OF assms(1,2)] assms(3) by fastforce

end

locale safe_sink =
  fixes sink :: "'w sink" and good :: "packet \<Rightarrow> bool" and ok :: "'w \<Rightarrow> bool"
  assumes write_safe: "good p \<Longrightarrow> ok w \<Longrightarrow> \<exists>err w'. sk_Write sink p w = Inr (err, w') \<and> ok w'"
    and close_safe: "ok w \<Longrightarrow> ok (snd (sk_Close sink w))"

section \<open>Lemmas\<close>

lemma process_all_safe:
  "(\<And>proc. proc \<in> set procs \<Longrightarrow> safe_processor proc good ok) \<Longrightarrow> good p \<Longrightarrow> ok w \<Longrightarrow>
   \<exists>c p' w'. process_all procs p w = Inr (c, p', w') \<and>
     pk_ArrivalInterface p' = pk_ArrivalInterface p \<and> good p' \<and> ok w'"
proof (induction procs arbitrary: p w)
  case (Cons proc procs)
  have "safe_processor proc good ok" using Cons.prems(1) by simp
  then show ?case using Cons.prems(2,3)
  proof (rule safe_processor.process_cons)
    fix p w
    assume "good p" and "ok w"
    then show "\<exists>c p' w'. process_all procs p w = Inr (c, p', w') \<and>
        pk_ArrivalInterface p' = pk_ArrivalInterface p \<and> good p' \<and> ok w'"
      using Cons.prems(1) by (intro Cons.IH) simp_all
  qed
qed auto

lemma write_all_safe:
  "(\<And>sink. sink \<in> set sinks \<Longrightarrow> safe_sink sink good ok) \<Longrightarrow> good p \<Longrightarrow> ok w \<Longrightarrow>
   \<exists>w'. write_all sinks p w = Inr w' \<and> ok w'"
proof (induction sinks arbitrary: w)
  case (Cons sink sinks)
  have "safe_sink sink good ok" using Cons.prems(1) by simp
  from safe_sink.write_safe [OF this Cons.prems(2,3)] Cons show ?case by fastforce
qed simp

lemma handle_packet_safe:
  assumes "\<And>proc. proc \<in> set (pl_Processors pl) \<Longrightarrow> safe_processor proc good ok"
    and "\<And>sink. sink \<in> set (pl_Sinks pl) \<Longrightarrow> safe_sink sink good ok"
    and "good p" and "ok w"
  shows "\<exists>w'. handle_packet pl p w = Inr w' \<and> ok w'"
proof -
  from process_all_safe [of "pl_Processors pl" good ok, OF assms(1) assms(3,4)]
  obtain c p' w' where "process_all (pl_Processors pl) p w = Inr (c, p', w')"
    and "good p'" and "ok w'" by blast
  then show ?thesis
    using write_all_safe [of "pl_Sinks pl" good ok p' w', OF assms(2)]
    by (auto simp: handle_packet_def)
qed

lemma close_sinks_safe:
  "(\<And>sink. sink \<in> set sinks \<Longrightarrow> safe_sink sink good ok) \<Longrightarrow> ok w \<Longrightarrow> ok (close_sinks sinks w)"
proof (induction sinks arbitrary: w)
  case (Cons sink sinks)
  have "safe_sink sink good ok" using Cons.prems(1) by simp
  then have "ok (snd (sk_Close sink w))" using Cons.prems(2) by (rule safe_sink.close_safe)
  with Cons show ?case by simp
qed simp

lemma Run_step:
  "sr_Read (pl_Source p) w = Some (Some q, None, w') \<Longrightarrow> handle_packet p q w' = Inr w'' \<Longrightarrow>
     Run p w = Run p w''"
  "sr_Read (pl_Source p) w = Some (None, None, w') \<Longrightarrow> Run p w = Run p w'"
  "sr_Read (pl_Source p) w = Some (x, Some e, w') \<Longrightarrow> \<not> stops_run e \<Longrightarrow> Run p w = Run p w'"
  "sr_Read (pl_Source p) w = Some (x, Some e, w') \<Longrightarrow> stops_run e \<Longrightarrow>
     Run p w = Some (Inr (None, closeAll p w'))"
  "sr_Read (pl_Source p) w = Some (Some q, None, w') \<Longrightarrow> handle_packet p q w' = Inl panic \<Longrightarrow>
     Run p w = Some (Inl panic)"
  "sr_Read (pl_Source p) w = None \<Longrightarrow> Run p w = None"
  by (subst Run.simps, simp)+

section \<open>Runs that end\<close>

text \<open>
  When a pipeline returns: in a ready state its source returns an error that stops the
  run, or something else after which less is left to read, and the stages keep the state
  ready.
\<close>

locale ending_run =
  fixes pl :: "'w pipeline" and good :: "packet \<Rightarrow> bool"
    and ready :: "'w \<Rightarrow> bool" and left :: "'w \<Rightarrow> nat" and ended :: "'w \<Rightarrow> bool"
  assumes read_ready: "ready w \<Longrightarrow> \<exists>pkt err w'. sr_Read (pl_Source pl) w = Some (pkt, err, w') \<and>
      (case err of
         Some e \<Rightarrow> stops_run e \<and> ended w'
       | None \<Rightarrow> ready w' \<and> left w' < left w \<and> (\<forall>q. pkt = Some q \<longrightarrow> good q))"
    and handle_ready: "ready w \<Longrightarrow> good q \<Longrightarrow>
      \<exists>w'. handle_packet pl q w = Inr w' \<and> ready w' \<and> left w' = left w"
begin

lemma run_returns:
  "ready w \<Longrightarrow> \<exists>w'. ended w' \<and> Run pl w = Some (Inr (None, closeAll pl w'))"
proof (induction "left w" arbitrary: w rule: less_induct)
  case less
  from read_ready [OF less.prems] obtain pkt err w1 where
    r: "sr_Read (pl_Source pl) w = Some (pkt, err, w1)"
    and c: "case err of Some e \<Rightarrow> stops_run e \<and> ended w1
      | None \<Rightarrow> ready w1 \<and> left w1 < left w \<and> (\<forall>q. pkt = Some q \<longrightarrow> good q)" by blast
  show ?case
  proof (cases err)
    case (Some e)
    with r c show ?thesis by (auto simp: Run_step)
  next
    case None
    with c have w1: "ready w1" "left w1 < left w" by simp_all
    show ?thesis
    proof (cases pkt)
      case None
      with less.hyps [OF w1(2,1)] r \<open>err = None\<close> show ?thesis by (simp add: Run_step(2))
    next
      case (Some q)
      with c \<open>err = None\<close> have "good q" by simp
      from handle_ready [OF w1(1) this] obtain w2 where
        w2: "handle_packet pl q w1 = Inr w2" "ready w2" "left w2 = left w1" by blast
      with less.hyps [OF _ w2(2)] w1(2) r Some \<open>err = None\<close> show ?thesis
        by (simp add: Run_step(1))
    qed
  qed
qed

end

section \<open>Properties\<close>

text \<open>
  C30. A processor that drops a packet or fails stops it: the sinks are written to
  exactly when every processor keeps the packet without error, and a processor after
  the one that stopped it is not called.
\<close>

theorem process_all_stops_at_first_drop:
  assumes "process_all before pkt w = Inr (True, pkt1, w1)"
    and "pr_Process proc pkt1 w1 = Inr (keep, err, pkt2, w2)"
    and "keep = False \<or> err \<noteq> None" and "pl_Processors p = before @ proc # after"
  shows "handle_packet p pkt w = Inr w2"
proof -
  have "process_all (before @ proc # after) pkt w = Inr (False, pkt2, w2)"
    using assms(1)
  proof (induction "before" arbitrary: pkt w)
    case Nil
    with assms(2,3) show ?case by auto
  next
    case (Cons x xs)
    from Cons.prems obtain k e p' w' where x: "pr_Process x pkt w = Inr (k, e, p', w')"
      by (auto simp: bind_panic_Inr)
    with Cons.prems have "e = None \<and> k \<and> process_all xs p' w' = Inr (True, pkt1, w1)"
      by (auto split: if_splits)
    with Cons.IH [of p' w'] x show ?case by simp
  qed
  with assms(4) show ?thesis by (simp add: handle_packet_def)
qed

definition drop_all :: "nat processor" where
  "drop_all = \<lparr>pr_Process = (\<lambda>p w. Inr (False, None, p, Suc w)), pr_Name = ''drop''\<rparr>"

definition keep_all :: "nat processor" where
  "keep_all = \<lparr>pr_Process = (\<lambda>p w. Inr (True, None, p, w)), pr_Name = ''keep''\<rparr>"

theorem process_all_stops_at_first_drop_witness:
  "handle_packet \<lparr>pl_Source = \<lparr>sr_Read = (\<lambda>w. None), sr_Close = (\<lambda>w. (None, w)), sr_Name = ''s''\<rparr>,
      pl_Processors = [keep_all, drop_all, keep_all], pl_Sinks = []\<rparr>
     (example_packet ''eth0'' [10, 0, 0, 1]) 3 = Inr 4"
  by (rule process_all_stops_at_first_drop
      [where before = "[keep_all]" and proc = drop_all and after = "[keep_all]" and keep = False
        and err = None and ?pkt1.0 = "example_packet ''eth0'' [10, 0, 0, 1]"
        and ?pkt2.0 = "example_packet ''eth0'' [10, 0, 0, 1]" and ?w1.0 = 3])
    (simp_all add: keep_all_def drop_all_def)

text \<open>
  A packet that every processor keeps is written to every sink, in order, also
  when the sinks before fail.
\<close>

theorem write_all_reaches_every_sink:
  assumes "process_all (pl_Processors p) pkt w = Inr (True, pkt1, w1)"
    and "\<And>sink w. sink \<in> set (pl_Sinks p) \<Longrightarrow> sk_Write sink pkt1 w = Inr (err sink w, after sink w)"
  shows "handle_packet p pkt w = Inr (foldl (\<lambda>v sink. after sink v) w1 (pl_Sinks p))"
proof -
  have "write_all sinks pkt1 v = Inr (foldl (\<lambda>v sink. after sink v) v sinks)"
    if "set sinks \<subseteq> set (pl_Sinks p)" for sinks v
    using that by (induction sinks arbitrary: v) (auto simp: assms(2))
  with assms(1) show ?thesis by (simp add: handle_packet_def)
qed

definition log_sink :: "string \<Rightarrow> go_error option \<Rightarrow> string list sink" where
  "log_sink n e = \<lparr>sk_Write = (\<lambda>p w. Inr (e, w @ [n])), sk_Close = (\<lambda>w. (None, w @ [''close''])),
     sk_Name = n\<rparr>"

theorem write_all_reaches_every_sink_witness:
  "handle_packet \<lparr>pl_Source = \<lparr>sr_Read = (\<lambda>w. None), sr_Close = (\<lambda>w. (None, w)), sr_Name = ''s''\<rparr>,
      pl_Processors = [], pl_Sinks = [log_sink ''a'' (Some (Errorf ''down'')), log_sink ''b'' None]\<rparr>
     (example_packet ''eth0'' [10, 0, 0, 1]) [] = Inr [''a'', ''b'']"
  by (subst write_all_reaches_every_sink
      [where err = "\<lambda>s w. if sk_Name s = ''a'' then Some (Errorf ''down'') else None"
        and after = "\<lambda>s w. w @ [sk_Name s]" and ?pkt1.0 = "example_packet ''eth0'' [10, 0, 0, 1]"])
    (auto simp: log_sink_def)

text \<open>
  C31. \<^verbatim>\<open>Run\<close> returns without error exactly on an end of file that is not wrapped in another
  error, and on cancellation and an expired deadline, wrapped or not, and then closes the
  source and every sink once, in order; any other read error is skipped.
\<close>

theorem Run_on_read_error:
  assumes "sr_Read (pl_Source p) w = Some (pkt, Some e, w')"
  shows "Run p w = (if e = ErrEOF \<or> errors_is e ErrCanceled \<or> errors_is e ErrDeadlineExceeded
    then Some (Inr (None, foldl (\<lambda>w sink. snd (sk_Close sink w))
        (snd (sr_Close (pl_Source p) w')) (pl_Sinks p)))
    else Run p w')"
proof -
  have "close_sinks sinks v = foldl (\<lambda>w sink. snd (sk_Close sink w)) v sinks" for sinks and v :: 'a
    by (induction sinks arbitrary: v) simp_all
  with assms show ?thesis
    by (simp add: Run_step(3,4) stops_run_def closeAll_def)
qed

theorem Run_on_read_error_witness:
  "Run \<lparr>pl_Source = \<lparr>sr_Read = (\<lambda>w. Some (None, Some (Wrapf ''read: '' ErrCanceled), w)),
        sr_Close = (\<lambda>w. (None, w @ [''source''])), sr_Name = ''s''\<rparr>,
      pl_Processors = [], pl_Sinks = [log_sink ''a'' None, log_sink ''b'' None]\<rparr> [] =
   Some (Inr (None, [''source'', ''close'', ''close'']))"
proof -
  let ?src = "\<lparr>sr_Read = (\<lambda>w. Some (None, Some (Wrapf ''read: '' ErrCanceled), w)),
    sr_Close = (\<lambda>w. (None, w @ [''source''])), sr_Name = ''s''\<rparr> :: string list source"
  let ?p = "\<lparr>pl_Source = ?src, pl_Processors = [],
    pl_Sinks = [log_sink ''a'' None, log_sink ''b'' None]\<rparr>"
  have "sr_Read (pl_Source ?p) [] = Some (None, Some (Wrapf ''read: '' ErrCanceled), [])" by simp
  from Run_on_read_error [OF this] show ?thesis by (simp add: log_sink_def)
qed

end
