(* ===== verification/Stages.thy ===== *)
theory Stages
  imports Pipeline
begin

text \<open>
  The small stages of \<^verbatim>\<open>internal/proxy/stages\<close>: the filter for UDP over IPv4
  (\<^verbatim>\<open>filter.go\<close>), the rewriting of the destination address (\<^verbatim>\<open>transform.go\<close>) and the
  sink that writes a pcap file (\<^verbatim>\<open>pcap_sink.go\<close>).
\<close>

section \<open>FilterProcessor\<close>

definition FilterProcess :: "packet option \<Rightarrow> panic + (bool \<times> go_error option)" where
  "FilterProcess pkt = (case pkt of None \<Rightarrow> Inl NilDereference
     | Some p \<Rightarrow> (case pk_Packet p of None \<Rightarrow> Inl NilDereference
     | Some g \<Rightarrow>
         if gp_network g = None \<or> gp_network g \<noteq> Some LayerTypeIPv4 \<or>
            gp_transport g = None \<or> gp_transport g \<noteq> Some LayerTypeUDP
         then Inr (False, None)
         else if gp_error g \<noteq> None then Inr (False, None)
         else Inr (True, None)))"

definition FilterName :: "string \<Rightarrow> string" where
  "FilterName iname = ''FilterProcessor:'' @ iname"

definition filter_processor :: "string \<Rightarrow> 'w processor" where
  "filter_processor iname =
     \<lparr>pr_Process = (\<lambda>p w. bind_panic (FilterProcess (Some p)) (\<lambda>(keep, err). Inr (keep, err, p, w))),
      pr_Name = FilterName iname\<rparr>"

section \<open>TransformProcessor\<close>

text \<open>
  The layers are changed in place: on every path after the assignment to \<^verbatim>\<open>DstIP\<close> the
  packet's own IPv4 layer has the new address, and after the network layer has been set
  its UDP layer refers to that layer.
\<close>

definition set_layer :: "layer_type \<Rightarrow> layer \<Rightarrow> packet \<Rightarrow> packet" where
  "set_layer t l p = p\<lparr>pk_Packet :=
     map_option (\<lambda>g. g\<lparr>gp_layer := (gp_layer g)(t \<mapsto> l)\<rparr>) (pk_Packet p)\<rparr>"

definition fix_all :: serialize_options where
  "fix_all = \<lparr>so_FixLengths = True, so_ComputeChecksums = True\<rparr>"

definition TransformProcess :: "gopacket_lib \<Rightarrow> ip \<Rightarrow> packet option \<Rightarrow>
    panic + (bool \<times> go_error option \<times> packet)" where
  "TransformProcess lib dst pkt = (case pkt of None \<Rightarrow> Inl NilDereference
     | Some p \<Rightarrow> (case pk_Packet p of None \<Rightarrow> Inl NilDereference
     | Some g \<Rightarrow> (case gp_layer g LayerTypeIPv4 of None \<Rightarrow> Inr (False, None, p)
     | Some ipLayer \<Rightarrow> (case as_ipv4 ipLayer of None \<Rightarrow> Inl BadTypeAssertion
     | Some ipv4 \<Rightarrow> (case gp_layer g LayerTypeUDP of None \<Rightarrow> Inr (False, None, p)
     | Some udpLayer \<Rightarrow> (case as_udp udpLayer of None \<Rightarrow> Inl BadTypeAssertion
     | Some udp \<Rightarrow>
         let ipv4' = ipv4\<lparr>ip4_DstIP := dst\<rparr>;
             p1 = set_layer LayerTypeIPv4 (L_IPv4 ipv4') p in
         (case gl_set_network lib udp ipv4' of
            Inl e \<Rightarrow> Inr (False, Some (Wrapf ''failed to set network layer for checksum: '' e), p1)
          | Inr udp' \<Rightarrow>
              let p2 = set_layer LayerTypeUDP (L_UDP udp') p1 in
              (case gp_application g of None \<Rightarrow> Inr (False, None, p2)
               | Some payload \<Rightarrow>
                   (case gl_serialize lib fix_all [S_IPv4 ipv4', S_UDP udp', S_Payload payload] of
                      Inl e \<Rightarrow> Inr (False, Some (Wrapf ''failed to serialize layers: '' e), p2)
                    | Inr raw \<Rightarrow>
                        let p3 = p2\<lparr>pk_Raw := raw\<rparr>;
                            newPacket = gl_new_packet lib raw LayerTypeIPv4 in
                        (case gp_error newPacket of
                           Some e \<Rightarrow>
                             Inr (False, Some (Wrapf ''failed to re-decode modified packet: '' e), p3)
                         | None \<Rightarrow> Inr (True, None, p3\<lparr>pk_Packet := Some newPacket\<rparr>)))))))))))"

definition TransformName :: "ip \<Rightarrow> string" where
  "TransformName dst = ''TransformProcessor:'' @ ip_string dst"

definition transform_processor :: "gopacket_lib \<Rightarrow> ip \<Rightarrow> 'w processor" where
  "transform_processor lib dst =
     \<lparr>pr_Process = (\<lambda>p w. bind_panic (TransformProcess lib dst (Some p))
        (\<lambda>(keep, err, p'). Inr (keep, err, p', w))),
      pr_Name = TransformName dst\<rparr>"

section \<open>PcapFileSink\<close>

text \<open>
  The writer of pcapgo and the operating system's file are parameters:
  \<open>write_packet\<close> is \<^verbatim>\<open>Writer.WritePacket\<close> and \<open>close_file\<close> is \<^verbatim>\<open>File.Close\<close>, over the
  state of the files.
\<close>

record pcap_file_sink =
  ps_Writer :: bool              \<comment> \<open>the writer is not nil\<close>
  ps_File :: "string option"     \<comment> \<open>the name of the file, when it is not nil\<close>

definition PcapFileWrite :: "(capture_info \<Rightarrow> byte list \<Rightarrow> 'f \<Rightarrow> go_error option \<times> 'f) \<Rightarrow>
    pcap_file_sink \<Rightarrow> packet option \<Rightarrow> 'f \<Rightarrow> panic + (go_error option \<times> 'f)" where
  "PcapFileWrite write_packet s pkt files =
     (if \<not> ps_Writer s then Inr (None, files)
      else (case pkt of None \<Rightarrow> Inl NilDereference
            | Some p \<Rightarrow> Inr (write_packet (pk_Metadata p) (pk_Raw p) files)))"

definition PcapFileClose :: "('f \<Rightarrow> go_error option \<times> 'f) \<Rightarrow> pcap_file_sink \<Rightarrow> 'f \<Rightarrow>
    go_error option \<times> 'f" where
  "PcapFileClose close_file s files =
     (if ps_File s \<noteq> None then close_file files else (None, files))"

definition PcapFileName :: "pcap_file_sink \<Rightarrow> string" where
  "PcapFileName s = (case ps_File s of
       Some name \<Rightarrow> ''PcapFileSink:'' @ name
     | None \<Rightarrow> ''PcapFileSink:unknown'')"

section \<open>Lemmas\<close>

text \<open>A decoded packet whose layers have the types they are found under.\<close>

definition decoded :: "packet \<Rightarrow> bool" where
  "decoded p \<longleftrightarrow> (\<exists>g. pk_Packet p = Some g \<and> typed_layers g)"

definition decodes_typed :: "gopacket_lib \<Rightarrow> bool" where
  "decodes_typed lib \<longleftrightarrow> (\<forall>raw t. typed_layers (gl_new_packet lib raw t))"

lemma typed_layers_ipv4: "typed_layers g \<Longrightarrow> gp_layer g LayerTypeIPv4 = Some l \<Longrightarrow> \<exists>v. l = L_IPv4 v"
  by (auto simp: typed_layers_def)

lemma typed_layers_udp: "typed_layers g \<Longrightarrow> gp_layer g LayerTypeUDP = Some l \<Longrightarrow> \<exists>v. l = L_UDP v"
  by (auto simp: typed_layers_def)

lemma decoded_set_layer:
  "decoded p \<Longrightarrow> decoded (set_layer LayerTypeIPv4 (L_IPv4 v) p)"
  "decoded p \<Longrightarrow> decoded (set_layer LayerTypeUDP (L_UDP u) p)"
  by (auto simp: decoded_def set_layer_def typed_layers_def)

lemma decoded_Raw [simp]: "decoded (p\<lparr>pk_Raw := raw\<rparr>) = decoded p"
  by (simp add: decoded_def)

lemma set_layer_simps [simp]:
  "pk_ArrivalInterface (set_layer t l p) = pk_ArrivalInterface p"
  "pk_Raw (set_layer t l p) = pk_Raw p"
  "pk_Metadata (set_layer t l p) = pk_Metadata p"
  by (simp_all add: set_layer_def)

lemma FilterProcess_eq:
  "pk_Packet p = Some g \<Longrightarrow> FilterProcess (Some p) = Inr (gp_network g = Some LayerTypeIPv4 \<and>
     gp_transport g = Some LayerTypeUDP \<and> gp_error g = None, None)"
  by (auto simp: FilterProcess_def)

interpretation filter_stage: safe_processor "filter_processor iname" decoded "\<lambda>w. True" for iname
proof unfold_locales
  fix p and w :: 'a
  assume "decoded p"
  then obtain g where g: "pk_Packet p = Some g" by (auto simp: decoded_def)
  with \<open>decoded p\<close>
  show "\<exists>keep err p' w'. pr_Process (filter_processor iname) p w = Inr (keep, err, p', w') \<and>
      pk_ArrivalInterface p' = pk_ArrivalInterface p \<and> decoded p' \<and> True"
    by (auto simp: filter_processor_def FilterProcess_eq [OF g])
qed

lemma TransformProcess_safe:
  assumes "decodes_typed lib" and "decoded p"
  shows "\<exists>keep err p'. TransformProcess lib dst (Some p) = Inr (keep, err, p') \<and>
    pk_ArrivalInterface p' = pk_ArrivalInterface p \<and> decoded p'"
proof -
  from assms(2) obtain g where g: "pk_Packet p = Some g" "typed_layers g" by (auto simp: decoded_def)
  have d: "decoded (q\<lparr>pk_Packet := Some (gl_new_packet lib raw t)\<rparr>)" for q raw t
    using assms(1) by (simp add: decoded_def decodes_typed_def)
  show ?thesis
    using typed_layers_ipv4 [OF g(2)] typed_layers_udp [OF g(2)] assms(2)
    by (auto simp: TransformProcess_def g(1) Let_def d decoded_set_layer
        split: option.splits sum.splits)
qed

lemma transform_stage:
  "decodes_typed lib \<Longrightarrow> safe_processor (transform_processor lib dst) decoded (\<lambda>w. True)"
  using TransformProcess_safe [of lib _ dst]
  by unfold_locales (fastforce simp: transform_processor_def bind_panic_def)

section \<open>Properties\<close>

text \<open>
  The filter keeps exactly the packets that decoded, without error, to UDP over
  IPv4; it never fails, and panics only where there is no decoded packet.
\<close>

theorem FilterProcess_keeps_udp_ipv4:
  "FilterProcess (Some p) = (case pk_Packet p of
      None \<Rightarrow> Inl NilDereference
    | Some g \<Rightarrow> Inr (gp_network g = Some LayerTypeIPv4 \<and> gp_transport g = Some LayerTypeUDP \<and>
        gp_error g = None, None))"
  by (auto simp: FilterProcess_def split: option.splits)

text \<open>
  A transformed packet that passes carries, as its raw bytes, the serialisation of
  its own IPv4 header with nothing but the destination replaced, its own UDP header
  (bound to that IPv4 header for the checksum) and its own payload; the packet passed
  on is the decoding of these bytes, which decoded without error.
\<close>

theorem TransformProcess_keeps:
  assumes "TransformProcess lib dst (Some p) = Inr (True, err, p')"
  shows "err = None \<and> (\<exists>g v u u' payload. pk_Packet p = Some g \<and>
      gp_layer g LayerTypeIPv4 = Some (L_IPv4 v) \<and> gp_layer g LayerTypeUDP = Some (L_UDP u) \<and>
      gp_application g = Some payload \<and> gl_set_network lib u (v\<lparr>ip4_DstIP := dst\<rparr>) = Inr u' \<and>
      gl_serialize lib fix_all [S_IPv4 (v\<lparr>ip4_DstIP := dst\<rparr>), S_UDP u', S_Payload payload] =
        Inr (pk_Raw p') \<and>
      pk_Packet p' = Some (gl_new_packet lib (pk_Raw p') LayerTypeIPv4) \<and>
      gp_error (gl_new_packet lib (pk_Raw p') LayerTypeIPv4) = None \<and>
      pk_ArrivalInterface p' = pk_ArrivalInterface p \<and> pk_Metadata p' = pk_Metadata p)"
  using assms
  by (auto simp: TransformProcess_def Let_def split: option.splits sum.splits)

text \<open>A library whose serialiser writes only the payload, to evaluate on.\<close>

definition toy_lib :: gopacket_lib where
  "toy_lib = \<lparr>gl_new_packet = (\<lambda>raw t. (example_gopacket [10, 0, 0, 1] [10, 0, 0, 2] [])\<lparr>gp_data := raw\<rparr>),
     gl_serialize = (\<lambda>opts ls. Inr (concat (map (\<lambda>l. case l of S_Payload bs \<Rightarrow> bs
        | S_IPv4 v \<Rightarrow> ip4_SrcIP v @ ip4_DstIP v | S_Ethernet e \<Rightarrow> eth_DstMAC e @ eth_SrcMAC e
        | _ \<Rightarrow> []) ls))),
     gl_set_network = (\<lambda>u v. Inr (u\<lparr>udp_network := Some v\<rparr>)),
     gl_link_type_string = (\<lambda>_. ''link''), gl_ether_type_string = (\<lambda>_. ''IPv4''),
     gl_protocol_string = (\<lambda>_. ''UDP'')\<rparr>"

theorem TransformProcess_keeps_witness:
  "\<exists>p'. TransformProcess toy_lib [10, 9, 9, 9] (Some (example_packet ''eth0'' [10, 0, 0, 1])) =
     Inr (True, None, p') \<and> pk_Raw p' = [10, 0, 0, 1, 10, 9, 9, 9, 1, 2, 3, 4]"
proof -
  obtain p' where p': "TransformProcess toy_lib [10, 9, 9, 9] (Some (example_packet ''eth0'' [10, 0, 0, 1])) =
     Inr (True, None, p')"
    by (simp add: TransformProcess_def toy_lib_def example_defs Let_def)
  from TransformProcess_keeps [OF this] have "pk_Raw p' = [10, 0, 0, 1, 10, 9, 9, 9, 1, 2, 3, 4]"
    by (auto simp: toy_lib_def example_defs)
  with p' show ?thesis by blast
qed

end
