(* ===== verification/Rewrite.thy ===== *)
theory Rewrite
  imports Stages
begin

text \<open>
  \<^verbatim>\<open>internal/proxy/rewrite/rewrite.go\<close>: the packet that goes out on an interface, made
  from one that came in on another: new link layer, new destination, same sender,
  ports and payload.
\<close>

section \<open>Operations\<close>

definition broadcastMAC :: mac where
  "broadcastMAC = [0xff, 0xff, 0xff, 0xff, 0xff, 0xff]"

record rewrite_options =
  ro_TargetIP :: ip
  ro_TargetMAC :: mac
  ro_SourceMAC :: mac
  ro_EgressLinkType :: link_type
  ro_AllowBroadcastDstMAC :: bool
  ro_ForceBroadcastDestMAC :: bool
  ro_ArrivalInterface :: string
  ro_OutputArrivalInterface :: string

definition packetFromLinkType :: "gopacket_lib \<Rightarrow> byte list \<Rightarrow> link_type \<Rightarrow> gopacket" where
  "packetFromLinkType lib raw linkType =
     (if linkType = LinkTypeNull \<or> linkType = LinkTypeLoop then gl_new_packet lib raw LayerTypeLoopback
      else if linkType = LinkTypeEthernet then gl_new_packet lib raw LayerTypeEthernet
      else if linkType = LinkTypeRaw \<or> linkType = LinkTypeRawOpenBSD \<or> linkType = LinkTypeRawOthers
        then gl_new_packet lib raw LayerTypeIPv4
      else gl_new_packet lib raw LayerTypePayload)"

text \<open>The switch on the egress link type: the layers below IP.\<close>

definition link_layers :: "gopacket_lib \<Rightarrow> rewrite_options \<Rightarrow> go_error + ser_layer list" where
  "link_layers lib opts =
     (if ro_EgressLinkType opts = LinkTypeEthernet then
        if \<not> ro_ForceBroadcastDestMAC opts \<and> ro_TargetMAC opts = [] \<and> \<not> ro_AllowBroadcastDstMAC opts
        then Inl (Errorf ''missing destination MAC for non-broadcast interface'')
        else
          let dstMAC = (if ro_ForceBroadcastDestMAC opts then broadcastMAC
                        else if ro_TargetMAC opts = [] then broadcastMAC
                        else ro_TargetMAC opts) in
          if ro_SourceMAC opts = [] then Inl (Errorf ''missing source MAC for ethernet egress'')
          else Inr [S_Ethernet \<lparr>eth_SrcMAC = ro_SourceMAC opts, eth_DstMAC = dstMAC,
                      eth_EthernetType = EthernetTypeIPv4\<rparr>]
      else if ro_EgressLinkType opts = LinkTypeNull \<or> ro_EgressLinkType opts = LinkTypeLoop
        then Inr [S_Loopback]
      else if ro_EgressLinkType opts = LinkTypeRaw \<or> ro_EgressLinkType opts = LinkTypeRawOpenBSD \<or>
              ro_EgressLinkType opts = LinkTypeRawOthers then Inr []
      else Inl (Errorf (''unsupported egress link type: '' @
                  gl_link_type_string lib (ro_EgressLinkType opts))))"

definition egress_ipv4 :: "ipv4_layer \<Rightarrow> rewrite_options \<Rightarrow> ipv4_layer" where
  "egress_ipv4 ipv4 opts =
     \<lparr>ip4_Version = 4, ip4_IHL = 5, ip4_TOS = 0, ip4_Length = 0, ip4_Id = ip4_Id ipv4,
      ip4_Flags = ip4_Flags ipv4, ip4_FragOffset = ip4_FragOffset ipv4, ip4_TTL = ip4_TTL ipv4,
      ip4_Protocol = IPProtocolUDP, ip4_Checksum = 0, ip4_SrcIP = to4 (ip4_SrcIP ipv4),
      ip4_DstIP = to4 (ro_TargetIP opts), ip4_Options = []\<rparr>"

definition egress_udp :: "udp_layer \<Rightarrow> udp_layer" where
  "egress_udp udp = \<lparr>udp_SrcPort = udp_SrcPort udp, udp_DstPort = udp_DstPort udp, udp_Length = 0,
     udp_Payload = [], udp_network = None\<rparr>"

definition egress_payload :: "gopacket \<Rightarrow> udp_layer \<Rightarrow> byte list" where
  "egress_payload g udp =
     (if udp_Payload udp = [] then
        (case gp_application g of Some app \<Rightarrow> app | None \<Rightarrow> udp_Payload udp)
      else udp_Payload udp)"

definition PacketForEgress ::
    "gopacket_lib \<Rightarrow> packet option \<Rightarrow> rewrite_options \<Rightarrow> go_error + packet" where
  "PacketForEgress lib pkt opts = (case pkt of None \<Rightarrow> Inl (Errorf ''packet is nil'')
     | Some p \<Rightarrow> (case pk_Packet p of None \<Rightarrow> Inl (Errorf ''packet is nil'')
     | Some g \<Rightarrow> (case gp_layer g LayerTypeIPv4 of
         None \<Rightarrow> Inl (Errorf ''packet missing IPv4 layer'')
     | Some ipLayer \<Rightarrow> (case as_ipv4 ipLayer of
         None \<Rightarrow> Inl (Errorf ''packet IPv4 layer decode error'')
     | Some ipv4 \<Rightarrow> (case gp_layer g LayerTypeUDP of
         None \<Rightarrow> Inl (Errorf ''packet missing UDP layer'')
     | Some udpLayer \<Rightarrow> (case as_udp udpLayer of
         None \<Rightarrow> Inl (Errorf ''packet UDP layer decode error'')
     | Some udp \<Rightarrow>
         let payload = egress_payload g udp; newIP4 = egress_ipv4 ipv4 opts in
         (case gl_set_network lib (egress_udp udp) newIP4 of
            Inl e \<Rightarrow> Inl (Wrapf ''set network layer for checksum: '' e)
          | Inr newUDP \<Rightarrow>
              (case link_layers lib opts of
                 Inl e \<Rightarrow> Inl e
               | Inr layersToSerialize \<Rightarrow>
                   (case gl_serialize lib fix_all
                       (layersToSerialize @ [S_IPv4 newIP4, S_UDP newUDP, S_Payload payload]) of
                      Inl e \<Rightarrow> Inl (Wrapf ''serialize rewritten packet: '' e)
                    | Inr raw \<Rightarrow>
                        let arrivalIf = (if ro_OutputArrivalInterface opts \<noteq> ''''
                          then ro_OutputArrivalInterface opts else pk_ArrivalInterface p) in
                        Inr \<lparr>pk_Raw = raw, pk_Metadata = pk_Metadata p,
                          pk_Packet = Some (packetFromLinkType lib raw (ro_EgressLinkType opts)),
                          pk_ArrivalInterface = arrivalIf\<rparr>)))))))))"

section \<open>Lemmas\<close>

definition supported_link_type :: "link_type \<Rightarrow> bool" where
  "supported_link_type lt \<longleftrightarrow> lt \<in> {LinkTypeNull, LinkTypeEthernet, LinkTypeRaw, LinkTypeLoop,
     LinkTypeRawOpenBSD, LinkTypeRawOthers}"

lemma link_types_distinct [simp]:
  "LinkTypeEthernet \<noteq> LinkTypeNull" "LinkTypeEthernet \<noteq> LinkTypeLoop" "LinkTypeEthernet \<noteq> LinkTypeRaw"
  "LinkTypeEthernet \<noteq> LinkTypeRawOpenBSD" "LinkTypeEthernet \<noteq> LinkTypeRawOthers"
  "LinkTypeNull \<noteq> LinkTypeEthernet" "LinkTypeLoop \<noteq> LinkTypeEthernet" "LinkTypeRaw \<noteq> LinkTypeEthernet"
  "LinkTypeRawOpenBSD \<noteq> LinkTypeEthernet" "LinkTypeRawOthers \<noteq> LinkTypeEthernet"
  "LinkTypeRaw \<noteq> LinkTypeNull" "LinkTypeRaw \<noteq> LinkTypeLoop"
  "LinkTypeRawOpenBSD \<noteq> LinkTypeNull" "LinkTypeRawOpenBSD \<noteq> LinkTypeLoop"
  "LinkTypeRawOthers \<noteq> LinkTypeNull" "LinkTypeRawOthers \<noteq> LinkTypeLoop"
  by (simp_all add: link_type_defs)

text \<open>When the link layer of an interface can be built.\<close>

definition can_address :: "rewrite_options \<Rightarrow> bool" where
  "can_address opts \<longleftrightarrow> supported_link_type (ro_EgressLinkType opts) \<and>
     (ro_EgressLinkType opts = LinkTypeEthernet \<longrightarrow> ro_SourceMAC opts \<noteq> [] \<and>
        (ro_ForceBroadcastDestMAC opts \<or> ro_TargetMAC opts \<noteq> [] \<or> ro_AllowBroadcastDstMAC opts))"

lemma link_layers_ok: "(\<exists>ls. link_layers lib opts = Inr ls) \<longleftrightarrow> can_address opts"
  by (auto simp: link_layers_def can_address_def supported_link_type_def Let_def)

definition egress_mac :: "rewrite_options \<Rightarrow> mac" where
  "egress_mac opts = (if ro_ForceBroadcastDestMAC opts \<or> ro_TargetMAC opts = []
     then broadcastMAC else ro_TargetMAC opts)"

lemma link_layers_Inr:
  "link_layers lib opts = Inr ls \<Longrightarrow>
     ls = (if ro_EgressLinkType opts = LinkTypeEthernet then
             [S_Ethernet \<lparr>eth_SrcMAC = ro_SourceMAC opts, eth_DstMAC = egress_mac opts,
                eth_EthernetType = EthernetTypeIPv4\<rparr>]
           else if ro_EgressLinkType opts \<in> {LinkTypeNull, LinkTypeLoop} then [S_Loopback] else [])"
  by (auto simp: link_layers_def egress_mac_def Let_def split: if_splits)

lemma packetFromLinkType_supported:
  "link_layers lib opts = Inr ls \<Longrightarrow> packetFromLinkType lib raw (ro_EgressLinkType opts) = gl_new_packet lib raw
     (if ro_EgressLinkType opts = LinkTypeEthernet then LayerTypeEthernet
      else if ro_EgressLinkType opts \<in> {LinkTypeNull, LinkTypeLoop} then LayerTypeLoopback
      else LayerTypeIPv4)"
  using link_layers_ok [of lib opts]
  by (auto simp: packetFromLinkType_def can_address_def supported_link_type_def)

lemma packet_layers_Some:
  assumes "packet_ipv4 p = Some v" and "packet_udp p = Some u"
  shows "\<exists>g. pk_Packet p = Some g \<and> gp_layer g LayerTypeIPv4 = Some (L_IPv4 v) \<and>
    gp_layer g LayerTypeUDP = Some (L_UDP u)"
  using assms by (auto simp: packet_ipv4_Some packet_udp_Some)

lemma PacketForEgress_Inr:
  "PacketForEgress lib (Some p) opts = Inr q \<longleftrightarrow>
     (\<exists>g v u u' ls. pk_Packet p = Some g \<and> packet_ipv4 p = Some v \<and> packet_udp p = Some u \<and>
        gl_set_network lib (egress_udp u) (egress_ipv4 v opts) = Inr u' \<and>
        link_layers lib opts = Inr ls \<and>
        gl_serialize lib fix_all (ls @ [S_IPv4 (egress_ipv4 v opts), S_UDP u',
          S_Payload (egress_payload g u)]) = Inr (pk_Raw q) \<and>
        pk_Metadata q = pk_Metadata p \<and>
        pk_Packet q = Some (packetFromLinkType lib (pk_Raw q) (ro_EgressLinkType opts)) \<and>
        pk_ArrivalInterface q = (if ro_OutputArrivalInterface opts \<noteq> ''''
          then ro_OutputArrivalInterface opts else pk_ArrivalInterface p))"
proof -
  obtain raw meta pkt arr where q: "q = \<lparr>pk_Raw = raw, pk_Metadata = meta, pk_Packet = pkt,
      pk_ArrivalInterface = arr\<rparr>" by (cases q) auto
  show ?thesis
    unfolding q
    by (auto simp: PacketForEgress_def packet_ipv4_Some packet_udp_Some Let_def
        split: option.splits sum.splits)
qed

lemma PacketForEgress_decoded:
  "decodes_typed lib \<Longrightarrow> PacketForEgress lib pkt opts = Inr q \<Longrightarrow> decoded q"
  by (cases pkt)
    (auto simp: PacketForEgress_def packetFromLinkType_def decoded_def decodes_typed_def Let_def
      split: option.splits sum.splits)




section \<open>Properties\<close>

text \<open>
  C9. A packet rewritten for an interface is the serialisation of the link layer of that
  interface, an IPv4 header of version 4 and five words with the target as destination and
  the sender, identification, fragment fields and TTL of the original (its options and type
  of service are dropped), a UDP header with the original ports bound to that IPv4 header,
  and the original payload (that of the application layer where the UDP layer has none);
  lengths and checksums are left to the serialiser.  Its destination MAC is broadcast exactly
  when that is forced or the target has none.  The result keeps the capture metadata, carries
  the name of the interface, and is decoded again from the layer it starts with.
\<close>

theorem PacketForEgress_frame:
  assumes "PacketForEgress lib (Some p) opts = Inr q"
    and "packet_ipv4 p = Some v" and "packet_udp p = Some u"
  shows "\<exists>g v' u' l2. pk_Packet p = Some g \<and>
    gl_serialize lib fix_all (l2 @ [S_IPv4 v', S_UDP u', S_Payload
      (if udp_Payload u \<noteq> [] then udp_Payload u
       else case gp_application g of None \<Rightarrow> [] | Some payload \<Rightarrow> payload)]) = Inr (pk_Raw q) \<and>
    ip4_Version v' = 4 \<and> ip4_IHL v' = 5 \<and> ip4_Length v' = 0 \<and> ip4_Checksum v' = 0 \<and>
    ip4_SrcIP v' = to4 (ip4_SrcIP v) \<and> ip4_DstIP v' = to4 (ro_TargetIP opts) \<and>
    ip4_TTL v' = ip4_TTL v \<and> ip4_Id v' = ip4_Id v \<and> ip4_Flags v' = ip4_Flags v \<and>
    ip4_FragOffset v' = ip4_FragOffset v \<and> ip4_Protocol v' = IPProtocolUDP \<and>
    ip4_Options v' = [] \<and> ip4_TOS v' = 0 \<and>
    gl_set_network lib \<lparr>udp_SrcPort = udp_SrcPort u, udp_DstPort = udp_DstPort u, udp_Length = 0,
      udp_Payload = [], udp_network = None\<rparr> v' = Inr u' \<and>
    l2 = (if ro_EgressLinkType opts = LinkTypeEthernet then
        [S_Ethernet \<lparr>eth_SrcMAC = ro_SourceMAC opts,
           eth_DstMAC = (if ro_ForceBroadcastDestMAC opts \<or> ro_TargetMAC opts = []
             then broadcastMAC else ro_TargetMAC opts), eth_EthernetType = EthernetTypeIPv4\<rparr>]
      else if ro_EgressLinkType opts \<in> {LinkTypeNull, LinkTypeLoop} then [S_Loopback] else []) \<and>
    pk_Metadata q = pk_Metadata p \<and>
    pk_Packet q = Some (gl_new_packet lib (pk_Raw q)
      (if ro_EgressLinkType opts = LinkTypeEthernet then LayerTypeEthernet
       else if ro_EgressLinkType opts \<in> {LinkTypeNull, LinkTypeLoop} then LayerTypeLoopback
       else LayerTypeIPv4)) \<and>
    pk_ArrivalInterface q = (if ro_OutputArrivalInterface opts = '''' then pk_ArrivalInterface p
      else ro_OutputArrivalInterface opts)"
proof -
  from assms have more: "pk_Metadata q = pk_Metadata p" "pk_ArrivalInterface q =
      (if ro_OutputArrivalInterface opts = '''' then pk_ArrivalInterface p
       else ro_OutputArrivalInterface opts)" by (auto simp: PacketForEgress_Inr)
  from assms obtain g u' ls where g: "pk_Packet p = Some g"
    and pkt: "pk_Packet q = Some (packetFromLinkType lib (pk_Raw q) (ro_EgressLinkType opts))"
    and u': "gl_set_network lib (egress_udp u) (egress_ipv4 v opts) = Inr u'"
    and ls: "link_layers lib opts = Inr ls"
    and raw: "gl_serialize lib fix_all (ls @ [S_IPv4 (egress_ipv4 v opts), S_UDP u',
      S_Payload (egress_payload g u)]) = Inr (pk_Raw q)"
    by (auto simp: PacketForEgress_Inr)
  have data: "egress_payload g u = (if udp_Payload u \<noteq> [] then udp_Payload u
      else case gp_application g of None \<Rightarrow> [] | Some payload \<Rightarrow> payload)"
    by (simp add: egress_payload_def split: option.split)
  note pkt = pkt [unfolded packetFromLinkType_supported [OF ls]]
  show ?thesis
    by (rule exI [of _ g], rule exI [of _ "egress_ipv4 v opts"], rule exI [of _ u'],
        rule exI [of _ ls])
      (use g u' raw [unfolded data] more pkt link_layers_Inr [OF ls] in
        \<open>simp add: egress_ipv4_def egress_udp_def egress_mac_def\<close>)
qed

definition example_options :: "mac \<Rightarrow> rewrite_options" where
  "example_options tmac = \<lparr>ro_TargetIP = IPv4 10 0 1 2, ro_TargetMAC = tmac,
     ro_SourceMAC = [2, 0, 0, 0, 1, 1], ro_EgressLinkType = LinkTypeEthernet,
     ro_AllowBroadcastDstMAC = False, ro_ForceBroadcastDestMAC = False,
     ro_ArrivalInterface = '''', ro_OutputArrivalInterface = ''eth1''\<rparr>"

lemma example_layers [simp]:
  "packet_ipv4 (example_packet i src) = Some (example_ipv4 src [192, 168, 1, 255])"
  "packet_udp (example_packet i src) = Some example_udp"
  by (simp_all add: packet_ipv4_Some packet_udp_Some example_packet_def example_gopacket_def)

theorem PacketForEgress_frame_witness:
  "\<exists>q. PacketForEgress toy_lib (Some (example_packet ''eth0'' [10, 0, 0, 1]))
        (example_options [2, 0, 0, 0, 1, 2]) = Inr q \<and>
     pk_Raw q = [2, 0, 0, 0, 1, 2, 2, 0, 0, 0, 1, 1, 10, 0, 0, 1, 10, 0, 1, 2, 1, 2, 3, 4]"
proof -
  obtain q where q: "PacketForEgress toy_lib (Some (example_packet ''eth0'' [10, 0, 0, 1]))
        (example_options [2, 0, 0, 0, 1, 2]) = Inr q"
    by (simp add: PacketForEgress_def toy_lib_def example_defs example_options_def link_layers_def
        egress_payload_def Let_def)
  from PacketForEgress_frame [OF q example_layers]
  have "pk_Raw q = [2, 0, 0, 0, 1, 2, 2, 0, 0, 0, 1, 1, 10, 0, 0, 1, 10, 0, 1, 2, 1, 2, 3, 4]"
    by (auto simp: toy_lib_def example_defs example_options_def egress_payload_def)
  with q show ?thesis by blast
qed





end
