(* ===== verification/DeviceManager.thy ===== *)
theory DeviceManager
  imports Rewrite Config
begin

text \<open>
  \<^verbatim>\<open>internal/proxy/device_manager.go\<close>: the list of interfaces and the cache of pcap handles
  by interface and direction.  libpcap is a parameter: a call that opens a handle takes the
  answers of the library (\<open>pcap_answers\<close>), and a record of the library's state says which
  handles and which inactive handles are open and what filter they have.  Handles are
  numbers.
\<close>

section \<open>State\<close>

record pcap_interface =
  if_Name :: string
  if_Addresses :: "interface_address list"

record device_manager =
  dm_interfaces :: "string \<rightharpoonup> pcap_interface"
  dm_handles :: "string \<rightharpoonup> nat"

text \<open>How a handle was set up before and after its activation.\<close>

record handle_config =
  hc_iname :: string
  hc_promisc :: bool
  hc_timeout :: "duration option"     \<comment> \<open>\<open>None\<close> when \<^verbatim>\<open>SetTimeout\<close> is not called\<close>
  hc_snaplen :: int
  hc_inbound :: bool                  \<comment> \<open>whether only incoming packets are captured\<close>
  hc_LinkType :: link_type

record pcap_state =
  pc_live :: "nat list"               \<comment> \<open>handles that are open\<close>
  pc_closed :: "nat list"             \<comment> \<open>calls of \<^verbatim>\<open>Handle.Close\<close>, the last one first\<close>
  pc_inactive :: nat                  \<comment> \<open>inactive handles not cleaned up\<close>
  pc_config :: "nat \<rightharpoonup> handle_config"
  pc_filter :: "nat \<rightharpoonup> string"        \<comment> \<open>the BPF filter set on a handle\<close>
  pc_misused :: "nat list"            \<comment> \<open>methods called on a handle after its \<^verbatim>\<open>Close\<close>\<close>

text \<open>What the calls on one interface would return.\<close>

record pcap_answers =
  an_NewInactiveHandle :: "go_error option"
  an_SetTimeout :: "go_error option"
  an_SetPromisc :: "go_error option"
  an_SetSnapLen :: "go_error option"
  an_Activate :: "go_error + nat"
  an_LinkType :: link_type
  an_closed_LinkType :: link_type     \<comment> \<open>\<^verbatim>\<open>LinkType\<close> of the handle once it is closed\<close>
  an_SetDirection :: "go_error option"

type_synonym direction = string

definition Reader :: direction where "Reader = ''read''"
definition Writer :: direction where "Writer = ''write''"

definition deviceManagerKey :: "string \<Rightarrow> direction \<Rightarrow> string" where
  "deviceManagerKey iname direction = iname @ '':'' @ direction"

section \<open>Interfaces\<close>

fun keep_addressed :: "pcap_interface list \<Rightarrow> (string \<rightharpoonup> pcap_interface) \<Rightarrow>
    (string \<rightharpoonup> pcap_interface)" where
  "keep_addressed [] m = m"
| "keep_addressed (i # ifs) m =
     (if length (if_Addresses i) = 0 then keep_addressed ifs m
      else keep_addressed ifs (m(if_Name i \<mapsto> i)))"

text \<open>\<open>found\<close> is the result of \<^verbatim>\<open>pcap.FindAllDevs\<close>.\<close>

definition Refresh :: "go_error + pcap_interface list \<Rightarrow> device_manager \<Rightarrow>
    go_error option \<times> device_manager" where
  "Refresh found dm = (case found of
       Inl err \<Rightarrow> (Some err, dm)
     | Inr ifs \<Rightarrow> (None, dm\<lparr>dm_interfaces := keep_addressed ifs Map.empty\<rparr>))"

definition NewDeviceManager :: "go_error + pcap_interface list \<Rightarrow> go_error + device_manager" where
  "NewDeviceManager found =
     (let dm = \<lparr>dm_interfaces = Map.empty, dm_handles = Map.empty\<rparr> in
      case Refresh found dm of (Some err, dm') \<Rightarrow> Inl err | (None, dm') \<Rightarrow> Inr dm')"

definition GetAddresses :: "string \<Rightarrow> device_manager \<Rightarrow> go_error + interface_address list" where
  "GetAddresses iname dm = (case dm_interfaces dm iname of
       Some dev \<Rightarrow> Inr (if_Addresses dev)
     | None \<Rightarrow> Inl (Errorf (''interface '' @ iname @ '' not found or has no addresses'')))"

definition InterfaceAvailable :: "go_error + pcap_interface list \<Rightarrow> string \<Rightarrow> device_manager \<Rightarrow>
    bool \<times> device_manager" where
  "InterfaceAvailable found iname dm =
     (let dm' = snd (Refresh found dm) in (dm_interfaces dm' iname \<noteq> None, dm'))"

text \<open>In the following, \<open>ks\<close> is the order in which the interfaces are ranged over.\<close>

definition address_line :: "interface_address \<Rightarrow> string" where
  "address_line a =
     (let ones = dec_nat (fst (mask_size (ia_Netmask a)));
          prefix = [CHR 0x09] @ ''- IP: '' @ ip_string (ia_IP a) @ ''/'' @ ones in
      if ia_Broadaddr a \<noteq> [] then
        prefix @ ''  Broadaddr: '' @ ip_string (ia_Broadaddr a) @ [CHR 0x0A]
      else if ia_P2P a \<noteq> [] then
        prefix @ ''  PointToPoint: '' @ ip_string (ia_P2P a) @ [CHR 0x0A]
      else prefix @ [CHR 0x0A])"

definition ListInterfaces :: "string list \<Rightarrow> device_manager \<Rightarrow> string" where
  "ListInterfaces ks dm = concat (map (\<lambda>k.
     ''Interface: '' @ k @ [CHR 0x0A] @
     concat (map address_line (if_Addresses (the (dm_interfaces dm k)))) @ [CHR 0x0A]) ks)"

fun GetLoopback :: "string list \<Rightarrow> device_manager \<Rightarrow> string" where
  "GetLoopback [] dm = ''''"
| "GetLoopback (k # ks) dm =
     (if list_ex (\<lambda>a. is_loopback (ia_IP a)) (if_Addresses (the (dm_interfaces dm k))) then k
      else GetLoopback ks dm)"

section \<open>Handles\<close>

definition close_handle :: "nat \<Rightarrow> pcap_state \<Rightarrow> pcap_state" where
  "close_handle h os = os\<lparr>pc_live := removeAll h (pc_live os), pc_closed := h # pc_closed os\<rparr>"

definition open_handle :: "handle_config \<Rightarrow> nat \<Rightarrow> pcap_state \<Rightarrow> pcap_state" where
  "open_handle conf h os = os\<lparr>pc_live := h # pc_live os, pc_config := (pc_config os)(h \<mapsto> conf),
     pc_filter := (pc_filter os)(h := None)\<rparr>"

definition set_inbound :: "handle_config \<Rightarrow> nat \<Rightarrow> pcap_state \<Rightarrow> pcap_state" where
  "set_inbound conf h os = os\<lparr>pc_config := (pc_config os)(h \<mapsto> conf\<lparr>hc_inbound := True\<rparr>)\<rparr>"

definition clean_up :: "pcap_state \<Rightarrow> pcap_state" where
  "clean_up os = os\<lparr>pc_inactive := pc_inactive os - 1\<rparr>"

text \<open>\<open>goos\<close> is \<^verbatim>\<open>runtime.GOOS\<close>.\<close>

definition isValidLinkType :: "string \<Rightarrow> link_type \<Rightarrow> bool" where
  "isValidLinkType goos lt =
     (if lt = LinkTypeLoop \<or> lt = LinkTypeEthernet \<or> lt = LinkTypeNull \<or> lt = LinkTypeRaw then True
      else if lt = LinkTypeRawOpenBSD then goos = ''openbsd''
      else if lt = LinkTypeRawOthers then goos \<noteq> ''openbsd''
      else False)"

text \<open>
  An unsupported link type: the code closes the handle and then asks it for its link type
  to print it.
\<close>

definition reject_link :: "(link_type \<Rightarrow> string) \<Rightarrow> pcap_answers \<Rightarrow> string \<Rightarrow> nat \<Rightarrow> pcap_state \<Rightarrow>
    (go_error + nat) \<times> pcap_state" where
  "reject_link show_lt ans iname handle os =
     (let os1 = close_handle handle os;
          os2 = os1\<lparr>pc_misused := handle # pc_misused os1\<rparr> in
      (Inl (Errorf (''interface '' @ iname @ '' has an unsupported link type: '' @
          show_lt (an_closed_LinkType ans))), clean_up os2))"

text \<open>
  The calls between \<^verbatim>\<open>NewInactiveHandle\<close> and the return, with the deferred \<^verbatim>\<open>CleanUp\<close> on
  every path behind it.
\<close>

definition activate_reader :: "string \<Rightarrow> (link_type \<Rightarrow> string) \<Rightarrow> bool \<Rightarrow> duration \<Rightarrow> pcap_answers \<Rightarrow>
    string \<Rightarrow> pcap_state \<Rightarrow> (go_error + nat) \<times> pcap_state" where
  "activate_reader goos show_lt promisc timeout ans iname os =
     (case an_NewInactiveHandle ans of Some err \<Rightarrow> (Inl err, os)
      | None \<Rightarrow>
          let os1 = os\<lparr>pc_inactive := pc_inactive os + 1\<rparr> in
          (case an_SetTimeout ans of Some err \<Rightarrow> (Inl err, clean_up os1)
           | None \<Rightarrow> (case an_SetPromisc ans of Some err \<Rightarrow> (Inl err, clean_up os1)
           | None \<Rightarrow> (case an_SetSnapLen ans of Some err \<Rightarrow> (Inl err, clean_up os1)
           | None \<Rightarrow> (case an_Activate ans of Inl err \<Rightarrow> (Inl err, clean_up os1)
           | Inr handle \<Rightarrow>
               let conf = \<lparr>hc_iname = iname, hc_promisc = promisc, hc_timeout = Some timeout,
                     hc_snaplen = 9000, hc_inbound = False, hc_LinkType = an_LinkType ans\<rparr>;
                   os2 = open_handle conf handle os1 in
               if \<not> isValidLinkType goos (an_LinkType ans) then
                 reject_link show_lt ans iname handle os2
               else (case an_SetDirection ans of
                   Some err \<Rightarrow>
                     (Inl (Wrapf (''failed to set direction on interface '' @ iname @ '': '') err),
                      clean_up (close_handle handle os2))
                 | None \<Rightarrow> (Inr handle, clean_up (set_inbound conf handle os2))))))))"

definition newWriterHandle :: "string \<Rightarrow> (link_type \<Rightarrow> string) \<Rightarrow> pcap_answers \<Rightarrow> string \<Rightarrow>
    pcap_state \<Rightarrow> (go_error + nat) \<times> pcap_state" where
  "newWriterHandle goos show_lt ans iname os =
     (case an_NewInactiveHandle ans of Some err \<Rightarrow> (Inl err, os)
      | None \<Rightarrow>
          let os1 = os\<lparr>pc_inactive := pc_inactive os + 1\<rparr> in
          (case an_SetPromisc ans of Some err \<Rightarrow> (Inl err, clean_up os1)
           | None \<Rightarrow> (case an_SetSnapLen ans of Some err \<Rightarrow> (Inl err, clean_up os1)
           | None \<Rightarrow> (case an_Activate ans of Inl err \<Rightarrow> (Inl err, clean_up os1)
           | Inr handle \<Rightarrow>
               let conf = \<lparr>hc_iname = iname, hc_promisc = False, hc_timeout = None,
                     hc_snaplen = 9000, hc_inbound = False, hc_LinkType = an_LinkType ans\<rparr>;
                   os2 = open_handle conf handle os1 in
               if \<not> isValidLinkType goos (an_LinkType ans) then
                 reject_link show_lt ans iname handle os2
               else (Inr handle, clean_up os2)))))"

type_synonym dm_state = "device_manager \<times> pcap_state"

definition CreateReaderHandle :: "string \<Rightarrow> (link_type \<Rightarrow> string) \<Rightarrow> pcap_answers \<Rightarrow> string \<Rightarrow> bool \<Rightarrow>
    duration \<Rightarrow> dm_state \<Rightarrow> (go_error + nat) \<times> dm_state" where
  "CreateReaderHandle goos show_lt ans iname promisc timeout = (\<lambda>(dm, os).
     let key = deviceManagerKey iname Reader in
     (case dm_handles dm key of Some handle \<Rightarrow> (Inr handle, dm, os)
      | None \<Rightarrow> (case activate_reader goos show_lt promisc timeout ans iname os of
          (Inl err, os') \<Rightarrow> (Inl err, dm, os')
        | (Inr handle, os') \<Rightarrow>
            (Inr handle, dm\<lparr>dm_handles := (dm_handles dm)(key \<mapsto> handle)\<rparr>, os'))))"

definition CreateWriterHandle :: "string \<Rightarrow> (link_type \<Rightarrow> string) \<Rightarrow> pcap_answers \<Rightarrow> string \<Rightarrow>
    dm_state \<Rightarrow> (go_error + nat) \<times> dm_state" where
  "CreateWriterHandle goos show_lt ans iname = (\<lambda>(dm, os).
     let key = deviceManagerKey iname Writer in
     (case dm_handles dm key of Some handle \<Rightarrow> (Inr handle, dm, os)
      | None \<Rightarrow> (case newWriterHandle goos show_lt ans iname os of
          (Inl err, os') \<Rightarrow> (Inl err, dm, os')
        | (Inr handle, os') \<Rightarrow>
            (Inr handle, dm\<lparr>dm_handles := (dm_handles dm)(key \<mapsto> handle)\<rparr>, os'))))"

definition CreateIsolatedWriterHandle :: "string \<Rightarrow> (link_type \<Rightarrow> string) \<Rightarrow> pcap_answers \<Rightarrow>
    string \<Rightarrow> dm_state \<Rightarrow> (go_error + nat) \<times> dm_state" where
  "CreateIsolatedWriterHandle goos show_lt ans iname = (\<lambda>(dm, os).
     case newWriterHandle goos show_lt ans iname os of (r, os') \<Rightarrow> (r, dm, os'))"

definition no_handle :: "string \<Rightarrow> direction \<Rightarrow> go_error" where
  "no_handle iname direction =
     Errorf (''handle for interface '' @ iname @ '' with direction '' @ direction @ '' not found'')"

definition GetHandle :: "string \<Rightarrow> direction \<Rightarrow> device_manager \<Rightarrow> go_error + nat" where
  "GetHandle iname direction dm = (case dm_handles dm (deviceManagerKey iname direction) of
       None \<Rightarrow> Inl (no_handle iname direction)
     | Some handle \<Rightarrow> Inr handle)"

definition CloseDevice :: "string \<Rightarrow> direction \<Rightarrow> dm_state \<Rightarrow> go_error option \<times> dm_state" where
  "CloseDevice iname direction = (\<lambda>(dm, os).
     let key = deviceManagerKey iname direction in
     (case dm_handles dm key of
        None \<Rightarrow> (Some (no_handle iname direction), dm, os)
      | Some handle \<Rightarrow>
          (None, dm\<lparr>dm_handles := (dm_handles dm)(key := None)\<rparr>, close_handle handle os)))"

fun CloseHandles :: "string list \<Rightarrow> dm_state \<Rightarrow> dm_state" where
  "CloseHandles [] (dm, os) = (dm, os)"
| "CloseHandles (k # ks) (dm, os) =
     (case dm_handles dm k of
        None \<Rightarrow> CloseHandles ks (dm, os)
      | Some handle \<Rightarrow>
          CloseHandles ks (dm\<lparr>dm_handles := (dm_handles dm)(k := None)\<rparr>, close_handle handle os))"

section \<open>Lemmas\<close>

text \<open>
  A well-formed cache: its handles are open, and no two entries share one.  Libpcap never
  returns a handle that is still open (\<open>fresh\<close>).
\<close>

definition dm_ok :: "dm_state \<Rightarrow> bool" where
  "dm_ok = (\<lambda>(dm, os). (\<forall>k h. dm_handles dm k = Some h \<longrightarrow> h \<in> set (pc_live os)) \<and>
     (\<forall>k k' h. dm_handles dm k = Some h \<and> dm_handles dm k' = Some h \<longrightarrow> k = k'))"

definition fresh :: "pcap_answers \<Rightarrow> dm_state \<Rightarrow> bool" where
  "fresh ans = (\<lambda>(dm, os). \<forall>h. an_Activate ans = Inr h \<longrightarrow> h \<notin> set (pc_live os))"

definition writer_ready :: "string \<Rightarrow> pcap_answers \<Rightarrow> bool" where
  "writer_ready goos ans \<longleftrightarrow> an_NewInactiveHandle ans = None \<and> an_SetPromisc ans = None \<and>
     an_SetSnapLen ans = None \<and> (\<exists>h. an_Activate ans = Inr h) \<and>
     isValidLinkType goos (an_LinkType ans)"

definition reader_ready :: "string \<Rightarrow> pcap_answers \<Rightarrow> bool" where
  "reader_ready goos ans \<longleftrightarrow>
     writer_ready goos ans \<and> an_SetTimeout ans = None \<and> an_SetDirection ans = None"

definition reader_config :: "bool \<Rightarrow> duration \<Rightarrow> pcap_answers \<Rightarrow> string \<Rightarrow> handle_config" where
  "reader_config promisc timeout ans iname = \<lparr>hc_iname = iname, hc_promisc = promisc,
     hc_timeout = Some timeout, hc_snaplen = 9000, hc_inbound = True,
     hc_LinkType = an_LinkType ans\<rparr>"

definition writer_config :: "pcap_answers \<Rightarrow> string \<Rightarrow> handle_config" where
  "writer_config ans iname = \<lparr>hc_iname = iname, hc_promisc = False, hc_timeout = None,
     hc_snaplen = 9000, hc_inbound = False, hc_LinkType = an_LinkType ans\<rparr>"

lemmas pcap_ops = open_handle_def set_inbound_def reader_config_def writer_config_def close_handle_def clean_up_def reject_link_def Let_def

lemma removeAll_fresh: "h \<notin> set xs \<Longrightarrow> removeAll h (h # xs) = xs"
  by simp

lemma activate_reader_outcome:
  assumes "\<And>h. an_Activate ans = Inr h \<Longrightarrow> h \<notin> set (pc_live os)"
    and "activate_reader goos show_lt promisc timeout ans iname os = (r, os')"
  shows "pc_inactive os' = pc_inactive os \<and> ((\<exists>h. r = Inr h) \<longleftrightarrow> reader_ready goos ans) \<and>
    (case r of Inl e \<Rightarrow> pc_live os' = pc_live os
     | Inr h \<Rightarrow> an_Activate ans = Inr h \<and> os' = open_handle (reader_config promisc timeout ans iname) h os)"
  using assms
  by (auto simp: activate_reader_def reader_ready_def writer_ready_def pcap_ops
      split: option.splits sum.splits if_splits)

lemma newWriterHandle_outcome:
  assumes "\<And>h. an_Activate ans = Inr h \<Longrightarrow> h \<notin> set (pc_live os)"
    and "newWriterHandle goos show_lt ans iname os = (r, os')"
  shows "pc_inactive os' = pc_inactive os \<and> ((\<exists>h. r = Inr h) \<longleftrightarrow> writer_ready goos ans) \<and>
    (case r of Inl e \<Rightarrow> pc_live os' = pc_live os
     | Inr h \<Rightarrow> an_Activate ans = Inr h \<and> os' = open_handle (writer_config ans iname) h os)"
  using assms
  by (auto simp: newWriterHandle_def writer_ready_def pcap_ops
      split: option.splits sum.splits if_splits)

lemma dm_ok_open:
  "dm_ok (dm, os) \<Longrightarrow> h \<notin> set (pc_live os) \<Longrightarrow>
     dm_ok (dm\<lparr>dm_handles := (dm_handles dm)(k \<mapsto> h)\<rparr>, open_handle conf h os)"
  by (auto simp: dm_ok_def open_handle_def)

lemma dm_ok_close:
  "dm_ok (dm, os) \<Longrightarrow> dm_handles dm k = Some h \<Longrightarrow>
     dm_ok (dm\<lparr>dm_handles := (dm_handles dm)(k := None)\<rparr>, close_handle h os)"
  unfolding dm_ok_def close_handle_def by (simp split: if_splits) blast

lemma dm_ok_live: "dm_ok (dm, os) \<Longrightarrow> pc_live os' = pc_live os \<Longrightarrow> dm_ok (dm, os')"
  by (simp add: dm_ok_def)

lemma deviceManagerKey_inject:
  assumes "deviceManagerKey i d = deviceManagerKey j e"
    and "d \<in> {Reader, Writer}" and "e \<in> {Reader, Writer}"
  shows "i = j \<and> d = e"
  using append_sep_inject [of i "CHR '':''" d j e] assms
  by (auto simp: deviceManagerKey_def Reader_def Writer_def)

section \<open>The cache as an interface\<close>

text \<open>
  What the stages rely on when they open and close the handle of one interface and
  direction: an open handle is returned again, a failing attempt changes no handle, and
  closing releases exactly the cached one.
\<close>

locale handle_cache =
  fixes create :: "pcap_answers \<Rightarrow> 's \<Rightarrow> (go_error + nat) \<times> 's"
    and close :: "'s \<Rightarrow> go_error option \<times> 's"
    and cached :: "'s \<Rightarrow> nat option" and live :: "'s \<Rightarrow> nat set"
    and ok :: "'s \<Rightarrow> bool" and new :: "pcap_answers \<Rightarrow> 's \<Rightarrow> bool"
  assumes create_cached: "cached s = Some h \<Longrightarrow> create a s = (Inr h, s)"
    and create_opens: "ok s \<Longrightarrow> new a s \<Longrightarrow> cached s = None \<Longrightarrow> create a s = (Inr h, s') \<Longrightarrow>
      ok s' \<and> cached s' = Some h \<and> live s' = insert h (live s) \<and> h \<notin> live s"
    and create_fails: "ok s \<Longrightarrow> new a s \<Longrightarrow> create a s = (Inl e, s') \<Longrightarrow>
      ok s' \<and> cached s' = None \<and> live s' = live s"
    and close_cached: "ok s \<Longrightarrow> cached s = Some h \<Longrightarrow>
      \<exists>s'. close s = (None, s') \<and> ok s' \<and> cached s' = None \<and> live s' = live s - {h}"
    and close_missing: "cached s = None \<Longrightarrow> \<exists>e. close s = (Some e, s)"
begin

lemma create_stable:
  assumes "ok s" and "new a s" and "create a s = (Inr h, s')"
  shows "ok s' \<and> cached s' = Some h \<and> create b s' = (Inr h, s')"
proof (cases "cached s")
  case None
  from create_opens [OF assms(1,2) None assms(3)] create_cached show ?thesis by blast
next
  case (Some h')
  from create_cached [OF Some, of a] assms(3) Some have "h' = h" "s' = s" by auto
  with Some create_cached [OF Some, of b] assms(1) show ?thesis by simp
qed

text \<open>Closing never leaves a handle in the cache, and what it closed it does not close twice.\<close>

lemma close_done: "ok s \<Longrightarrow> ok (snd (close s)) \<and> cached (snd (close s)) = None"
  using close_cached [of s] close_missing [of s] by (cases "cached s") fastforce+

lemma reopen:
  assumes "ok s" and "cached s = Some h" and "new a (snd (close s))"
    and "create a (snd (close s)) = (Inr h', s')"
  shows "ok s' \<and> cached s' = Some h' \<and> live s' = insert h' (live s - {h})"
proof -
  from close_cached [OF assms(1,2)] obtain s1 where
    s1: "close s = (None, s1)" "ok s1" "cached s1 = None" "live s1 = live s - {h}" by blast
  with create_opens [of s1 a h' s'] assms(3,4) show ?thesis by simp
qed

end

definition cached_handle :: "string \<Rightarrow> direction \<Rightarrow> dm_state \<Rightarrow> nat option" where
  "cached_handle iname d s = dm_handles (fst s) (deviceManagerKey iname d)"

definition live_handles :: "dm_state \<Rightarrow> nat set" where
  "live_handles s = set (pc_live (snd s))"

lemma CloseDevice_cached:
  assumes "dm_ok s" and "cached_handle iname d s = Some h"
  shows "\<exists>s'. CloseDevice iname d s = (None, s') \<and> dm_ok s' \<and> cached_handle iname d s' = None \<and>
    live_handles s' = live_handles s - {h}"
  using assms dm_ok_close [of "fst s" "snd s" "deviceManagerKey iname d" h]
  by (cases s) (auto simp: CloseDevice_def cached_handle_def live_handles_def close_handle_def)

lemma CloseDevice_missing:
  "cached_handle iname d s = None \<Longrightarrow> CloseDevice iname d s = (Some (no_handle iname d), s)"
  by (cases s) (simp add: CloseDevice_def cached_handle_def)

lemma opened_cache:
  assumes "dm_ok (dm, os)" and "h \<notin> set (pc_live os)"
    and "s' = (dm\<lparr>dm_handles := (dm_handles dm)(deviceManagerKey i d \<mapsto> h)\<rparr>, open_handle conf h os)"
  shows "dm_ok s' \<and> cached_handle i d s' = Some h \<and>
    live_handles s' = insert h (live_handles (dm, os)) \<and> h \<notin> live_handles (dm, os)"
  using assms dm_ok_open [of dm os h "deviceManagerKey i d" conf]
  by (simp add: cached_handle_def live_handles_def) (simp add: open_handle_def)

text \<open>
  Opening through the cache, for any way to open a handle that leaves no handle and no
  inactive handle behind when it fails.
\<close>

definition create_with :: "(pcap_answers \<Rightarrow> string \<Rightarrow> pcap_state \<Rightarrow> (go_error + nat) \<times> pcap_state) \<Rightarrow>
    string \<Rightarrow> direction \<Rightarrow> pcap_answers \<Rightarrow> dm_state \<Rightarrow> (go_error + nat) \<times> dm_state" where
  "create_with opn iname d ans = (\<lambda>(dm, os).
     let key = deviceManagerKey iname d in
     (case dm_handles dm key of Some handle \<Rightarrow> (Inr handle, dm, os)
      | None \<Rightarrow> (case opn ans iname os of
          (Inl err, os') \<Rightarrow> (Inl err, dm, os')
        | (Inr handle, os') \<Rightarrow>
            (Inr handle, dm\<lparr>dm_handles := (dm_handles dm)(key \<mapsto> handle)\<rparr>, os'))))"

locale opener =
  fixes opn :: "pcap_answers \<Rightarrow> string \<Rightarrow> pcap_state \<Rightarrow> (go_error + nat) \<times> pcap_state"
    and ready :: "pcap_answers \<Rightarrow> bool" and conf :: "pcap_answers \<Rightarrow> string \<Rightarrow> handle_config"
  assumes open_outcome: "(\<And>h. an_Activate ans = Inr h \<Longrightarrow> h \<notin> set (pc_live os)) \<Longrightarrow>
    opn ans iname os = (r, os') \<Longrightarrow>
    pc_inactive os' = pc_inactive os \<and> ((\<exists>h. r = Inr h) \<longleftrightarrow> ready ans) \<and>
    (case r of Inl e \<Rightarrow> pc_live os' = pc_live os
     | Inr h \<Rightarrow> an_Activate ans = Inr h \<and> os' = open_handle (conf ans iname) h os)"
begin

lemma create_new:
  assumes "fresh ans (dm, os)" and "dm_handles dm (deviceManagerKey iname d) = None"
    and "create_with opn iname d ans (dm, os) = (r, dm', os')"
  shows "pc_inactive os' = pc_inactive os \<and> ((\<exists>h. r = Inr h) \<longleftrightarrow> ready ans) \<and>
    (case r of Inl e \<Rightarrow> pc_live os' = pc_live os \<and> dm' = dm
     | Inr h \<Rightarrow> an_Activate ans = Inr h \<and> os' = open_handle (conf ans iname) h os \<and>
         dm' = dm\<lparr>dm_handles := (dm_handles dm)(deviceManagerKey iname d \<mapsto> h)\<rparr>)"
proof -
  obtain r1 os1 where a: "opn ans iname os = (r1, os1)"
    by (cases "opn ans iname os")
  with open_outcome [OF _ a] assms show ?thesis
    by (cases r1) (auto simp: create_with_def fresh_def)
qed

lemma create_cache:
  "handle_cache (create_with opn iname d) (CloseDevice iname d) (cached_handle iname d)
     live_handles dm_ok fresh"
proof unfold_locales
  fix s h a
  assume "cached_handle iname d s = Some h"
  then show "create_with opn iname d a s = (Inr h, s)"
    by (cases s) (simp add: create_with_def cached_handle_def)
next
  fix s a h s'
  assume ok: "dm_ok s" and f: "fresh a s" and none: "cached_handle iname d s = None"
    and c: "create_with opn iname d a s = (Inr h, s')"
  obtain dm os dm' os' where s: "s = (dm, os)" "s' = (dm', os')" by (cases s, cases s')
  from create_new [of a dm os iname d "Inr h" dm' os'] f none c
  show "dm_ok s' \<and> cached_handle iname d s' = Some h \<and>
      live_handles s' = insert h (live_handles s) \<and> h \<notin> live_handles s"
    unfolding s using ok by (intro opened_cache) (auto simp: s cached_handle_def fresh_def)
next
  fix s a e s'
  assume ok: "dm_ok s" and f: "fresh a s" and c: "create_with opn iname d a s = (Inl e, s')"
  obtain dm os dm' os' where s: "s = (dm, os)" "s' = (dm', os')" by (cases s, cases s')
  have none: "cached_handle iname d s = None"
    using c by (cases "cached_handle iname d s") (auto simp: s create_with_def cached_handle_def)
  from create_new [of a dm os iname d "Inl e" dm' os'] f none c
  show "dm_ok s' \<and> cached_handle iname d s' = None \<and> live_handles s' = live_handles s"
    using ok none by (auto simp: s cached_handle_def live_handles_def intro: dm_ok_live)
qed (use CloseDevice_cached CloseDevice_missing in blast)+

end

interpretation reader: opener "activate_reader goos show_lt promisc timeout" "reader_ready goos"
    "reader_config promisc timeout" for goos show_lt promisc timeout
  by unfold_locales (use activate_reader_outcome in blast)

interpretation writer: opener "newWriterHandle goos show_lt" "writer_ready goos" writer_config
    for goos show_lt
  by unfold_locales (use newWriterHandle_outcome in blast)

lemma create_with_reader:
  "create_with (activate_reader goos show_lt promisc timeout) iname Reader =
     (\<lambda>ans. CreateReaderHandle goos show_lt ans iname promisc timeout)"
  by (simp add: fun_eq_iff create_with_def CreateReaderHandle_def)

lemma create_with_writer:
  "create_with (newWriterHandle goos show_lt) iname Writer =
     (\<lambda>ans. CreateWriterHandle goos show_lt ans iname)"
  by (simp add: fun_eq_iff create_with_def CreateWriterHandle_def)

interpretation reader_cache: handle_cache
  "\<lambda>ans. CreateReaderHandle goos show_lt ans iname promisc timeout" "CloseDevice iname Reader"
  "cached_handle iname Reader" live_handles dm_ok fresh for goos show_lt iname promisc timeout
  by (rule reader.create_cache [where d = Reader, unfolded create_with_reader])

interpretation writer_cache: handle_cache
  "\<lambda>ans. CreateWriterHandle goos show_lt ans iname" "CloseDevice iname Writer"
  "cached_handle iname Writer" live_handles dm_ok fresh for goos show_lt iname
  by (rule writer.create_cache [where d = Writer, unfolded create_with_writer])

lemmas CreateReaderHandle_new = reader.create_new [where d = Reader, unfolded create_with_reader]
lemmas CreateWriterHandle_new = writer.create_new [where d = Writer, unfolded create_with_writer]

lemma CloseHandles_result:
  "distinct ks \<Longrightarrow> set ks \<subseteq> dom (dm_handles dm) \<Longrightarrow>
   CloseHandles ks (dm, os) =
     (dm\<lparr>dm_handles := dm_handles dm |` (- set ks)\<rparr>,
      os\<lparr>pc_live := filter (\<lambda>h. h \<notin> (the \<circ> dm_handles dm) ` set ks) (pc_live os),
         pc_closed := rev (map (the \<circ> dm_handles dm) ks) @ pc_closed os\<rparr>)"
proof (induction ks arbitrary: dm os)
  case (Cons k ks)
  then obtain h where h: "dm_handles dm k = Some h" by auto
  let ?dm = "dm\<lparr>dm_handles := (dm_handles dm)(k := None)\<rparr>"
  have same: "\<And>j. j \<in> set ks \<Longrightarrow> dm_handles ?dm j = dm_handles dm j" using Cons.prems(1) by auto
  have d: "set ks \<subseteq> dom (dm_handles ?dm)" using Cons.prems by auto
  have "CloseHandles (k # ks) (dm, os) = CloseHandles ks (?dm, close_handle h os)"
    using h by simp
  also have "\<dots> = (?dm\<lparr>dm_handles := dm_handles ?dm |` (- set ks)\<rparr>,
      (close_handle h os)\<lparr>pc_live := filter (\<lambda>h. h \<notin> (the \<circ> dm_handles ?dm) ` set ks)
           (pc_live (close_handle h os)),
         pc_closed := rev (map (the \<circ> dm_handles ?dm) ks) @ pc_closed (close_handle h os)\<rparr>)"
    by (rule Cons.IH [OF _ d]) (use Cons.prems(1) in simp)
  finally have "CloseHandles (k # ks) (dm, os) =
     (dm\<lparr>dm_handles := dm_handles ?dm |` (- set ks)\<rparr>,
      os\<lparr>pc_live := filter (\<lambda>h. h \<notin> (the \<circ> dm_handles ?dm) ` set ks) (removeAll h (pc_live os)),
         pc_closed := rev (map (the \<circ> dm_handles ?dm) ks) @ h # pc_closed os\<rparr>)"
    by (simp add: close_handle_def del: o_apply)
  moreover have "dm_handles ?dm |` (- set ks) = dm_handles dm |` (- set (k # ks))"
    by (auto simp: restrict_map_def fun_eq_iff)
  moreover have "map (the \<circ> dm_handles ?dm) ks = map (the \<circ> dm_handles dm) ks"
    using Cons.prems(1) by auto
  moreover have "(the \<circ> dm_handles ?dm) ` set ks = (the \<circ> dm_handles dm) ` set ks"
    using same by (intro image_cong) simp_all
  moreover have "filter P (removeAll h xs) = filter (\<lambda>x. x \<noteq> h \<and> P x) xs" for P xs
    by (induction xs) auto
  ultimately show ?case using h by (simp del: fun_upd_apply)
qed (simp add: restrict_map_def)

lemma keep_addressed_lookup:
  "keep_addressed ifs m i =
     (case filter (\<lambda>x. if_Addresses x \<noteq> [] \<and> if_Name x = i) (rev ifs) of
        [] \<Rightarrow> m i | x # xs \<Rightarrow> Some x)"
proof (induction ifs arbitrary: m)
  case (Cons x xs)
  then show ?case by (cases "filter (\<lambda>x. if_Addresses x \<noteq> [] \<and> if_Name x = i) (rev xs)") auto
qed simp

lemma GetLoopback_in: "GetLoopback ks dm \<noteq> [] \<Longrightarrow> GetLoopback ks dm \<in> set ks \<and>
   (\<exists>a\<in>set (if_Addresses (the (dm_interfaces dm (GetLoopback ks dm)))). is_loopback (ia_IP a))"
  by (induction ks) (auto simp: list_ex_iff)

lemma GetLoopback_none: "[] \<notin> set ks \<Longrightarrow> GetLoopback ks dm = [] \<longleftrightarrow>
   (\<forall>k\<in>set ks. \<forall>a\<in>set (if_Addresses (the (dm_interfaces dm k))). \<not> is_loopback (ia_IP a))"
  by (induction ks) (auto simp: list_ex_iff)

section \<open>Reachable states\<close>

text \<open>
  Every call that changes the manager, and the owner of an isolated handle closing it.
\<close>

inductive dm_step :: "string \<Rightarrow> (link_type \<Rightarrow> string) \<Rightarrow> dm_state \<Rightarrow> dm_state \<Rightarrow> bool"
  for goos show_lt where
  refresh: "dm_step goos show_lt (dm, os) (snd (Refresh found dm), os)"
| create_reader: "fresh ans s \<Longrightarrow>
    dm_step goos show_lt s (snd (CreateReaderHandle goos show_lt ans iname promisc timeout s))"
| create_writer: "fresh ans s \<Longrightarrow>
    dm_step goos show_lt s (snd (CreateWriterHandle goos show_lt ans iname s))"
| create_isolated: "fresh ans s \<Longrightarrow>
    dm_step goos show_lt s (snd (CreateIsolatedWriterHandle goos show_lt ans iname s))"
| close_isolated: "\<forall>k. dm_handles dm k \<noteq> Some h \<Longrightarrow>
    dm_step goos show_lt (dm, os) (dm, close_handle h os)"
| close_device: "dm_step goos show_lt s (snd (CloseDevice iname d s))"
| close_handles: "enumerates ks (dm_handles dm) \<Longrightarrow>
    dm_step goos show_lt (dm, os) (CloseHandles ks (dm, os))"

definition dm_inv :: "dm_state \<Rightarrow> bool" where
  "dm_inv s \<longleftrightarrow> dm_ok s \<and> pc_inactive (snd s) = 0"

lemma dm_inv_create:
  assumes "dm_inv s" and "fresh ans s"
  shows "dm_inv (snd (CreateReaderHandle goos show_lt ans iname promisc timeout s))"
    and "dm_inv (snd (CreateWriterHandle goos show_lt ans iname s))"
proof -
  obtain dm os where s: "s = (dm, os)" by (cases s)
  obtain r dm' os' where
    c: "CreateReaderHandle goos show_lt ans iname promisc timeout (dm, os) = (r, dm', os')"
    by (cases "CreateReaderHandle goos show_lt ans iname promisc timeout (dm, os)") auto
  show "dm_inv (snd (CreateReaderHandle goos show_lt ans iname promisc timeout s))"
  proof (cases "dm_handles dm (deviceManagerKey iname Reader)")
    case None
    from CreateReaderHandle_new [OF _ None c] c reader_cache.create_opens [of s ans iname goos show_lt promisc timeout]
      reader_cache.create_fails [of s ans goos show_lt iname promisc timeout] assms None
    show ?thesis by (cases r) (auto simp: s dm_inv_def cached_handle_def)
  qed (use assms in \<open>simp add: s CreateReaderHandle_def\<close>)
  obtain r dm' os' where c: "CreateWriterHandle goos show_lt ans iname (dm, os) = (r, dm', os')"
    by (cases "CreateWriterHandle goos show_lt ans iname (dm, os)") auto
  show "dm_inv (snd (CreateWriterHandle goos show_lt ans iname s))"
  proof (cases "dm_handles dm (deviceManagerKey iname Writer)")
    case None
    from CreateWriterHandle_new [OF _ None c] c writer_cache.create_opens [of s ans iname goos show_lt]
      writer_cache.create_fails [of s ans goos show_lt iname] assms None
    show ?thesis by (cases r) (auto simp: s dm_inv_def cached_handle_def)
  qed (use assms in \<open>simp add: s CreateWriterHandle_def\<close>)
qed

lemma dm_inv_isolated:
  assumes "dm_inv s" and "fresh ans s"
  shows "dm_inv (snd (CreateIsolatedWriterHandle goos show_lt ans iname s))"
proof -
  obtain dm os where s: "s = (dm, os)" by (cases s)
  obtain r os' where w: "newWriterHandle goos show_lt ans iname os = (r, os')"
    by (cases "newWriterHandle goos show_lt ans iname os")
  with newWriterHandle_outcome [OF _ w] assms show ?thesis
    by (cases r) (auto simp: s CreateIsolatedWriterHandle_def dm_inv_def fresh_def dm_ok_def open_handle_def)
qed

lemma dm_inv_CloseDevice: "dm_inv s \<Longrightarrow> dm_inv (snd (CloseDevice iname d s))"
  using dm_ok_close [of "fst s" "snd s" "deviceManagerKey iname d"]
  by (cases s) (auto simp: dm_inv_def CloseDevice_def close_handle_def Let_def split: option.splits)

lemma CloseHandles_all:
  assumes "enumerates ks (dm_handles dm)"
  shows "CloseHandles ks (dm, os) =
    (dm\<lparr>dm_handles := Map.empty\<rparr>,
     os\<lparr>pc_live := filter (\<lambda>h. h \<notin> ran (dm_handles dm)) (pc_live os),
        pc_closed := rev (map (the \<circ> dm_handles dm) ks) @ pc_closed os\<rparr>)"
proof -
  have "dm_handles dm |` (- set ks) = Map.empty"
    using assms by (auto simp: enumerates_def restrict_map_def fun_eq_iff)
  moreover have "(the \<circ> dm_handles dm) ` set ks = ran (dm_handles dm)"
    using assms by (force simp: enumerates_def ran_def dom_def image_iff)
  ultimately show ?thesis
    using CloseHandles_result [of ks dm os] assms by (simp add: enumerates_def)
qed

lemma dm_step_inv: "dm_step goos show_lt s s' \<Longrightarrow> dm_inv s \<Longrightarrow> dm_inv s'"
proof (induction rule: dm_step.induct)
  case (refresh dm os found)
  then show ?case by (simp add: Refresh_def dm_inv_def dm_ok_def split: sum.splits)
next
  case (close_isolated dm h os)
  then show ?case by (auto simp: dm_inv_def dm_ok_def close_handle_def)
next
  case (close_handles ks dm os)
  then show ?case by (auto simp: CloseHandles_all dm_inv_def dm_ok_def)
qed (simp_all add: dm_inv_create dm_inv_isolated dm_inv_CloseDevice)

lemma dm_reachable_inv: "(dm_step goos show_lt)\<^sup>*\<^sup>* s s' \<Longrightarrow> dm_inv s \<Longrightarrow> dm_inv s'"
  by (induction rule: rtranclp_induct) (auto intro: dm_step_inv)

section \<open>Properties\<close>

text \<open>
  The handle cache, after any sequence of calls on a new device manager: every cached
  handle is open, no two entries share a handle, and no inactive handle is left behind.
\<close>

theorem device_manager_invariant:
  assumes "NewDeviceManager found = Inr dm0" and "pc_inactive os0 = 0"
    and "(dm_step goos show_lt)\<^sup>*\<^sup>* (dm0, os0) (dm, os)"
  shows "(\<forall>k h. dm_handles dm k \<noteq> Some h \<or> h \<in> set (pc_live os)) \<and>
    inj_on (dm_handles dm) (dom (dm_handles dm)) \<and> pc_inactive os = 0"
proof -
  have "dm_inv (dm0, os0)"
    using assms(1,2)
    by (auto simp: NewDeviceManager_def Refresh_def Let_def dm_inv_def dm_ok_def split: sum.splits)
  from dm_reachable_inv [OF assms(3) this]
  show ?thesis unfolding dm_inv_def dm_ok_def inj_on_def by fastforce
qed

definition no_pcap :: pcap_state where
  "no_pcap = \<lparr>pc_live = [], pc_closed = [], pc_inactive = 0, pc_config = Map.empty,
     pc_filter = Map.empty, pc_misused = []\<rparr>"

definition all_well :: "nat \<Rightarrow> link_type \<Rightarrow> pcap_answers" where
  "all_well h lt = \<lparr>an_NewInactiveHandle = None, an_SetTimeout = None, an_SetPromisc = None,
     an_SetSnapLen = None, an_Activate = Inr h, an_LinkType = lt, an_closed_LinkType = 0,
     an_SetDirection = None\<rparr>"

definition empty_dm :: device_manager where
  "empty_dm = \<lparr>dm_interfaces = Map.empty, dm_handles = Map.empty\<rparr>"

lemmas pcap_examples = no_pcap_def all_well_def empty_dm_def

theorem device_manager_invariant_witness:
  "3 \<in> set (pc_live (snd (snd (CreateReaderHandle ''linux'' (\<lambda>lt. []) (all_well 3 LinkTypeEthernet)
     ''eth0'' False 250000000 (empty_dm, no_pcap)))))"
proof -
  let ?s = "snd (CreateReaderHandle ''linux'' (\<lambda>lt. []) (all_well 3 LinkTypeEthernet) ''eth0''
    False 250000000 (empty_dm, no_pcap))"
  have "NewDeviceManager (Inr []) = Inr empty_dm"
    by (simp add: NewDeviceManager_def Refresh_def empty_dm_def)
  moreover have "pc_inactive no_pcap = 0" by (simp add: no_pcap_def)
  moreover have "dm_step ''linux'' (\<lambda>lt. []) (empty_dm, no_pcap) ?s"
    by (rule create_reader) (simp add: fresh_def pcap_examples)
  then have "(dm_step ''linux'' (\<lambda>lt. []))\<^sup>*\<^sup>* (empty_dm, no_pcap) (fst ?s, snd ?s)" by simp
  ultimately have "dm_handles (fst ?s) k \<noteq> Some h \<or> h \<in> set (pc_live (snd ?s))" for k h
    using device_manager_invariant [of "Inr []" empty_dm no_pcap "''linux''" "\<lambda>lt. []" "fst ?s" "snd ?s"]
    by blast
  from this [of "deviceManagerKey ''eth0'' Reader" 3] show ?thesis
    by (simp add: CreateReaderHandle_def pcap_examples activate_reader_def pcap_ops isValidLinkType_def)
qed

text \<open>
  C24. Opening a reader: the cached handle is returned again without a call to libpcap;
  otherwise the call succeeds exactly when every libpcap call does and the link type is
  valid, and caches a fresh handle, set up as asked for and without a filter yet.  When it fails, no cache entry,
  no open handle and no inactive handle is left by it.
\<close>

theorem CreateReaderHandle_correct:
  assumes "dm_ok (dm, os)" and "fresh ans (dm, os)"
    and "CreateReaderHandle goos show_lt ans iname promisc timeout (dm, os) = (r, dm', os')"
  shows "case GetHandle iname Reader dm of
      Inr h \<Rightarrow> r = Inr h \<and> dm' = dm \<and> os' = os
    | Inl e \<Rightarrow>
        ((\<exists>h. r = Inr h) \<longleftrightarrow> an_NewInactiveHandle ans = None \<and> an_SetTimeout ans = None \<and>
           an_SetPromisc ans = None \<and> an_SetSnapLen ans = None \<and> (\<exists>h. an_Activate ans = Inr h) \<and>
           isValidLinkType goos (an_LinkType ans) \<and> an_SetDirection ans = None) \<and>
        pc_inactive os' = pc_inactive os \<and>
        (case r of
           Inr h \<Rightarrow> GetHandle iname Reader dm' = Inr h \<and> pc_filter os' h = None \<and>
             pc_config os' h = Some \<lparr>hc_iname = iname, hc_promisc = promisc,
               hc_timeout = Some timeout, hc_snaplen = 9000, hc_inbound = True,
               hc_LinkType = an_LinkType ans\<rparr> \<and>
             h \<notin> set (pc_live os) \<and> set (pc_live os') = insert h (set (pc_live os))
         | Inl e \<Rightarrow> dm' = dm \<and> pc_live os' = pc_live os)"
proof (cases "dm_handles dm (deviceManagerKey iname Reader)")
  case None
  from CreateReaderHandle_new [OF assms(2) None assms(3)] assms(2) None show ?thesis
    by (auto simp: GetHandle_def reader_ready_def writer_ready_def open_handle_def reader_config_def
          fresh_def
        split: sum.splits)
next
  case (Some h)
  then show ?thesis
    using reader_cache.create_cached [of iname "(dm, os)" h goos show_lt ans promisc timeout] assms(3)
    by (simp add: GetHandle_def cached_handle_def)
qed

theorem CreateReaderHandle_correct_witness:
  "\<exists>s. CreateReaderHandle ''linux'' (\<lambda>lt. []) (all_well 3 LinkTypeRawOpenBSD) ''tun0'' True 1
       (empty_dm, no_pcap)
     = (Inl (Errorf ''interface tun0 has an unsupported link type: ''), s) \<and> pc_live (snd s) = []"
proof -
  obtain r dm' os' where c: "CreateReaderHandle ''linux'' (\<lambda>lt. []) (all_well 3 LinkTypeRawOpenBSD) ''tun0'' True 1
      (empty_dm, no_pcap) = (r, dm', os')"
    by (cases "CreateReaderHandle ''linux'' (\<lambda>lt. []) (all_well 3 LinkTypeRawOpenBSD) ''tun0'' True 1
      (empty_dm, no_pcap)") auto
  moreover have "r = Inl (Errorf ''interface tun0 has an unsupported link type: '')"
    using c by (simp add: CreateReaderHandle_def pcap_examples activate_reader_def pcap_ops
        isValidLinkType_def link_type_defs)
  moreover have "pc_live os' = []"
    using CreateReaderHandle_correct [OF _ _ c] calculation(2)
    by (simp add: GetHandle_def pcap_examples dm_ok_def fresh_def)
  ultimately show ?thesis by simp
qed

text \<open>
  \<^verbatim>\<open>CloseHandles\<close> closes every cached handle exactly once and empties the cache,
  whatever the order of the map; handles that are not cached (those of the transmitters)
  stay open.
\<close>

theorem CloseHandles_correct:
  assumes "dm_ok (dm, os)" and "enumerates ks (dm_handles dm)"
    and "CloseHandles ks (dm, os) = (dm', os')"
  shows "dm_handles dm' = Map.empty \<and> dm_interfaces dm' = dm_interfaces dm \<and>
    set (pc_live os') = set (pc_live os) - ran (dm_handles dm) \<and>
    (\<exists>hs. pc_closed os' = hs @ pc_closed os \<and> distinct hs \<and> set hs = ran (dm_handles dm))"
proof -
  let ?hs = "rev (map (the \<circ> dm_handles dm) ks)"
  have "inj_on (the \<circ> dm_handles dm) (dom (dm_handles dm))"
    using assms(1) by (auto simp: inj_on_def dm_ok_def)
  then have "distinct ?hs" using assms(2) by (simp add: enumerates_def distinct_map)
  moreover have "set ?hs = ran (dm_handles dm)"
    using assms(2) by (force simp: enumerates_def ran_def dom_def image_iff)
  ultimately show ?thesis using assms(3) CloseHandles_all [OF assms(2), of os] by auto
qed

theorem CloseHandles_correct_witness:
  "dm_handles (fst (CloseHandles [''eth0:read''] (empty_dm\<lparr>dm_handles := [''eth0:read'' \<mapsto> 3]\<rparr>,
     no_pcap\<lparr>pc_live := [4, 3]\<rparr>))) = Map.empty"
  using CloseHandles_correct [of "empty_dm\<lparr>dm_handles := [''eth0:read'' \<mapsto> 3]\<rparr>"
      "no_pcap\<lparr>pc_live := [4, 3]\<rparr>" "[''eth0:read'']", OF _ _ prod.collapse [symmetric]]
  by (simp add: dm_ok_def enumerates_def)

text \<open>
  \<^verbatim>\<open>Refresh\<close>: afterwards the manager knows exactly the interfaces that have an
  address, each with the last description libpcap gave for its name; an error of libpcap
  leaves the list as it was, and the handles are never touched.
\<close>

theorem Refresh_correct:
  "Refresh found dm = (case found of
     Inl e \<Rightarrow> (Some e, dm)
   | Inr ifs \<Rightarrow> (None, dm\<lparr>dm_interfaces := \<lambda>i.
       (let known = filter (\<lambda>x. if_Addresses x \<noteq> [] \<and> if_Name x = i) ifs in
        if known = [] then None else Some (last known))\<rparr>))"
proof -
  have "keep_addressed ifs Map.empty = (\<lambda>i.
      (let known = filter (\<lambda>x. if_Addresses x \<noteq> [] \<and> if_Name x = i) ifs in
        if known = [] then None else Some (last known)))" for ifs
  proof (rule ext)
    fix i
    let ?ys = "filter (\<lambda>x. if_Addresses x \<noteq> [] \<and> if_Name x = i) ifs"
    have "filter (\<lambda>x. if_Addresses x \<noteq> [] \<and> if_Name x = i) (rev ifs) = rev ?ys"
      by (simp add: rev_filter)
    moreover have "(case rev ys of [] \<Rightarrow> None | x # xs \<Rightarrow> Some x) =
        (if ys = [] then None else Some (last ys))" for ys :: "pcap_interface list"
      by (cases ys rule: rev_cases) simp_all
    ultimately show "keep_addressed ifs Map.empty i =
        (let known = ?ys in if known = [] then None else Some (last known))"
      by (simp add: keep_addressed_lookup Let_def)
  qed
  then show ?thesis by (simp add: Refresh_def split: sum.split)
qed

text \<open>
  \<^verbatim>\<open>GetLoopback\<close> returns the name of an interface that has a loopback address, and
  the empty name exactly when no interface has one.
\<close>

theorem GetLoopback_correct:
  assumes "enumerates ks (dm_interfaces dm)" and "dm_interfaces dm '''' = None"
  shows "let has = (\<lambda>i. \<exists>x. dm_interfaces dm i = Some x \<and> (\<exists>a\<in>set (if_Addresses x). is_loopback (ia_IP a)))
    in if GetLoopback ks dm = '''' then \<forall>i. \<not> has i else has (GetLoopback ks dm)"
proof -
  have ks: "set ks = dom (dm_interfaces dm)" using assms(1) by (simp add: enumerates_def)
  have "[] \<notin> set ks" using assms(2) ks by auto
  note none = GetLoopback_none [OF this, of dm]
  show ?thesis
  proof (cases "GetLoopback ks dm = []")
    case True
    with none ks show ?thesis by (auto simp: Let_def ball_dom_the [where P = "\<lambda>i x. \<forall>a\<in>set (if_Addresses x). \<not> is_loopback (ia_IP a)"])
  next
    case False
    note lb = GetLoopback_in [OF this]
    with ks obtain x where "dm_interfaces dm (GetLoopback ks dm) = Some x" by (auto simp: dom_def)
    with False lb show ?thesis by (simp add: Let_def)
  qed
qed

definition lo_dm :: device_manager where
  "lo_dm = empty_dm\<lparr>dm_interfaces := [''lo'' \<mapsto> \<lparr>if_Name = ''lo'', if_Addresses =
     [\<lparr>ia_IP = [127, 0, 0, 1], ia_Netmask = [255, 0, 0, 0], ia_Broadaddr = [], ia_P2P = []\<rparr>]\<rparr>]\<rparr>"

theorem GetLoopback_correct_witness:
  "GetLoopback [''lo''] lo_dm = ''lo'' \<and> (\<exists>x. dm_interfaces lo_dm ''lo'' = Some x)"
proof -
  have "GetLoopback [''lo''] lo_dm = ''lo''" by (simp add: lo_dm_def is_loopback_def)
  moreover have "enumerates [''lo''] (dm_interfaces lo_dm)" "dm_interfaces lo_dm '''' = None"
    by (simp_all add: lo_dm_def empty_dm_def enumerates_def)
  ultimately show ?thesis using GetLoopback_correct [of "[''lo'']" lo_dm] by (auto simp: Let_def)
qed

text \<open>
  C40. Every link type that the device manager accepts, on whatever operating system, is one
  that packets are rewritten for and decoded for again: building the link layer of an
  interface it opened fails only for a missing MAC on Ethernet, and a rewritten frame is
  decoded from its link layer (Ethernet or loopback), or from IPv4 where it has none, never as
  an opaque payload.
\<close>

theorem accepted_link_types_are_supported:
  assumes "isValidLinkType goos (ro_EgressLinkType opts)"
  shows "((\<exists>ls. link_layers lib opts = Inr ls) \<longleftrightarrow>
      (ro_EgressLinkType opts = LinkTypeEthernet \<longrightarrow> ro_SourceMAC opts \<noteq> [] \<and>
         (ro_ForceBroadcastDestMAC opts \<or> ro_TargetMAC opts \<noteq> [] \<or> ro_AllowBroadcastDstMAC opts))) \<and>
    packetFromLinkType lib raw (ro_EgressLinkType opts) = gl_new_packet lib raw
      (if ro_EgressLinkType opts = LinkTypeEthernet then LayerTypeEthernet
       else if ro_EgressLinkType opts \<in> {LinkTypeNull, LinkTypeLoop} then LayerTypeLoopback
       else LayerTypeIPv4)"
proof
  show "(\<exists>ls. link_layers lib opts = Inr ls) \<longleftrightarrow>
      (ro_EgressLinkType opts = LinkTypeEthernet \<longrightarrow> ro_SourceMAC opts \<noteq> [] \<and>
         (ro_ForceBroadcastDestMAC opts \<or> ro_TargetMAC opts \<noteq> [] \<or> ro_AllowBroadcastDstMAC opts))"
    using assms
    by (auto simp: link_layers_ok can_address_def supported_link_type_def isValidLinkType_def
        split: if_splits)
qed (use assms in \<open>auto simp: packetFromLinkType_def isValidLinkType_def split: if_splits\<close>)

theorem accepted_link_types_are_supported_witness:
  "(\<exists>ls. link_layers toy_lib (example_options []\<lparr>ro_EgressLinkType := LinkTypeRawOthers\<rparr>) = Inr ls) \<and>
   packetFromLinkType toy_lib [69] LinkTypeRawOthers = gl_new_packet toy_lib [69] LayerTypeIPv4"
  using accepted_link_types_are_supported [of "''linux''"
      "example_options []\<lparr>ro_EgressLinkType := LinkTypeRawOthers\<rparr>" toy_lib "[69]"]
  by (simp add: isValidLinkType_def link_type_defs)

text \<open>
  On an unsupported link type the handle is used after it was closed: its link type is
  read for the error message once \<^verbatim>\<open>Close\<close> has been called, for readers and writers.
\<close>

theorem unsupported_link_type_reads_closed_handle:
  "pc_misused (snd (snd (CreateReaderHandle ''linux'' show_lt (all_well 3 LinkTypeRawOpenBSD) ''tun0''
     promisc timeout (empty_dm, no_pcap)))) = [3] \<and>
   pc_misused (snd (snd (CreateIsolatedWriterHandle ''linux'' show_lt (all_well 3 LinkTypeRawOpenBSD)
     ''tun0'' (empty_dm, no_pcap)))) = [3]"
  by (simp add: CreateReaderHandle_def CreateIsolatedWriterHandle_def pcap_examples
      activate_reader_def newWriterHandle_def pcap_ops isValidLinkType_def link_type_defs)

end
