(* ===== verification/Backoff.thy ===== *)
theory Backoff
  imports GoPrelude
begin

text \<open>
  The delays of the two reconnect loops (\<^verbatim>\<open>reconnect\<close> in
  \<^verbatim>\<open>internal/proxy/stages/pcap_source.go\<close> and \<^verbatim>\<open>reconnectLoop\<close> in \<^verbatim>\<open>transmitter.go\<close>):
  they start at one second and double after every failed attempt, up to thirty.
\<close>

definition Second :: duration where "Second = 1000000000"

definition reconnectInitialDelay :: duration where
  "reconnectInitialDelay = 1 * Second"

definition reconnectMaxDelay :: duration where
  "reconnectMaxDelay = 30 * Second"

definition next_delay :: "duration \<Rightarrow> duration" where
  "next_delay delay =
     (if delay < reconnectMaxDelay then
        let doubled = delay * 2 in if doubled > reconnectMaxDelay then reconnectMaxDelay else doubled
      else delay)"

text \<open>What a retry loop promises of its delays, whatever their unit.\<close>

locale capped_backoff =
  fixes step :: "int \<Rightarrow> int" and start :: int and cap :: int
  assumes start_pos: "0 < start" and start_cap: "start \<le> cap"
    and step_eq: "0 < d \<Longrightarrow> d \<le> cap \<Longrightarrow> step d = min (2 * d) cap"
begin

lemma delay_after: "(step ^^ n) start = min (2 ^ n * start) cap"
proof (induction n)
  case 0
  then show ?case using start_cap by simp
next
  case (Suc n)
  have "0 < 2 ^ n * start" and "0 < cap" using start_pos start_cap by simp_all
  moreover from this have "step (min (2 ^ n * start) cap) = min (2 * min (2 ^ n * start) cap) cap"
    by (intro step_eq) simp_all
  ultimately show ?case by (simp add: Suc min_def mult.assoc)
qed

lemma delay_bounds: "start \<le> (step ^^ n) start \<and> (step ^^ n) start \<le> cap"
proof -
  have "1 * start \<le> 2 ^ n * start" using start_pos by (intro mult_right_mono) simp_all
  then show ?thesis using start_cap by (simp add: delay_after)
qed

lemma delay_mono: "(step ^^ n) start \<le> (step ^^ Suc n) start"
  using start_pos by (simp add: delay_after min.coboundedI1 mult.assoc del: funpow.simps)

end

interpretation backoff: capped_backoff next_delay reconnectInitialDelay reconnectMaxDelay
  by unfold_locales
    (simp_all add: next_delay_def reconnectInitialDelay_def reconnectMaxDelay_def Second_def Let_def)

lemma reconnect_delay_after:
  "(next_delay ^^ n) reconnectInitialDelay = min (2 ^ n * Second) (30 * Second)"
  using backoff.delay_after [of n] by (simp add: reconnectInitialDelay_def reconnectMaxDelay_def)

section \<open>Properties\<close>

text \<open>
  After \<open>n\<close> failed attempts a reconnect loop waits \<open>2 ^ n\<close> seconds or thirty,
  whichever is less; the wait is never below one second and never shrinks.
\<close>

theorem reconnect_delay:
  "(next_delay ^^ n) reconnectInitialDelay = min (2 ^ n * Second) (30 * Second) \<and>
   Second \<le> (next_delay ^^ n) reconnectInitialDelay \<and>
   (next_delay ^^ n) reconnectInitialDelay \<le> (next_delay ^^ Suc n) reconnectInitialDelay"
  using backoff.delay_bounds [of n] backoff.delay_mono [of n]
  by (simp add: reconnect_delay_after) (simp add: reconnectInitialDelay_def)

end
