(* ===== verification/PcapSource.thy ===== *)
theory PcapSource
  imports DeviceManager Backoff Pipeline
begin

text \<open>
  \<^verbatim>\<open>internal/proxy/stages/pcap_source.go\<close>: the source that reads the packets of an
  interface and opens it again when it comes back.  \<^verbatim>\<open>Read\<close> and \<^verbatim>\<open>reconnect\<close> wait in
  \<^verbatim>\<open>select\<close> statements while a monitor goroutine watches the interface, so the source is
  a state machine: an event says which case of the waiting \<^verbatim>\<open>select\<close> fires, or that the
  monitor's ticker does, with what the environment answers.
\<close>

section \<open>State\<close>

datatype read_pc =
    Idle
  | Selecting
  | Reconnecting duration string
  | Returned "packet option" "go_error option"

record pcap_source =
  so_iname :: string
  so_promisc :: bool
  so_timeout :: duration
  so_handle :: nat
  so_packets :: nat             \<comment> \<open>the handle that feeds the channel of packets\<close>
  so_signal :: bool             \<comment> \<open>\<^verbatim>\<open>reconnectSignal\<close>, of capacity 1, is full\<close>
  so_monitorCancel :: bool      \<comment> \<open>\<^verbatim>\<open>monitorCancel\<close> is not nil\<close>
  so_monitoring :: bool         \<comment> \<open>the monitor's context is not cancelled\<close>
  so_wasDown :: bool            \<comment> \<open>\<^verbatim>\<open>interfaceWasDown\<close>\<close>
  so_pc :: read_pc

type_synonym source_state = "pcap_source \<times> dm_state"

datatype source_event =
    CallRead
  | CtxDone go_error                                \<comment> \<open>with \<^verbatim>\<open>ctx.Err()\<close>\<close>
  | TakeSignal
  | Deliver gopacket capture_info
  | ChannelClosed
  | TimerFires pcap_answers
  | MonitorTick "go_error + pcap_interface list"    \<comment> \<open>with what \<^verbatim>\<open>FindAllDevs\<close> returns\<close>

section \<open>Operations\<close>

definition startInterfaceMonitor :: "pcap_source \<Rightarrow> pcap_source" where
  "startInterfaceMonitor src =
     src\<lparr>so_monitorCancel := True, so_monitoring := True, so_wasDown := False\<rparr>"

definition NewPcapSource :: "string \<Rightarrow> (link_type \<Rightarrow> string) \<Rightarrow> pcap_answers \<Rightarrow> string \<Rightarrow> bool \<Rightarrow>
    duration \<Rightarrow> dm_state \<Rightarrow> (go_error + pcap_source) \<times> dm_state" where
  "NewPcapSource goos show_lt ans iname promisc timeout s =
     (case CreateReaderHandle goos show_lt ans iname promisc timeout s of
        (Inl err, s') \<Rightarrow> (Inl err, s')
      | (Inr handle, s') \<Rightarrow> (Inr (startInterfaceMonitor
          \<lparr>so_iname = iname, so_promisc = promisc, so_timeout = timeout, so_handle = handle,
           so_packets = handle, so_signal = False, so_monitorCancel = False,
           so_monitoring = False, so_wasDown = False, so_pc = Idle\<rparr>), s'))"

text \<open>One tick of the monitor.\<close>

definition monitor_tick :: "go_error + pcap_interface list \<Rightarrow> source_state \<Rightarrow> source_state" where
  "monitor_tick found = (\<lambda>(src, dm, os).
     case InterfaceAvailable found (so_iname src) dm of (available, dm') \<Rightarrow>
       if \<not> available then (src\<lparr>so_wasDown := True\<rparr>, dm', os)
       else if so_wasDown src then (src\<lparr>so_signal := True, so_wasDown := False\<rparr>, dm', os)
       else (src, dm', os))"

text \<open>
  The start of \<^verbatim>\<open>reconnect\<close> (the error of closing the old handle is ignored), and its turn
  after the timer.
\<close>

definition reconnect :: "string \<Rightarrow> source_state \<Rightarrow> source_state" where
  "reconnect reason = (\<lambda>(src, s).
     case CloseDevice (so_iname src) Reader s of (err, s') \<Rightarrow>
       (src\<lparr>so_pc := Reconnecting reconnectInitialDelay reason\<rparr>, s'))"

definition reconnect_attempt :: "string \<Rightarrow> (link_type \<Rightarrow> string) \<Rightarrow> pcap_answers \<Rightarrow> duration \<Rightarrow>
    string \<Rightarrow> source_state \<Rightarrow> source_state" where
  "reconnect_attempt goos show_lt ans delay reason = (\<lambda>(src, s).
     case CreateReaderHandle goos show_lt ans (so_iname src) (so_promisc src) (so_timeout src) s of
       (Inl err, s') \<Rightarrow> (src\<lparr>so_pc := Reconnecting (next_delay delay) reason\<rparr>, s')
     | (Inr handle, s') \<Rightarrow>
         (src\<lparr>so_handle := handle, so_packets := handle, so_pc := Selecting\<rparr>, s'))"

definition received :: "pcap_source \<Rightarrow> gopacket \<Rightarrow> capture_info \<Rightarrow> packet" where
  "received src g ci = \<lparr>pk_Raw = gp_data g, pk_Metadata = ci, pk_Packet = Some g,
     pk_ArrivalInterface = so_iname src\<rparr>"

text \<open>
  The step an event makes, \<open>None\<close> when the source does not wait for it.  The pipeline does
  not call \<^verbatim>\<open>Read\<close> again once it has returned the error of its context.
\<close>

fun source_step :: "string \<Rightarrow> (link_type \<Rightarrow> string) \<Rightarrow> source_event \<Rightarrow> source_state \<Rightarrow>
    source_state option" where
  "source_step goos show_lt CallRead (src, s) =
     (case so_pc src of
        Idle \<Rightarrow> Some (src\<lparr>so_pc := Selecting\<rparr>, s)
      | Returned pkt None \<Rightarrow> Some (src\<lparr>so_pc := Selecting\<rparr>, s)
      | _ \<Rightarrow> None)"
| "source_step goos show_lt (CtxDone err) (src, s) =
     (case so_pc src of
        Selecting \<Rightarrow> Some (src\<lparr>so_pc := Returned None (Some err)\<rparr>, s)
      | Reconnecting delay reason \<Rightarrow> Some (src\<lparr>so_pc := Returned None (Some err)\<rparr>, s)
      | _ \<Rightarrow> None)"
| "source_step goos show_lt TakeSignal (src, s) =
     (case so_pc src of
        Selecting \<Rightarrow>
          if so_signal src then Some (reconnect ''interface_down_up'' (src\<lparr>so_signal := False\<rparr>, s))
          else None
      | _ \<Rightarrow> None)"
| "source_step goos show_lt (Deliver g ci) (src, s) =
     (case so_pc src of
        Selecting \<Rightarrow> Some (src\<lparr>so_pc := Returned (Some (received src g ci)) None\<rparr>, s)
      | _ \<Rightarrow> None)"
| "source_step goos show_lt ChannelClosed (src, s) =
     (case so_pc src of
        Selecting \<Rightarrow> Some (reconnect ''packets_channel_closed'' (src, s))
      | _ \<Rightarrow> None)"
| "source_step goos show_lt (TimerFires ans) (src, s) =
     (case so_pc src of
        Reconnecting delay reason \<Rightarrow>
          Some (reconnect_attempt goos show_lt ans delay reason (src, s))
      | _ \<Rightarrow> None)"
| "source_step goos show_lt (MonitorTick found) (src, s) =
     (if so_monitoring src then Some (monitor_tick found (src, s)) else None)"

definition PcapSourceClose :: "source_state \<Rightarrow> go_error option \<times> source_state" where
  "PcapSourceClose = (\<lambda>(src, s).
     let src' = (if so_monitorCancel src then src\<lparr>so_monitoring := False\<rparr> else src) in
     case CloseDevice (so_iname src) Reader s of (err, s') \<Rightarrow> (err, src', s'))"

definition PcapSourceName :: "pcap_source \<Rightarrow> string" where
  "PcapSourceName src = ''PcapSource:'' @ so_iname src"

section \<open>A call of Read\<close>

text \<open>
  \<^verbatim>\<open>Read\<close> as a function of the events that happen: it runs over them until it returns,
  ignoring the ones it does not wait for, and is \<open>None\<close> when they run out before.
\<close>

fun read_events :: "string \<Rightarrow> (link_type \<Rightarrow> string) \<Rightarrow> source_event list \<Rightarrow> source_state \<Rightarrow>
    (packet option \<times> go_error option \<times> source_state \<times> source_event list) option" where
  "read_events goos show_lt [] st = None"
| "read_events goos show_lt (e # es) st =
     (case source_step goos show_lt e st of
        None \<Rightarrow> read_events goos show_lt es st
      | Some st' \<Rightarrow>
          (case so_pc (fst st') of
             Returned pkt err \<Rightarrow> Some (pkt, err, st', es)
           | _ \<Rightarrow> read_events goos show_lt es st'))"

definition Read :: "string \<Rightarrow> (link_type \<Rightarrow> string) \<Rightarrow> source_event list \<Rightarrow> source_state \<Rightarrow>
    (packet option \<times> go_error option \<times> source_state \<times> source_event list) option" where
  "Read goos show_lt es st = read_events goos show_lt es (apfst (so_pc_update (\<lambda>_. Selecting)) st)"

section \<open>Invariant\<close>

text \<open>
  The sources of a program, which share the device manager: one is opened for an interface that
  has none yet, one makes a step, one is closed once its \<^verbatim>\<open>Read\<close> has returned the error of its
  context; in between transmitters open handles of their own (\<open>ws\<close>) and close them, and the set-up
  sets filters.
\<close>

inductive source_run :: "string \<Rightarrow> (link_type \<Rightarrow> string) \<Rightarrow> pcap_source list \<times> nat set \<times> dm_state \<Rightarrow>
    pcap_source list \<times> nat set \<times> dm_state \<Rightarrow> bool" for goos show_lt where
  opens: "iname \<notin> so_iname ` set srcs \<Longrightarrow> fresh ans s \<Longrightarrow>
    NewPcapSource goos show_lt ans iname promisc timeout s = (r, s') \<Longrightarrow>
    source_run goos show_lt (srcs, ws, s) (srcs @ (case r of Inl e \<Rightarrow> [] | Inr src \<Rightarrow> [src]), ws, s')"
| event: "i < length srcs \<Longrightarrow> source_step goos show_lt e (srcs ! i, s) = Some (src, s') \<Longrightarrow>
    (\<And>ans. e = TimerFires ans \<Longrightarrow> fresh ans s) \<Longrightarrow>
    source_run goos show_lt (srcs, ws, s) (srcs[i := src], ws, s')"
| closes: "i < length srcs \<Longrightarrow> so_pc (srcs ! i) = Returned pkt (Some err) \<Longrightarrow>
    PcapSourceClose (srcs ! i, s) = (r, src, s') \<Longrightarrow>
    source_run goos show_lt (srcs, ws, s) (srcs[i := src], ws, s')"
| isolates: "fresh ans s \<Longrightarrow> CreateIsolatedWriterHandle goos show_lt ans iname s = (r, s') \<Longrightarrow>
    source_run goos show_lt (srcs, ws, s) (srcs, (case r of Inl e \<Rightarrow> ws | Inr h \<Rightarrow> insert h ws), s')"
| releases: "h \<in> ws \<Longrightarrow>
    source_run goos show_lt (srcs, ws, dm, os) (srcs, ws - {h}, dm, close_handle h os)"
| filters: "source_run goos show_lt (srcs, ws, dm, os)
    (srcs, ws, dm, os\<lparr>pc_filter := (pc_filter os)(h \<mapsto> bpf)\<rparr>)"

inductive_cases source_runE: "source_run goos show_lt st st'"

definition source_inv :: "source_state \<Rightarrow> bool" where
  "source_inv = (\<lambda>(src, s). dm_ok s \<and> so_packets src = so_handle src \<and>
     (let cached = cached_handle (so_iname src) Reader s in
      case so_pc src of
        Reconnecting delay reason \<Rightarrow> cached = None \<and>
          (\<exists>n. delay = (next_delay ^^ n) reconnectInitialDelay)
      | Returned pkt (Some err) \<Rightarrow> cached \<in> {None, Some (so_handle src)}
      | _ \<Rightarrow> cached = Some (so_handle src)))"

lemma monitor_tick_frame:
  "monitor_tick found (src, dm, os) = (src', dm', os') \<Longrightarrow>
     os' = os \<and> dm_handles dm' = dm_handles dm \<and> so_pc src' = so_pc src \<and>
     so_handle src' = so_handle src \<and> so_packets src' = so_packets src \<and>
     so_iname src' = so_iname src"
  by (auto simp: monitor_tick_def InterfaceAvailable_def Refresh_def Let_def
      split: if_splits sum.splits)

lemma source_inv_monitor:
  assumes "source_inv (src, s)"
  shows "source_inv (monitor_tick found (src, s))"
proof -
  obtain dm os where s: "s = (dm, os)" by (cases s)
  obtain src' dm' os' where m: "monitor_tick found (src, s) = (src', dm', os')"
    by (cases "monitor_tick found (src, s)") auto
  from monitor_tick_frame [OF m [unfolded s]] assms show ?thesis
    unfolding s using m [unfolded s] by (auto simp: source_inv_def dm_ok_def cached_handle_def Let_def
        split: read_pc.splits option.splits)
qed

lemma source_inv_reconnect:
  assumes "source_inv (src, s)" and "so_pc src = Selecting"
  shows "source_inv (reconnect reason (src\<lparr>so_signal := b\<rparr>, s))"
proof -
  have ok: "dm_ok s" using assms(1) by (simp add: source_inv_def)
  from reader_cache.close_done [OF ok, of "so_iname src"] assms show ?thesis
    by (auto simp: reconnect_def source_inv_def split_beta intro: exI [of _ 0])
qed

lemma source_inv_attempt:
  assumes "source_inv (src, s)" and "so_pc src = Reconnecting delay reason" and "fresh ans s"
  shows "source_inv (reconnect_attempt goos show_lt ans delay reason (src, s))"
proof -
  let ?c = "CreateReaderHandle goos show_lt ans (so_iname src) (so_promisc src) (so_timeout src) s"
  obtain r s' where c: "?c = (r, s')" by (cases ?c)
  from assms obtain n where ok: "dm_ok s" and none: "cached_handle (so_iname src) Reader s = None"
    and n: "delay = (next_delay ^^ n) reconnectInitialDelay"
    by (auto simp: source_inv_def)
  show ?thesis
  proof (cases r)
    case (Inl e)
    from reader_cache.create_fails [OF ok assms(3) c [unfolded Inl]] n assms(1) Inl c show ?thesis
      by (auto simp: reconnect_attempt_def source_inv_def intro: exI [of _ "Suc n"])
  next
    case (Inr h)
    from reader_cache.create_opens [OF ok assms(3) none c [unfolded Inr]] assms(1) Inr c show ?thesis
      by (simp add: reconnect_attempt_def source_inv_def)
  qed
qed

lemma source_inv_event:
  assumes "source_inv (src, s)" and "source_step goos show_lt e (src, s) = Some st'"
    and "\<And>ans. e = TimerFires ans \<Longrightarrow> fresh ans s"
  shows "source_inv st'"
proof (cases e)
  case TakeSignal
  with assms(1,2) source_inv_reconnect [of src s _ False] show ?thesis
    by (auto split: read_pc.splits if_splits)
next
  case ChannelClosed
  with assms(1,2) source_inv_reconnect [of src s _ "so_signal src"] show ?thesis
    by (auto split: read_pc.splits)
next
  case (TimerFires ans)
  with assms source_inv_attempt [of src s _ _ ans] show ?thesis
    by (auto split: read_pc.splits)
next
  case (MonitorTick found)
  with assms source_inv_monitor [of src s found] show ?thesis
    by (auto simp del: split_paired_All split: if_splits)
qed (use assms in \<open>auto simp: source_inv_def split: read_pc.splits option.splits\<close>)

lemma source_inv_New:
  assumes "dm_ok s" and "fresh ans s"
    and "NewPcapSource goos show_lt ans iname promisc timeout s = (Inr src, s')"
  shows "source_inv (src, s')"
proof -
  from assms(3) obtain h where
    c: "CreateReaderHandle goos show_lt ans iname promisc timeout s = (Inr h, s')"
    and src: "so_iname src = iname" "so_handle src = h" "so_packets src = h" "so_pc src = Idle"
    by (auto simp: NewPcapSource_def startInterfaceMonitor_def split: prod.splits sum.splits)
  from reader_cache.create_stable [OF assms(1,2) c] src show ?thesis
    by (simp add: source_inv_def)
qed

lemma source_inv_close:
  assumes "source_inv (src, s)" and "so_pc src = Returned pkt (Some err)"
    and "PcapSourceClose (src, s) = (r, src', s')"
  shows "source_inv (src', s') \<and> so_iname src' = so_iname src"
proof -
  have "dm_ok s" using assms(1) by (simp add: source_inv_def)
  from reader_cache.close_done [OF this, of "so_iname src"] assms show ?thesis
    by (auto simp: PcapSourceClose_def source_inv_def Let_def split: prod.splits)
qed

text \<open>What a source does to the cache it does to the entry of its own interface only.\<close>

lemma reader_key: "deviceManagerKey i Reader = deviceManagerKey j Reader \<longleftrightarrow> i = j"
  using deviceManagerKey_inject [of i Reader j Reader] by auto

lemma CreateReaderHandle_frame:
  "CreateReaderHandle goos show_lt ans i promisc timeout s = (r, s') \<Longrightarrow> j \<noteq> i \<Longrightarrow>
     cached_handle j Reader s' = cached_handle j Reader s"
  by (cases s) (auto simp: CreateReaderHandle_def cached_handle_def reader_key Let_def
      split: option.splits sum.splits prod.splits)

lemma CloseDevice_frame:
  "CloseDevice i Reader s = (r, s') \<Longrightarrow> j \<noteq> i \<Longrightarrow> cached_handle j Reader s' = cached_handle j Reader s"
  by (cases s) (auto simp: CloseDevice_def cached_handle_def reader_key Let_def split: option.splits)

lemma source_step_frame:
  assumes "source_step goos show_lt e (src, s) = Some (src', s')"
  shows "so_iname src' = so_iname src \<and>
    (\<forall>j. j \<noteq> so_iname src \<longrightarrow> cached_handle j Reader s' = cached_handle j Reader s)"
proof (cases e)
  case (MonitorTick found)
  obtain dm os dm' os' where s: "s = (dm, os)" "s' = (dm', os')" by (cases s, cases s')
  from MonitorTick assms have "monitor_tick found (src, dm, os) = (src', dm', os')"
    by (auto simp: s split: if_splits)
  from monitor_tick_frame [OF this] show ?thesis by (simp add: s cached_handle_def)
qed (use assms in \<open>auto simp: reconnect_def reconnect_attempt_def
    dest: CloseDevice_frame CreateReaderHandle_frame
    split: read_pc.splits option.splits if_splits prod.splits sum.splits\<close>)

lemma source_inv_other:
  "source_inv (src, s) \<Longrightarrow> dm_ok s' \<Longrightarrow>
     cached_handle (so_iname src) Reader s' = cached_handle (so_iname src) Reader s \<Longrightarrow> source_inv (src, s')"
  by (simp add: source_inv_def)

definition sources_inv :: "pcap_source list \<times> dm_state \<Rightarrow> bool" where
  "sources_inv = (\<lambda>(srcs, s). dm_ok s \<and> distinct (map so_iname srcs) \<and>
     (\<forall>src\<in>set srcs. source_inv (src, s)))"

lemma sources_inv_update:
  assumes "sources_inv (srcs, s)" and "i < length srcs" and "source_inv (src, s')"
    and "so_iname src = so_iname (srcs ! i)"
    and "\<And>j. j \<noteq> so_iname (srcs ! i) \<Longrightarrow> cached_handle j Reader s' = cached_handle j Reader s"
  shows "sources_inv (srcs[i := src], s')"
proof -
  have ok: "dm_ok s'" using assms(3) by (simp add: source_inv_def)
  have d: "distinct (map so_iname srcs)" using assms(1) by (simp add: sources_inv_def)
  have names: "map so_iname (srcs[i := src]) = map so_iname srcs"
    using assms(4) by (metis list_update_id map_update nth_map assms(2))
  have "source_inv (x, s')" if x: "x \<in> set (srcs[i := src])" for x
  proof -
    from x obtain j where j: "j < length srcs" "x = srcs[i := src] ! j" by (auto simp: in_set_conv_nth)
    show ?thesis
    proof (cases "j = i")
      case True
      with j assms(3) show ?thesis by simp
    next
      case False
      then have x: "x = srcs ! j" using j by simp
      have "map so_iname srcs ! j \<noteq> map so_iname srcs ! i"
        using d j(1) assms(2) False by (metis length_map nth_eq_iff_index_eq)
      then have "so_iname x \<noteq> so_iname (srcs ! i)" using j(1) assms(2) x by simp
      moreover have "source_inv (x, s)" using assms(1) j(1) x by (auto simp: sources_inv_def)
      ultimately show ?thesis using source_inv_other [OF _ ok] assms(5) by blast
    qed
  qed
  with d names ok show ?thesis by (simp add: sources_inv_def)
qed

lemma sources_inv_manager:
  assumes "sources_inv (srcs, s)" and "dm_ok s'"
    and "\<And>j. cached_handle j Reader s' = cached_handle j Reader s"
  shows "sources_inv (srcs, s')"
proof -
  have "source_inv (x, s')" if "x \<in> set srcs" for x
    using assms(1) that by (intro source_inv_other [of x s s'] assms(2,3)) (simp add: sources_inv_def)
  with assms(1,2) show ?thesis by (simp add: sources_inv_def)
qed

text \<open>The open handles that are in no entry of the cache: no source closes or caches one of them.\<close>

definition loose :: "dm_state \<Rightarrow> nat set" where
  "loose s = {h \<in> live_handles s. \<forall>k. dm_handles (fst s) k \<noteq> Some h}"

lemma CloseDevice_loose: "CloseDevice i d s = (r, s') \<Longrightarrow> loose s \<subseteq> loose s'"
  by (cases s) (auto simp: CloseDevice_def loose_def live_handles_def close_handle_def Let_def
      split: option.splits if_splits)

lemma CreateReaderHandle_loose:
  assumes "fresh ans s" and "CreateReaderHandle goos show_lt ans i promisc timeout s = (r, s')"
  shows "loose s \<subseteq> loose s'"
proof -
  obtain dm os dm' os' where s: "s = (dm, os)" "s' = (dm', os')" by (cases s, cases s')
  show ?thesis
  proof (cases "dm_handles dm (deviceManagerKey i Reader)")
    case None
    from CreateReaderHandle_new [OF assms(1) [unfolded s] None assms(2) [unfolded s]] assms(1)
    show ?thesis by (cases r) (auto simp: s loose_def live_handles_def fresh_def open_handle_def)
  next
    case (Some h)
    with assms(2) show ?thesis by (simp add: s CreateReaderHandle_def)
  qed
qed

lemma source_step_loose:
  assumes "source_step goos show_lt e (src, s) = Some (src', s')"
    and "\<And>ans. e = TimerFires ans \<Longrightarrow> fresh ans s"
  shows "loose s \<subseteq> loose s'"
proof (cases e)
  case (MonitorTick found)
  obtain dm os dm' os' where s: "s = (dm, os)" "s' = (dm', os')" by (cases s, cases s')
  from MonitorTick assms have "monitor_tick found (src, dm, os) = (src', dm', os')"
    by (auto simp: s split: if_splits)
  from monitor_tick_frame [OF this] show ?thesis by (simp add: s loose_def live_handles_def)
next
  case (TimerFires ans)
  with assms show ?thesis
    by (auto simp: reconnect_attempt_def split: read_pc.splits prod.splits sum.splits
        dest!: CreateReaderHandle_loose [rotated, of _ _ ans] intro: subsetD)
qed (use assms in \<open>auto simp: reconnect_def split: read_pc.splits option.splits if_splits prod.splits
    dest!: CloseDevice_loose intro: subsetD\<close>)

lemma isolated_loose:
  assumes "fresh ans s" and "dm_ok s"
    and "CreateIsolatedWriterHandle goos show_lt ans iname s = (r, s')"
  shows "fst s' = fst s \<and> dm_ok s' \<and> (case r of Inl e \<Rightarrow> loose s | Inr h \<Rightarrow> insert h (loose s)) \<subseteq> loose s'"
proof -
  obtain dm os where s: "s = (dm, os)" by (cases s)
  obtain os' where w: "newWriterHandle goos show_lt ans iname os = (r, os')" and s': "s' = (dm, os')"
    using assms(3) by (auto simp: s CreateIsolatedWriterHandle_def split: prod.splits)
  have "an_Activate ans = Inr h \<Longrightarrow> h \<notin> set (pc_live os)" for h using assms(1) by (simp add: s fresh_def)
  from newWriterHandle_outcome [OF this w] assms(1,2) show ?thesis
    by (cases r) (auto simp: s s' fresh_def dm_ok_def open_handle_def loose_def live_handles_def)
qed

lemma sources_inv_outside:
  assumes "sources_inv (srcs, s)" and "iname \<notin> so_iname ` set srcs" and "dm_ok s'"
    and "\<And>j. j \<noteq> iname \<Longrightarrow> cached_handle j Reader s' = cached_handle j Reader s"
  shows "sources_inv (srcs, s')"
proof -
  have "source_inv (x, s')" if x: "x \<in> set srcs" for x
  proof -
    have "so_iname x \<noteq> iname" using assms(2) x by blast
    then show ?thesis
      using assms(1) x by (intro source_inv_other [of x s s'] assms(3,4)) (simp_all add: sources_inv_def)
  qed
  with assms(1,3) show ?thesis by (simp add: sources_inv_def)
qed

lemma sources_inv_opens:
  assumes "sources_inv (srcs, s)" and "iname \<notin> so_iname ` set srcs" and "fresh ans s"
    and "NewPcapSource goos show_lt ans iname promisc timeout s = (r, s')"
  shows "sources_inv (srcs @ (case r of Inl e \<Rightarrow> [] | Inr src \<Rightarrow> [src]), s')"
proof -
  have ok: "dm_ok s" using assms(1) by (simp add: sources_inv_def)
  obtain c where c: "CreateReaderHandle goos show_lt ans iname promisc timeout s = (c, s')"
    using assms(4) by (auto simp: NewPcapSource_def split: prod.splits sum.splits)
  note frame = CreateReaderHandle_frame [OF c]
  show ?thesis
  proof (cases r)
    case (Inl e)
    then obtain e' where e: "c = Inl e'" using assms(4) c by (cases c) (auto simp: NewPcapSource_def)
    from reader_cache.create_fails [OF ok assms(3) c [unfolded e]] have ok': "dm_ok s'" by blast
    from sources_inv_outside [OF assms(1,2) ok' frame] Inl show ?thesis by simp
  next
    case (Inr src)
    from source_inv_New [OF ok assms(3) assms(4) [unfolded Inr]] have inv: "source_inv (src, s')" .
    then have ok': "dm_ok s'" by (simp add: source_inv_def)
    have "so_iname src = iname" using assms(4) Inr
      by (auto simp: NewPcapSource_def startInterfaceMonitor_def split: prod.splits sum.splits)
    moreover have "sources_inv (srcs, s')" by (rule sources_inv_outside [OF assms(1,2) ok' frame])
    ultimately show ?thesis using assms(2) inv Inr by (simp add: sources_inv_def)
  qed
qed

definition program_inv :: "pcap_source list \<times> nat set \<times> dm_state \<Rightarrow> bool" where
  "program_inv = (\<lambda>(srcs, ws, s). sources_inv (srcs, s) \<and> ws \<subseteq> loose s)"

lemma program_inv_opens:
  assumes "program_inv (srcs, ws, s)" and "iname \<notin> so_iname ` set srcs" and "fresh ans s"
    and "NewPcapSource goos show_lt ans iname promisc timeout s = (r, s')"
  shows "program_inv (srcs @ (case r of Inl e \<Rightarrow> [] | Inr src \<Rightarrow> [src]), ws, s')"
proof -
  obtain c where "CreateReaderHandle goos show_lt ans iname promisc timeout s = (c, s')"
    using assms(4) by (auto simp: NewPcapSource_def split: prod.splits sum.splits)
  from CreateReaderHandle_loose [OF assms(3) this] sources_inv_opens [OF _ assms(2-4)] assms(1)
  show ?thesis by (simp add: program_inv_def) blast
qed

lemma program_inv_event:
  assumes "program_inv (srcs, ws, s)" and "i < length srcs"
    and "source_step goos show_lt e (srcs ! i, s) = Some (src, s')"
    and "\<And>ans. e = TimerFires ans \<Longrightarrow> fresh ans s"
  shows "program_inv (srcs[i := src], ws, s')"
proof -
  from assms(1) have inv: "sources_inv (srcs, s)" and ws: "ws \<subseteq> loose s" by (simp_all add: program_inv_def)
  from inv assms(2) have "source_inv (srcs ! i, s)" by (simp add: sources_inv_def)
  from source_inv_event [OF this assms(3,4)] have "source_inv (src, s')" .
  from sources_inv_update [OF inv assms(2) this] source_step_frame [OF assms(3)]
  have "sources_inv (srcs[i := src], s')" by simp
  with source_step_loose [OF assms(3,4)] ws show ?thesis by (auto simp: program_inv_def)
qed

lemma program_inv_closes:
  assumes "program_inv (srcs, ws, s)" and "i < length srcs"
    and "so_pc (srcs ! i) = Returned pkt (Some err)" and "PcapSourceClose (srcs ! i, s) = (r, src, s')"
  shows "program_inv (srcs[i := src], ws, s')"
proof -
  from assms(1) have inv: "sources_inv (srcs, s)" and ws: "ws \<subseteq> loose s" by (simp_all add: program_inv_def)
  from inv assms(2) have "source_inv (srcs ! i, s)" by (simp add: sources_inv_def)
  from source_inv_close [OF this assms(3,4)] have src: "source_inv (src, s')"
    "so_iname src = so_iname (srcs ! i)" by simp_all
  obtain e where c: "CloseDevice (so_iname (srcs ! i)) Reader s = (e, s')"
    using assms(4) by (auto simp: PcapSourceClose_def Let_def split: prod.splits)
  from sources_inv_update [OF inv assms(2) src CloseDevice_frame [OF c]] CloseDevice_loose [OF c] ws
  show ?thesis by (auto simp: program_inv_def)
qed

lemma program_inv_isolates:
  assumes "program_inv (srcs, ws, s)" and "fresh ans s"
    and "CreateIsolatedWriterHandle goos show_lt ans iname s = (r, s')"
  shows "program_inv (srcs, (case r of Inl e \<Rightarrow> ws | Inr h \<Rightarrow> insert h ws), s')"
proof -
  from assms(1) have inv: "sources_inv (srcs, s)" and ws: "ws \<subseteq> loose s" by (simp_all add: program_inv_def)
  from inv have "dm_ok s" by (simp add: sources_inv_def)
  from isolated_loose [OF assms(2) this assms(3)] have s': "fst s' = fst s" "dm_ok s'"
    "(case r of Inl e \<Rightarrow> loose s | Inr h \<Rightarrow> insert h (loose s)) \<subseteq> loose s'" by simp_all
  from sources_inv_manager [OF inv s'(2)] s'(1) have "sources_inv (srcs, s')"
    by (simp add: cached_handle_def)
  moreover have "(case r of Inl e \<Rightarrow> ws | Inr h \<Rightarrow> insert h ws) \<subseteq> loose s'"
    using s'(3) ws by (cases r) auto
  ultimately show ?thesis by (simp add: program_inv_def)
qed

lemma program_inv_releases:
  assumes "program_inv (srcs, ws, dm, os)" and "h \<in> ws"
  shows "program_inv (srcs, ws - {h}, dm, close_handle h os)"
proof -
  from assms have inv: "sources_inv (srcs, dm, os)" and h: "\<forall>k. dm_handles dm k \<noteq> Some h"
    and ws: "ws \<subseteq> loose (dm, os)" by (auto simp: program_inv_def loose_def)
  from inv h have "dm_ok (dm, close_handle h os)"
    by (auto simp: sources_inv_def dm_ok_def close_handle_def)
  from sources_inv_manager [OF inv this] have "sources_inv (srcs, dm, close_handle h os)"
    by (simp add: cached_handle_def)
  moreover have "ws - {h} \<subseteq> loose (dm, close_handle h os)"
    using ws by (auto simp: loose_def live_handles_def close_handle_def)
  ultimately show ?thesis by (simp add: program_inv_def)
qed

lemma program_inv_filters:
  assumes "program_inv (srcs, ws, dm, os)"
  shows "program_inv (srcs, ws, dm, os\<lparr>pc_filter := f\<rparr>)"
proof -
  from assms have inv: "sources_inv (srcs, dm, os)" by (simp add: program_inv_def)
  then have "dm_ok (dm, os\<lparr>pc_filter := f\<rparr>)" by (simp add: sources_inv_def dm_ok_def)
  from sources_inv_manager [OF inv this] assms show ?thesis
    by (simp add: program_inv_def cached_handle_def loose_def live_handles_def)
qed

lemmas program_inv_steps = program_inv_opens program_inv_event program_inv_closes
  program_inv_isolates program_inv_releases program_inv_filters

lemma source_run_inv: "source_run goos show_lt st st' \<Longrightarrow> program_inv st \<Longrightarrow> program_inv st'"
  by (induction rule: source_run.induct) (rule program_inv_steps; assumption)+

lemma source_reachable_inv: "(source_run goos show_lt)\<^sup>*\<^sup>* st st' \<Longrightarrow> program_inv st \<Longrightarrow> program_inv st'"
  by (induction rule: rtranclp_induct) (auto intro: source_run_inv)

text \<open>What the invariant says of the handles of two sources.\<close>

lemma cached_live: "dm_ok s \<Longrightarrow> cached_handle i Reader s = Some h \<Longrightarrow> h \<in> live_handles s"
  by (cases s) (simp add: dm_ok_def cached_handle_def live_handles_def)

lemma cached_apart:
  assumes "dm_ok s" and "cached_handle i Reader s = Some h" and "cached_handle j Reader s = Some h"
  shows "i = j"
proof -
  obtain dm os where s: "s = (dm, os)" by (cases s)
  from assms(2,3) have "dm_handles dm (deviceManagerKey i Reader) = Some h"
    "dm_handles dm (deviceManagerKey j Reader) = Some h" by (simp_all add: s cached_handle_def)
  moreover have "\<forall>k k' h. dm_handles dm k = Some h \<longrightarrow> dm_handles dm k' = Some h \<longrightarrow> k = k'"
    using assms(1) by (simp add: s dm_ok_def)
  ultimately have "deviceManagerKey i Reader = deviceManagerKey j Reader" by (metis (no_types))
  then show ?thesis by (simp add: reader_key)
qed

lemma waiting_source:
  assumes "source_inv (src, s)" and "so_pc src = Selecting"
  shows "cached_handle (so_iname src) Reader s = Some (so_handle src) \<and>
    so_handle src \<in> live_handles s \<and> so_packets src = so_handle src"
  using assms cached_live [of s "so_iname src" "so_handle src"] by (simp add: source_inv_def)

lemma waiting_sources_apart:
  assumes "sources_inv (srcs, s)" and "i < length srcs" and "j < length srcs" and "i \<noteq> j"
    and "so_pc (srcs ! i) = Selecting" and "so_pc (srcs ! j) = Selecting"
  shows "so_handle (srcs ! j) \<noteq> so_handle (srcs ! i)"
proof
  assume same: "so_handle (srcs ! j) = so_handle (srcs ! i)"
  from assms(1-3) have "source_inv (srcs ! i, s)" "source_inv (srcs ! j, s)" and ok: "dm_ok s"
    by (simp_all add: sources_inv_def)
  with waiting_source assms(5,6) same have
    "cached_handle (so_iname (srcs ! i)) Reader s = Some (so_handle (srcs ! i))"
    "cached_handle (so_iname (srcs ! j)) Reader s = Some (so_handle (srcs ! i))" by auto
  from cached_apart [OF ok this] have "map so_iname srcs ! i = map so_iname srcs ! j"
    using assms(2,3) by simp
  moreover have "distinct (map so_iname srcs)" using assms(1) by (simp add: sources_inv_def)
  ultimately show False using assms(2-4) nth_eq_iff_index_eq [of "map so_iname srcs" i j]
    by (simp del: nth_map)
qed

section \<open>Sequences of events\<close>

fun steps :: "string \<Rightarrow> (link_type \<Rightarrow> string) \<Rightarrow> source_event list \<Rightarrow> source_state \<Rightarrow>
    source_state option" where
  "steps goos show_lt [] st = Some st"
| "steps goos show_lt (e # es) st =
     Option.bind (source_step goos show_lt e st) (steps goos show_lt es)"

lemma attempt_fails:
  assumes "dm_ok s" and "fresh a s" and "\<not> reader_ready goos a"
    and "cached_handle (so_iname src) Reader s = None"
  shows "\<exists>s'. reconnect_attempt goos show_lt a d r (src, s) =
      (src\<lparr>so_pc := Reconnecting (next_delay d) r\<rparr>, s') \<and>
    dm_ok s' \<and> cached_handle (so_iname src) Reader s' = None \<and> live_handles s' = live_handles s"
proof -
  obtain dm os where s: "s = (dm, os)" by (cases s)
  let ?c = "CreateReaderHandle goos show_lt a (so_iname src) (so_promisc src) (so_timeout src) (dm, os)"
  obtain x dm' os' where c: "?c = (x, dm', os')" by (cases ?c) auto
  with CreateReaderHandle_new [OF _ _ c] assms obtain e where e: "x = Inl e"
    by (cases x) (auto simp: s cached_handle_def)
  with reader_cache.create_fails [of s a goos show_lt] c assms show ?thesis
    by (auto simp: reconnect_attempt_def s)
qed

lemma attempt_succeeds:
  assumes "dm_ok s" and "fresh a s" and "reader_ready goos a" and "an_Activate a = Inr h"
    and "cached_handle (so_iname src) Reader s = None"
  shows "\<exists>s'. reconnect_attempt goos show_lt a d r (src, s) =
      (src\<lparr>so_handle := h, so_packets := h, so_pc := Selecting\<rparr>, s') \<and>
    dm_ok s' \<and> cached_handle (so_iname src) Reader s' = Some h \<and>
    live_handles s' = insert h (live_handles s) \<and> pc_filter (snd s') h = None"
proof -
  obtain dm os where s: "s = (dm, os)" by (cases s)
  let ?c = "CreateReaderHandle goos show_lt a (so_iname src) (so_promisc src) (so_timeout src) (dm, os)"
  obtain x dm' os' where c: "?c = (x, dm', os')" by (cases ?c) auto
  from CreateReaderHandle_new [OF _ _ c] assms have x: "x = Inr h"
    and os': "os' = open_handle (reader_config (so_promisc src) (so_timeout src) a (so_iname src)) h os"
    by (auto simp: s cached_handle_def)
  with reader_cache.create_opens [of s a "so_iname src" goos show_lt "so_promisc src" "so_timeout src" h]
    c assms(1,2,5)
  show ?thesis by (auto simp: reconnect_attempt_def s open_handle_def)
qed

lemma attempts:
  assumes "dm_ok s" and "cached_handle (so_iname src) Reader s = None"
    and "\<forall>a\<in>set fails. fresh a s \<and> \<not> reader_ready goos a"
    and "fresh ans s" and "reader_ready goos ans" and "an_Activate ans = Inr h"
  shows "\<exists>s'. steps goos show_lt (map TimerFires fails @ [TimerFires ans])
      (src\<lparr>so_pc := Reconnecting d r\<rparr>, s) =
      Some (src\<lparr>so_handle := h, so_packets := h, so_pc := Selecting\<rparr>, s') \<and>
    dm_ok s' \<and> cached_handle (so_iname src) Reader s' = Some h \<and>
    live_handles s' = insert h (live_handles s) \<and> pc_filter (snd s') h = None"
  using assms(1-4)
proof (induction fails arbitrary: s d)
  case Nil
  from attempt_succeeds [of s ans goos h "src\<lparr>so_pc := Reconnecting d r\<rparr>" show_lt d r] Nil assms(5,6)
  show ?case by auto
next
  case (Cons a fails)
  from attempt_fails [of s a goos "src\<lparr>so_pc := Reconnecting d r\<rparr>" show_lt d r] Cons.prems
  obtain s1 where s1: "reconnect_attempt goos show_lt a d r (src\<lparr>so_pc := Reconnecting d r\<rparr>, s) =
      (src\<lparr>so_pc := Reconnecting (next_delay d) r\<rparr>, s1)" "dm_ok s1"
    "cached_handle (so_iname src) Reader s1 = None" "live_handles s1 = live_handles s" by auto
  have "fresh x s1 \<longleftrightarrow> fresh x s" for x
    using s1(4) by (simp add: fresh_def live_handles_def split_beta)
  with Cons.IH [of s1 "next_delay d"] Cons.prems s1 show ?case by simp
qed

text \<open>The availability the monitor sees, tick by tick.\<close>

fun availability :: "string \<Rightarrow> (go_error + pcap_interface list) list \<Rightarrow> device_manager \<Rightarrow> bool list" where
  "availability iname [] dm = []"
| "availability iname (found # fs) dm =
     (case InterfaceAvailable found iname dm of (b, dm') \<Rightarrow> b # availability iname fs dm')"

definition comes_back :: "bool list \<Rightarrow> bool" where
  "comes_back bs \<longleftrightarrow> (\<exists>i j. i < j \<and> j < length bs \<and> \<not> bs ! i \<and> bs ! j)"

lemma comes_back_simps [simp]:
  "\<not> comes_back []"
  "comes_back (True # bs) \<longleftrightarrow> comes_back bs"
  "comes_back (False # bs) \<longleftrightarrow> True \<in> set bs"
proof -
  show "\<not> comes_back []" by (simp add: comes_back_def)
  show "comes_back (True # bs) \<longleftrightarrow> comes_back bs"
  proof
    assume "comes_back (True # bs)"
    then obtain i j where ij: "i < j" "j < Suc (length bs)" "\<not> (True # bs) ! i" "(True # bs) ! j"
      by (auto simp: comes_back_def)
    then obtain i' j' where "i = Suc i'" "j = Suc j'" by (cases i; cases j) auto
    with ij show "comes_back bs" by (auto simp: comes_back_def)
  next
    assume "comes_back bs"
    then obtain i j where "i < j" "j < length bs" "\<not> bs ! i" "bs ! j" by (auto simp: comes_back_def)
    then show "comes_back (True # bs)"
      unfolding comes_back_def by (intro exI [of _ "Suc i"] exI [of _ "Suc j"]) simp
  qed
  show "comes_back (False # bs) \<longleftrightarrow> True \<in> set bs"
  proof
    assume "comes_back (False # bs)"
    then obtain i j where "i < j" "j < Suc (length bs)" "(False # bs) ! j" by (auto simp: comes_back_def)
    then show "True \<in> set bs" by (cases j) (auto simp: in_set_conv_nth)
  next
    assume "True \<in> set bs"
    then obtain j where "j < length bs" "bs ! j" by (auto simp: in_set_conv_nth)
    then show "comes_back (False # bs)"
      unfolding comes_back_def by (intro exI [of _ 0] exI [of _ "Suc j"]) simp
  qed
qed

lemma monitor_ticks:
  "fst (fold monitor_tick founds (src, dm, os)) = src\<lparr>
     so_signal := so_signal src \<or> comes_back ((\<not> so_wasDown src) # availability (so_iname src) founds dm),
     so_wasDown := \<not> last ((\<not> so_wasDown src) # availability (so_iname src) founds dm)\<rparr>"
proof (induction founds arbitrary: src dm)
  case Nil
  show ?case by (cases src; cases "so_wasDown src") simp_all
next
  case (Cons found founds)
  obtain b dm' where a: "InterfaceAvailable found (so_iname src) dm = (b, dm')"
    by (cases "InterfaceAvailable found (so_iname src) dm")
  have "monitor_tick found (src, dm, os) =
      (src\<lparr>so_signal := so_signal src \<or> b \<and> so_wasDown src, so_wasDown := \<not> b\<rparr>, dm', os)"
    using a by (cases src) (auto simp: monitor_tick_def)
  then show ?case
    by (cases b; cases "so_wasDown src") (auto simp: a Cons.IH)
qed

lemma read_events_cancelled:
  "CtxDone err \<in> set es \<Longrightarrow> so_pc src = Selecting \<or> (\<exists>d r. so_pc src = Reconnecting d r) \<Longrightarrow>
     \<exists>x. read_events goos show_lt es (src, s) = Some x"
proof (induction es arbitrary: src s)
  case (Cons e es)
  show ?case
  proof (cases "source_step goos show_lt e (src, s)")
    case None
    with Cons.prems have "e \<noteq> CtxDone err" by auto
    with Cons.prems Cons.IH [of src s] None show ?thesis by simp
  next
    case (Some st')
    obtain src' s' where st': "st' = (src', s')" by (cases st')
    show ?thesis
    proof (cases "\<exists>pkt err. so_pc src' = Returned pkt err")
      case True
      with Some st' show ?thesis by auto
    next
      case False
      with Cons.prems Some st' have "e \<noteq> CtxDone err" by auto
      moreover have "so_pc src' \<noteq> Idle"
        using Some Cons.prems(2) st'
        by (cases e) (auto simp: reconnect_def reconnect_attempt_def monitor_tick_def
            split: if_splits prod.splits sum.splits)
      ultimately have "\<exists>x. read_events goos show_lt es (src', s') = Some x"
        using Cons.prems(1) Cons.IH [of src' s'] False by (cases "so_pc src'") auto
      with False Some st' show ?thesis by (cases "so_pc src'") auto
    qed
  qed
qed simp

text \<open>What an event makes \<^verbatim>\<open>Read\<close> return, if anything.\<close>

definition returns_as :: "string \<Rightarrow> source_event \<Rightarrow> packet option \<Rightarrow> go_error option \<Rightarrow> bool" where
  "returns_as iname e pkt err \<longleftrightarrow>
     (\<exists>g ci. e = Deliver g ci \<and> err = None \<and> pkt = Some \<lparr>pk_Raw = gp_data g, pk_Metadata = ci,
        pk_Packet = Some g, pk_ArrivalInterface = iname\<rparr>) \<or>
     (\<exists>x. e = CtxDone x \<and> pkt = None \<and> err = Some x)"

lemma source_step_returns:
  assumes "source_step goos show_lt e (src, s) = Some (src', s')" and "so_pc src' = Returned pkt err"
    and "\<forall>p er. so_pc src \<noteq> Returned p er"
  shows "so_iname src' = so_iname src \<and> returns_as (so_iname src) e pkt err"
  using assms
  by (cases e) (auto simp: returns_as_def received_def reconnect_def reconnect_attempt_def monitor_tick_def
      split: read_pc.splits if_splits prod.splits sum.splits option.splits)

lemma source_step_iname:
  "source_step goos show_lt e (src, s) = Some (src', s') \<Longrightarrow> so_iname src' = so_iname src"
  by (cases e) (auto simp: reconnect_def reconnect_attempt_def monitor_tick_def
      split: read_pc.splits if_splits prod.splits sum.splits option.splits)

lemma read_events_result:
  "read_events goos show_lt es (src, s) = Some (pkt, err, (src', s'), rest) \<Longrightarrow>
   \<forall>p er. so_pc src \<noteq> Returned p er \<Longrightarrow>
   so_iname src' = so_iname src \<and> so_pc src' = Returned pkt err \<and>
   (\<exists>seen e. es = seen @ e # rest \<and> returns_as (so_iname src) e pkt err)"
proof (induction es arbitrary: src s)
  case (Cons e es)
  show ?case
  proof (cases "source_step goos show_lt e (src, s)")
    case None
    with Cons.prems Cons.IH [of src s] obtain seen f where "so_iname src' = so_iname src"
      "so_pc src' = Returned pkt err" "es = seen @ f # rest" "returns_as (so_iname src) f pkt err"
      by auto
    then show ?thesis by (intro conjI exI [of _ "e # seen"] exI [of _ f]) simp_all
  next
    case (Some st1)
    obtain src1 s1 where st1: "st1 = (src1, s1)" by (cases st1)
    show ?thesis
    proof (cases "\<exists>p er. so_pc src1 = Returned p er")
      case True
      with Cons.prems(1) Some st1 have r: "so_pc src1 = Returned pkt err" "src' = src1" "rest = es"
        by auto
      from source_step_returns [OF Some [unfolded st1] r(1) Cons.prems(2)] r
      show ?thesis by (intro conjI exI [of _ "[]"] exI [of _ e]) simp_all
    next
      case False
      with Cons.prems(1) Some st1 have "read_events goos show_lt es (src1, s1) = Some (pkt, err, (src', s'), rest)"
        by (cases "so_pc src1") auto
      from Cons.IH [OF this] False source_step_iname [OF Some [unfolded st1]]
      obtain seen f where "so_iname src' = so_iname src" "so_pc src' = Returned pkt err"
        "es = seen @ f # rest" "returns_as (so_iname src) f pkt err" by auto
      then show ?thesis by (intro conjI exI [of _ "e # seen"] exI [of _ f]) simp_all
    qed
  qed
qed simp

section \<open>Properties\<close>

text \<open>
  C26. The handles of the sources of a program, in every state that they reach together when no
  interface has two of them, with transmitters opening and closing handles in between: while a
  source waits for packets its handle is open, is the one in the cache for its interface, feeds
  its channel and is no other waiting source's handle; while it reconnects no handle of its
  interface is cached, and the delay is one of the growing sequence.
\<close>

theorem pcap_source_invariant:
  assumes "NewDeviceManager found = Inr dm" and "(source_run goos show_lt)\<^sup>*\<^sup>* ([], {}, dm, os) (srcs, ws, s)"
    and "i < length srcs"
  shows "(case so_pc (srcs ! i) of
      Selecting \<Rightarrow> cached_handle (so_iname (srcs ! i)) Reader s = Some (so_handle (srcs ! i)) \<and>
        so_handle (srcs ! i) \<in> live_handles s \<and> so_packets (srcs ! i) = so_handle (srcs ! i) \<and>
        (\<forall>j<length srcs. j = i \<or> so_pc (srcs ! j) \<noteq> Selecting \<or> so_handle (srcs ! j) \<noteq> so_handle (srcs ! i))
    | Reconnecting delay reason \<Rightarrow> cached_handle (so_iname (srcs ! i)) Reader s = None \<and>
        (\<exists>n. delay = min (2 ^ n * Second) (30 * Second))
    | _ \<Rightarrow> True)"
proof -
  have "program_inv ([], {}, dm, os)"
    using assms(1) by (auto simp: NewDeviceManager_def Refresh_def Let_def program_inv_def sources_inv_def
        dm_ok_def split: sum.splits)
  from source_reachable_inv [OF assms(2) this] have inv: "sources_inv (srcs, s)"
    by (simp add: program_inv_def)
  with assms(3) have src: "source_inv (srcs ! i, s)" by (simp add: sources_inv_def)
  show ?thesis
  proof (cases "so_pc (srcs ! i)")
    case Selecting
    with waiting_source [OF src Selecting] waiting_sources_apart [OF inv assms(3) _ _ Selecting]
    show ?thesis by auto
  next
    case (Reconnecting delay reason)
    with src show ?thesis by (auto simp: source_inv_def reconnect_delay_after)
  qed simp_all
qed

definition eth0_source :: source_state where
  "eth0_source = (case NewPcapSource ''linux'' (\<lambda>lt. []) (all_well 3 LinkTypeEthernet) ''eth0'' False
     250000000 (empty_dm, no_pcap) of (r, s) \<Rightarrow> (projr r, s))"

lemmas eth0_source_simps = eth0_source_def NewPcapSource_def CreateReaderHandle_def pcap_examples
  activate_reader_def pcap_ops isValidLinkType_def startInterfaceMonitor_def

lemma eth0_source: "NewPcapSource ''linux'' (\<lambda>lt. []) (all_well 3 LinkTypeEthernet) ''eth0'' False
     250000000 (empty_dm, no_pcap) = (Inr (fst eth0_source), snd eth0_source)"
  by (simp add: eth0_source_simps)

lemma empty_dm_ok: "dm_ok (empty_dm, no_pcap)"
  by (simp add: dm_ok_def pcap_examples)

lemma all_well_fresh: "fresh (all_well h lt) (empty_dm, no_pcap)"
  by (simp add: fresh_def pcap_examples)

lemma eth0_source_ready:
  "dm_ok (snd eth0_source)"
  "cached_handle (so_iname (fst eth0_source)) Reader (snd eth0_source) = Some (so_handle (fst eth0_source))"
proof -
  have "so_pc (fst eth0_source) = Idle" by (simp add: eth0_source_simps)
  with source_inv_New [OF empty_dm_ok all_well_fresh eth0_source]
  show "dm_ok (snd eth0_source)"
    "cached_handle (so_iname (fst eth0_source)) Reader (snd eth0_source) = Some (so_handle (fst eth0_source))"
    by (simp_all add: source_inv_def split_beta)
qed

lemma eth0_source_waits:
  "(source_run ''linux'' (\<lambda>lt. []))\<^sup>*\<^sup>* ([], {}, empty_dm, no_pcap)
     ([(fst eth0_source)\<lparr>so_pc := Selecting\<rparr>], {}, snd eth0_source)"
proof -
  have "source_run ''linux'' (\<lambda>lt. []) ([], {}, empty_dm, no_pcap) ([fst eth0_source], {}, snd eth0_source)"
    using opens [OF _ all_well_fresh eth0_source, of "[]" "{}"] by simp
  moreover have "source_step ''linux'' (\<lambda>lt. []) CallRead ([fst eth0_source] ! 0, snd eth0_source) =
      Some ((fst eth0_source)\<lparr>so_pc := Selecting\<rparr>, snd eth0_source)"
    by (simp add: eth0_source_simps)
  from event [OF _ this] have "source_run ''linux'' (\<lambda>lt. []) ([fst eth0_source], {}, snd eth0_source)
      ([(fst eth0_source)\<lparr>so_pc := Selecting\<rparr>], {}, snd eth0_source)" by simp
  ultimately show ?thesis by (meson converse_rtranclp_into_rtranclp r_into_rtranclp)
qed

theorem pcap_source_invariant_witness:
  "3 \<in> live_handles (snd eth0_source)"
proof -
  have "NewDeviceManager (Inr []) = Inr empty_dm"
    by (simp add: NewDeviceManager_def Refresh_def empty_dm_def)
  from pcap_source_invariant [OF this eth0_source_waits, of 0]
  have "so_handle (fst eth0_source) \<in> live_handles (snd eth0_source)" by simp
  moreover have "so_handle (fst eth0_source) = 3" by (simp add: eth0_source_simps)
  ultimately show ?thesis by simp
qed

text \<open>
  C27. Reconnecting: when the channel of packets closes, the old handle is closed; after
  any number of failing attempts a successful one makes the source wait for packets again,
  on a new open handle that is the cached one, and no handle of the failing attempts is
  left open.  The new handle has no BPF filter: the source does not set the one that the
  old handle had.
\<close>

theorem reconnect_after_failures:
  assumes "dm_ok s" and "so_pc src = Selecting"
    and "cached_handle (so_iname src) Reader s = Some (so_handle src)"
    and "\<forall>a\<in>set fails. fresh a s \<and> \<not> reader_ready goos a"
    and "fresh ans s" and "reader_ready goos ans" and "an_Activate ans = Inr h"
  shows "\<exists>src' s'. steps goos show_lt (ChannelClosed # map TimerFires fails @ [TimerFires ans]) (src, s) =
      Some (src', s') \<and> so_pc src' = Selecting \<and> so_handle src' = h \<and> so_packets src' = h \<and>
    cached_handle (so_iname src) Reader s' = Some h \<and>
    live_handles s' = insert h (live_handles s - {so_handle src}) \<and> pc_filter (snd s') h = None"
proof -
  from reader_cache.close_cached [OF assms(1,3)] obtain s1 where
    s1: "CloseDevice (so_iname src) Reader s = (None, s1)" "dm_ok s1"
      "cached_handle (so_iname src) Reader s1 = None"
      "live_handles s1 = live_handles s - {so_handle src}" by blast
  have "fresh a s \<Longrightarrow> fresh a s1" for a
    using s1(4) by (auto simp: fresh_def live_handles_def split_beta)
  with attempts [of s1 src fails goos ans h show_lt reconnectInitialDelay "''packets_channel_closed''"]
    s1 assms(2,4-7)
  show ?thesis by (fastforce simp: reconnect_def)
qed

definition no_device :: pcap_answers where
  "no_device = (all_well 0 LinkTypeEthernet)\<lparr>an_Activate := Inl (Errorf ''No such device exists'')\<rparr>"

theorem reconnect_after_failures_witness:
  "\<exists>src s. steps ''linux'' (\<lambda>lt. []) [ChannelClosed, TimerFires no_device, TimerFires no_device,
      TimerFires (all_well 9 LinkTypeEthernet)]
     ((fst eth0_source)\<lparr>so_pc := Selecting\<rparr>, snd eth0_source) = Some (src, s) \<and> so_handle src = 9"
proof -
  let ?src = "(fst eth0_source)\<lparr>so_pc := Selecting\<rparr>"
  have "dm_ok (snd eth0_source)"
    "cached_handle (so_iname ?src) Reader (snd eth0_source) = Some (so_handle ?src)"
    using eth0_source_ready by simp_all
  moreover have "\<forall>a\<in>set [no_device, no_device]. fresh a (snd eth0_source) \<and> \<not> reader_ready ''linux'' a"
    "fresh (all_well 9 LinkTypeEthernet) (snd eth0_source)"
    "reader_ready ''linux'' (all_well 9 LinkTypeEthernet)"
    by (simp_all add: no_device_def reader_ready_def writer_ready_def fresh_def eth0_source_simps)
  moreover have "an_Activate (all_well 9 LinkTypeEthernet) = Inr 9" by (simp add: all_well_def)
  ultimately show ?thesis
    using reconnect_after_failures [of "snd eth0_source" ?src "[no_device, no_device]" "''linux''"
        "all_well 9 LinkTypeEthernet" 9 "\<lambda>lt. []"] by fastforce
qed

text \<open>
  C28. A call of \<^verbatim>\<open>Read\<close> returns whenever its context is cancelled, also while it
  reconnects; what it returns is the context's error and no packet, or no error and a packet
  that was delivered, with its bytes and capture information, marked with the interface.
\<close>

theorem Read_returns:
  "(list_ex (\<lambda>e. \<exists>x. e = CtxDone x) es \<longrightarrow> Read goos show_lt es (src, s) \<noteq> None) \<and>
   (case Read goos show_lt es (src, s) of None \<Rightarrow> True
    | Some (pkt, err, st', rest) \<Rightarrow> \<exists>seen e. es = seen @ e # rest \<and>
        ((\<exists>g ci. e = Deliver g ci \<and> err = None \<and> pkt = Some \<lparr>pk_Raw = gp_data g,
            pk_Metadata = ci, pk_Packet = Some g, pk_ArrivalInterface = so_iname src\<rparr>) \<or>
         (\<exists>x. e = CtxDone x \<and> pkt = None \<and> err = Some x)))"
proof -
  let ?src = "src\<lparr>so_pc := Selecting\<rparr>"
  have R: "Read goos show_lt es (src, s) = read_events goos show_lt es (?src, s)"
    by (simp add: Read_def)
  have "\<exists>x. Read goos show_lt es (src, s) = Some x" if "CtxDone err \<in> set es" for err
    unfolding R by (rule read_events_cancelled [OF that]) simp
  moreover have "\<exists>seen e. es = seen @ e # rest \<and> returns_as (so_iname src) e pkt err"
    if "Read goos show_lt es (src, s) = Some (pkt, err, st', rest)" for pkt err st' rest
    using read_events_result [of goos show_lt es ?src s pkt err "fst st'" "snd st'" rest] that
    by (simp add: R)
  ultimately show ?thesis
    by (auto simp: list_ex_iff returns_as_def split: option.splits) blast+
qed

theorem Read_returns_witness:
  "Read ''linux'' (\<lambda>lt. []) [ChannelClosed, TimerFires no_device, CtxDone ErrCanceled] eth0_source \<noteq> None"
  using Read_returns [of "[ChannelClosed, TimerFires no_device, CtxDone ErrCanceled]" "''linux''"
      "\<lambda>lt. []" "fst eth0_source" "snd eth0_source"] by simp

text \<open>
  C29. The monitor asks for a reconnect exactly when it has seen the interface unavailable
  and, on a later tick, available again; a source whose interface stays up, or has not come
  back, is left alone, and requests do not accumulate.
\<close>

theorem monitor_detects_recovery:
  "fst (fold monitor_tick founds (src, dm, os)) = src\<lparr>
     so_signal := so_signal src \<or>
       (let seen = (\<not> so_wasDown src) # availability (so_iname src) founds dm in
        \<exists>i j. i < j \<and> j < length seen \<and> \<not> seen ! i \<and> seen ! j),
     so_wasDown := \<not> last ((\<not> so_wasDown src) # availability (so_iname src) founds dm)\<rparr>"
  unfolding monitor_ticks comes_back_def Let_def ..

text \<open>
  Closing a source ends its monitor and closes its handle, once: a second call finds no
  handle in the cache, reports that and changes nothing.
\<close>

theorem PcapSourceClose_once:
  assumes "dm_ok s" and "so_monitorCancel src"
    and "cached_handle (so_iname src) Reader s = Some (so_handle src)"
  shows "\<exists>src' s'. PcapSourceClose (src, s) = (None, src', s') \<and> \<not> so_monitoring src' \<and>
    live_handles s' = live_handles s - {so_handle src} \<and>
    (\<forall>goos show_lt found. source_step goos show_lt (MonitorTick found) (src', s') = None) \<and>
    PcapSourceClose (src', s') = (Some (no_handle (so_iname src) Reader), src', s')"
proof -
  from reader_cache.close_cached [OF assms(1,3)] obtain s1 where
    s1: "CloseDevice (so_iname src) Reader s = (None, s1)"
      "cached_handle (so_iname src) Reader s1 = None"
      "live_handles s1 = live_handles s - {so_handle src}" by blast
  with assms(2) CloseDevice_missing [OF s1(2)] show ?thesis
    by (simp add: PcapSourceClose_def)
qed

theorem PcapSourceClose_once_witness:
  "\<exists>st. PcapSourceClose eth0_source = (None, st) \<and> live_handles (snd st) = {}"
proof -
  have "so_monitorCancel (fst eth0_source)" by (simp add: eth0_source_simps)
  from PcapSourceClose_once [OF eth0_source_ready(1) this eth0_source_ready(2)] obtain st where "PcapSourceClose eth0_source = (None, st)"
    "live_handles (snd st) = live_handles (snd eth0_source) - {so_handle (fst eth0_source)}" by auto
  moreover have "live_handles (snd eth0_source) = {so_handle (fst eth0_source)}"
    by (simp add: live_handles_def eth0_source_simps)
  ultimately show ?thesis by auto
qed

end
