(* ===== verification/Transmitter.thy ===== *)
theory Transmitter
  imports Pipeline Backoff "HOL-Library.Multiset"
begin

text \<open>
  \<^verbatim>\<open>internal/proxy/stages/transmitter.go\<close>: the sink that injects packets into an
  interface.  A write that fails drops the handle and starts one goroutine that opens a
  new one with growing delays; \<^verbatim>\<open>Close\<close> cancels it.  The parts that run under the mutex
  are functions from state to state; the goroutines interleave between them, as a step
  relation.  Handles are numbers; the state also records which were ever opened, which
  were closed and what was written on which, so that leaks and writes on a closed handle
  can be stated.
\<close>

section \<open>State\<close>

text \<open>
  A reconnect loop waits with a delay, or has opened a handle and waits for the mutex.
  A call of \<^verbatim>\<open>Close\<close> has cancelled the context, or has taken the old writer and is about
  to close it.
\<close>

datatype loop_pc = Waiting duration | Opened nat

datatype close_pc = Cancelled | Took "nat option"

record transmitter =
  tx_Iname :: string
  tx_Writer :: "nat option"
  tx_reconnecting :: bool
  tx_ctx :: bool              \<comment> \<open>the context (and \<^verbatim>\<open>cancel\<close>) is not nil\<close>
  tx_cancelled :: bool        \<comment> \<open>the context is cancelled\<close>
  tx_createWriter :: bool     \<comment> \<open>\<^verbatim>\<open>createWriter\<close> is not nil\<close>
  tx_loops :: "loop_pc list"
  tx_closers :: "close_pc list"
  tx_opened :: "nat list"
  tx_closed :: "nat list"
  tx_sent :: "(nat \<times> byte list) list"
  tx_done :: bool             \<comment> \<open>some call of \<^verbatim>\<open>Close\<close> has left the mutex\<close>

section \<open>Operations\<close>

text \<open>\<open>opened\<close> is what \<^verbatim>\<open>CreateIsolatedWriterHandle\<close> returned.\<close>

definition NewTransmitterSink :: "go_error + nat \<Rightarrow> string \<Rightarrow> go_error + transmitter" where
  "NewTransmitterSink opened iname = (case opened of
       Inl err \<Rightarrow> Inl err
     | Inr handle \<Rightarrow> Inr
         \<lparr>tx_Iname = iname, tx_Writer = Some handle, tx_reconnecting = False, tx_ctx = True,
          tx_cancelled = False, tx_createWriter = True, tx_loops = [], tx_closers = [],
          tx_opened = [handle], tx_closed = [], tx_sent = [], tx_done = False\<rparr>)"

definition TransmitterName :: "transmitter \<Rightarrow> string" where
  "TransmitterName s = ''TransmitterSink('' @ tx_Iname s @ '')''"

definition closePacketWriter :: "nat option \<Rightarrow> transmitter \<Rightarrow> transmitter" where
  "closePacketWriter w s = (case w of None \<Rightarrow> s | Some h \<Rightarrow> s\<lparr>tx_closed := h # tx_closed s\<rparr>)"

text \<open>
  \<^verbatim>\<open>go s.reconnectLoop()\<close>: the goroutine ends at once when there is no context, and
  otherwise waits with the initial delay.
\<close>

definition spawn_reconnectLoop :: "transmitter \<Rightarrow> transmitter" where
  "spawn_reconnectLoop s =
     (if \<not> tx_ctx s then s
      else s\<lparr>tx_loops := tx_loops s @ [Waiting reconnectInitialDelay]\<rparr>)"

text \<open>\<open>failed\<close> is whether \<^verbatim>\<open>WritePacketData\<close> returns an error.\<close>

definition TransmitterWrite :: "bool \<Rightarrow> packet option \<Rightarrow> transmitter \<Rightarrow> go_error option \<times> transmitter" where
  "TransmitterWrite failed pkt s = (case pkt of None \<Rightarrow> (None, s)
     | Some p \<Rightarrow> (case tx_Writer s of None \<Rightarrow> (None, s)
     | Some writer \<Rightarrow>
         let s1 = s\<lparr>tx_sent := tx_sent s @ [(writer, pk_Raw p)]\<rparr> in
         if failed then
           if \<not> tx_reconnecting s1 then
             let s2 = s1\<lparr>tx_reconnecting := True, tx_Writer := None\<rparr> in
             (None, spawn_reconnectLoop (closePacketWriter (Some writer) s2))
           else (None, s1)
         else (None, s1)))"

text \<open>
  The turn of the loop after its timer: \<open>opened\<close> is the result of \<^verbatim>\<open>createWriter\<close>.  The
  new program counter is \<open>None\<close> when the goroutine has ended.
\<close>

definition loop_try :: "go_error + nat \<Rightarrow> duration \<Rightarrow> transmitter \<Rightarrow> loop_pc option \<times> transmitter" where
  "loop_try opened delay s =
     (if \<not> tx_createWriter s then (None, s)
      else case opened of
        Inl err \<Rightarrow> (Some (Waiting (next_delay delay)), s)
      | Inr handle \<Rightarrow> (Some (Opened handle), s\<lparr>tx_opened := handle # tx_opened s\<rparr>))"

definition loop_install :: "nat \<Rightarrow> transmitter \<Rightarrow> transmitter" where
  "loop_install handle s =
     (if tx_cancelled s then s
      else s\<lparr>tx_Writer := Some handle, tx_reconnecting := False\<rparr>)"

definition close_cancel :: "transmitter \<Rightarrow> transmitter" where
  "close_cancel s = (if tx_ctx s then s\<lparr>tx_cancelled := True\<rparr> else s)"

definition close_take :: "transmitter \<Rightarrow> nat option \<times> transmitter" where
  "close_take s =
     (tx_Writer s, s\<lparr>tx_Writer := None, tx_reconnecting := False, tx_done := True\<rparr>)"

section \<open>Interleaving\<close>

text \<open>
  A step is one critical section, or one turn of a goroutine outside the mutex.  In the
  \<^verbatim>\<open>select\<close> of the loop the timer may win also after the cancellation.
\<close>

inductive tx_step :: "transmitter \<Rightarrow> transmitter \<Rightarrow> bool" where
  write_packet: "tx_step s (snd (TransmitterWrite failed pkt s))"
| loop_done: "tx_loops s = before @ Waiting d # after \<Longrightarrow> tx_cancelled s \<Longrightarrow>
    tx_step s (s\<lparr>tx_loops := before @ after\<rparr>)"
| loop_timer: "tx_loops s = before @ Waiting d # after \<Longrightarrow>
    (\<And>h. opened = Inr h \<Longrightarrow> h \<notin> set (tx_opened s)) \<Longrightarrow>
    loop_try opened d s = (pc, s') \<Longrightarrow>
    tx_step s (s'\<lparr>tx_loops := before @ (case pc of None \<Rightarrow> [] | Some x \<Rightarrow> [x]) @ after\<rparr>)"
| loop_lock: "tx_loops s = before @ Opened h # after \<Longrightarrow>
    tx_step s ((loop_install h s)\<lparr>tx_loops := before @ after\<rparr>)"
| close_start: "tx_step s ((close_cancel s)\<lparr>tx_closers := tx_closers s @ [Cancelled]\<rparr>)"
| close_lock: "tx_closers s = before @ Cancelled # after \<Longrightarrow> close_take s = (w, s') \<Longrightarrow>
    tx_step s (s'\<lparr>tx_closers := before @ Took w # after\<rparr>)"
| close_end: "tx_closers s = before @ Took w # after \<Longrightarrow>
    tx_step s ((closePacketWriter w s)\<lparr>tx_closers := before @ after\<rparr>)"

inductive_cases tx_stepE: "tx_step s s'"

section \<open>Invariant\<close>

fun loop_handles :: "loop_pc \<Rightarrow> nat list" where
  "loop_handles (Waiting d) = []"
| "loop_handles (Opened h) = [h]"

fun closer_handles :: "close_pc \<Rightarrow> nat list" where
  "closer_handles (Took (Some h)) = [h]"
| "closer_handles _ = []"

text \<open>The handles that the sink still holds: as its writer, in a loop or in a closer.\<close>

definition held :: "transmitter \<Rightarrow> nat list" where
  "held s = (case tx_Writer s of None \<Rightarrow> [] | Some h \<Rightarrow> [h]) @
     concat (map loop_handles (tx_loops s)) @ concat (map closer_handles (tx_closers s))"

definition tx_inv :: "transmitter \<Rightarrow> bool" where
  "tx_inv s \<longleftrightarrow> tx_ctx s \<and> tx_createWriter s \<and>
     length (tx_loops s) \<le> 1 \<and>
     (tx_Writer s \<noteq> None \<longrightarrow> tx_loops s = [] \<and> \<not> tx_reconnecting s) \<and>
     (\<not> tx_cancelled s \<longrightarrow> (tx_reconnecting s \<longleftrightarrow> tx_Writer s = None) \<and>
        (tx_reconnecting s \<longleftrightarrow> tx_loops s \<noteq> []) \<and> tx_closers s = [] \<and> \<not> tx_done s) \<and>
     (tx_done s \<longrightarrow> tx_Writer s = None) \<and>
     distinct (held s @ tx_closed s) \<and> set (held s @ tx_closed s) \<subseteq> set (tx_opened s) \<and>
     (\<not> tx_cancelled s \<longrightarrow> set (tx_opened s) \<subseteq> set (held s @ tx_closed s))"

lemmas tx_ops = TransmitterWrite_def loop_try_def loop_install_def close_cancel_def close_take_def
  closePacketWriter_def spawn_reconnectLoop_def Let_def

lemma single_list: "length xs \<le> 1 \<Longrightarrow> xs = before @ x # after \<longleftrightarrow> xs = [x] \<and> before = [] \<and> after = []"
  by (cases xs; cases "before") auto

lemma tx_inv_New:
  "NewTransmitterSink opened iname = Inr s \<Longrightarrow> tx_inv s"
  by (auto simp: NewTransmitterSink_def tx_inv_def held_def split: sum.splits)

lemma tx_inv_write: "tx_inv s \<Longrightarrow> tx_inv (snd (TransmitterWrite failed pkt s))"
  by (auto simp: tx_inv_def tx_ops held_def split: option.splits)

lemma tx_inv_loop_done:
  "tx_inv s \<Longrightarrow> tx_loops s = before @ Waiting d # after \<Longrightarrow> tx_cancelled s \<Longrightarrow>
     tx_inv (s\<lparr>tx_loops := before @ after\<rparr>)"
  by (auto simp: tx_inv_def single_list held_def split: option.splits)

lemma tx_inv_loop_timer:
  assumes "tx_inv s" and "tx_loops s = before @ Waiting d # after"
    and "\<And>h. opened = Inr h \<Longrightarrow> h \<notin> set (tx_opened s)" and "loop_try opened d s = (pc, s')"
  shows "tx_inv (s'\<lparr>tx_loops := before @ (case pc of None \<Rightarrow> [] | Some x \<Rightarrow> [x]) @ after\<rparr>)"
proof -
  have L: "tx_loops s = [Waiting d]" "before = []" "after = []"
    using assms(1,2) by (simp_all add: tx_inv_def single_list)
  show ?thesis
  proof (cases opened)
    case (Inl err)
    then show ?thesis using assms(1,4) L by (auto simp: tx_inv_def loop_try_def held_def)
  next
    case (Inr h)
    then have fresh: "h \<notin> set (tx_opened s)" using assms(3) by simp
    have W: "tx_Writer s = None" "tx_createWriter s"
      using assms(1) L by (auto simp: tx_inv_def)
    with assms(4) Inr have s': "pc = Some (Opened h)" "s' = s\<lparr>tx_opened := h # tx_opened s\<rparr>"
      by (auto simp: loop_try_def)
    have "h \<notin> set (held s @ tx_closed s)" using assms(1) fresh unfolding tx_inv_def by blast
    moreover have "held (s'\<lparr>tx_loops := [Opened h]\<rparr>) = h # held s"
      using W L by (simp add: s' held_def)
    ultimately show ?thesis using assms(1) fresh W L s'
      by (simp add: tx_inv_def) blast
  qed
qed

lemma tx_inv_loop_lock:
  assumes "tx_inv s" and "tx_loops s = before @ Opened h # after"
  shows "tx_inv ((loop_install h s)\<lparr>tx_loops := before @ after\<rparr>)"
proof -
  have "tx_loops s = [Opened h] \<and> before = [] \<and> after = []"
    using assms(1,2) by (simp add: tx_inv_def single_list)
  with assms show ?thesis
    by (auto simp: tx_inv_def loop_install_def held_def split: option.splits)
qed

lemma tx_inv_close_start:
  "tx_inv s \<Longrightarrow> tx_inv ((close_cancel s)\<lparr>tx_closers := tx_closers s @ [Cancelled]\<rparr>)"
  by (auto simp: tx_inv_def close_cancel_def held_def split: option.splits)

lemma tx_inv_close_lock:
  assumes "tx_inv s" and "tx_closers s = before @ Cancelled # after" and "close_take s = (w, s')"
  shows "tx_inv (s'\<lparr>tx_closers := before @ Took w # after\<rparr>)" (is "tx_inv ?t")
proof -
  have "mset (held ?t @ tx_closed ?t) = mset (held s @ tx_closed s)"
    using assms(2) assms(3) [symmetric]
    by (cases "tx_Writer s") (simp_all add: close_take_def held_def)
  then have "distinct (held ?t @ tx_closed ?t) = distinct (held s @ tx_closed s)"
    and "set (held ?t @ tx_closed ?t) = set (held s @ tx_closed s)"
    by (rule mset_eq_imp_distinct_iff, rule mset_eq_setD)
  moreover have "tx_cancelled s" using assms(1,2) by (auto simp: tx_inv_def)
  ultimately show ?thesis using assms(1,3) unfolding tx_inv_def close_take_def
    by (simp del: distinct_append set_append) auto
qed

lemma tx_inv_close_end:
  assumes "tx_inv s" and "tx_closers s = before @ Took w # after"
  shows "tx_inv ((closePacketWriter w s)\<lparr>tx_closers := before @ after\<rparr>)"
  using assms
  by (cases w) (auto simp: tx_inv_def closePacketWriter_def held_def split: option.splits)

lemma tx_step_inv: "tx_step s s' \<Longrightarrow> tx_inv s \<Longrightarrow> tx_inv s'"
  by (induction rule: tx_step.induct)
    (blast intro: tx_inv_write tx_inv_loop_done tx_inv_loop_timer tx_inv_loop_lock
      tx_inv_close_start tx_inv_close_lock tx_inv_close_end)+

lemma tx_reachable_inv: "tx_step\<^sup>*\<^sup>* s s' \<Longrightarrow> tx_inv s \<Longrightarrow> tx_inv s'"
  by (induction rule: rtranclp_induct) (auto intro: tx_step_inv)

section \<open>Close without interruption, and the sink as an interface value\<close>

definition TransmitterClose :: "transmitter \<Rightarrow> go_error option \<times> transmitter" where
  "TransmitterClose s =
     (case close_take (close_cancel s) of (staleWriter, s') \<Rightarrow>
        (None, closePacketWriter staleWriter s'))"

text \<open>
  The sink is part of a larger state that \<open>get\<close> and \<open>put\<close> read and update; \<open>failed\<close> is
  whether the driver refuses the packet in that state.
\<close>

definition transmitter_as_sink :: "(packet \<Rightarrow> 'w \<Rightarrow> bool) \<Rightarrow> ('w \<Rightarrow> transmitter) \<Rightarrow>
    (transmitter \<Rightarrow> 'w \<Rightarrow> 'w) \<Rightarrow> string \<Rightarrow> 'w sink" where
  "transmitter_as_sink failed get put iname =
     \<lparr>sk_Write = (\<lambda>p w. case TransmitterWrite (failed p w) (Some p) (get w) of
        (err, s) \<Rightarrow> Inr (err, put s w)),
      sk_Close = (\<lambda>w. case TransmitterClose (get w) of (err, s) \<Rightarrow> (err, put s w)),
      sk_Name = ''TransmitterSink('' @ iname @ '')''\<rparr>"

lemma close_steps: "tx_step\<^sup>*\<^sup>* s (snd (TransmitterClose s))"
proof -
  let ?a = "(close_cancel s)\<lparr>tx_closers := tx_closers s @ [Cancelled]\<rparr>"
  let ?b = "(snd (close_take ?a))\<lparr>tx_closers := tx_closers s @ Took (tx_Writer s) # []\<rparr>"
  let ?c = "(closePacketWriter (tx_Writer s) ?b)\<lparr>tx_closers := tx_closers s @ []\<rparr>"
  have "tx_step s ?a" by (rule close_start)
  moreover have "tx_step ?a ?b"
    by (rule close_lock) (simp_all add: close_take_def close_cancel_def)
  moreover have "tx_step ?b ?c"
    by (rule close_end) simp
  moreover have "?c = snd (TransmitterClose s)"
    by (simp add: TransmitterClose_def close_take_def close_cancel_def closePacketWriter_def
        split: option.splits)
  ultimately show ?thesis
    by (metis (no_types, lifting) converse_rtranclp_into_rtranclp rtranclp.rtrancl_refl)
qed

lemma tx_inv_close: "tx_inv s \<Longrightarrow> tx_inv (snd (TransmitterClose s))"
  using close_steps tx_reachable_inv by blast

lemma transmitter_name: "TransmitterName s = sk_Name (transmitter_as_sink failed get put (tx_Iname s))"
  by (simp add: TransmitterName_def transmitter_as_sink_def)

lemma tx_write_pair: "tx_inv s \<Longrightarrow> \<exists>err s'. TransmitterWrite failed pkt s = (err, s') \<and> tx_inv s'"
  using tx_inv_write [of s failed pkt] by (metis prod.collapse)

interpretation tx_sink: safe_sink "transmitter_as_sink failed id (\<lambda>s w. s) iname" good tx_inv
  for failed iname good
  by unfold_locales
    (simp_all add: transmitter_as_sink_def split_beta tx_inv_write tx_inv_close
      tx_write_pair)

section \<open>Properties\<close>

text \<open>
  C18. The transmitter's invariant, in every state reachable by any interleaving of
  writes, reconnect attempts and calls of \<^verbatim>\<open>Close\<close>: the writer is a handle that was opened
  and not closed, no handle is closed twice, at most one reconnect loop runs, and until
  \<^verbatim>\<open>Close\<close> is called the sink either has a writer or a loop that looks for one, and every
  opened handle is in use or closed.
\<close>

theorem transmitter_reachable_invariant:
  assumes "NewTransmitterSink opened iname = Inr s0" and "tx_step\<^sup>*\<^sup>* s0 s"
  shows "(\<forall>h. tx_Writer s \<noteq> Some h \<or> h \<in> set (tx_opened s) \<and> h \<notin> set (tx_closed s)) \<and>
    distinct (tx_closed s) \<and> length (tx_loops s) \<le> 1 \<and>
    (tx_cancelled s \<or> (tx_Writer s = None \<longleftrightarrow> tx_loops s \<noteq> [])) \<and>
    (tx_cancelled s \<or> set (tx_opened s) = set (held s) \<union> set (tx_closed s))"
proof -
  have inv: "tx_inv s" using tx_reachable_inv [OF assms(2) tx_inv_New [OF assms(1)]] .
  then have "tx_Writer s \<noteq> Some h \<or> h \<in> set (tx_opened s) \<and> h \<notin> set (tx_closed s)" for h
    by (cases "tx_Writer s") (auto simp: tx_inv_def held_def)
  moreover from inv have "tx_cancelled s \<or> set (tx_opened s) = set (held s) \<union> set (tx_closed s)"
    unfolding tx_inv_def set_append by blast
  ultimately show ?thesis using inv by (auto simp: tx_inv_def)
qed

definition eth0_transmitter :: transmitter where
  "eth0_transmitter = projr (NewTransmitterSink (Inr 7) ''eth0'')"

lemma eth0_transmitter: "NewTransmitterSink (Inr 7) ''eth0'' = Inr eth0_transmitter"
  by (simp add: eth0_transmitter_def NewTransmitterSink_def)

lemmas eth0_simps = eth0_transmitter_def NewTransmitterSink_def

theorem transmitter_reachable_invariant_witness:
  "7 \<in> set (tx_opened eth0_transmitter) \<and> 7 \<notin> set (tx_closed eth0_transmitter)"
  using transmitter_reachable_invariant [OF eth0_transmitter rtranclp.rtrancl_refl]
  by (simp add: eth0_simps held_def)

text \<open>
  C19. A write never reports an error to the pipeline.  Without a writer it drops the
  packet; a successful one passes the raw bytes to the driver and changes nothing else; a
  failing one closes the stale handle at once and leaves exactly one reconnect loop
  waiting with the initial delay.
\<close>

theorem TransmitterWrite_outcomes:
  assumes "NewTransmitterSink opened iname = Inr s0" and "tx_step\<^sup>*\<^sup>* s0 s"
  shows "TransmitterWrite failed (Some p) s = (None,
    (case tx_Writer s of
       None \<Rightarrow> s
     | Some h \<Rightarrow>
         if failed then s\<lparr>tx_sent := tx_sent s @ [(h, pk_Raw p)], tx_Writer := None,
           tx_reconnecting := True, tx_closed := h # tx_closed s,
           tx_loops := [Waiting reconnectInitialDelay]\<rparr>
         else s\<lparr>tx_sent := tx_sent s @ [(h, pk_Raw p)]\<rparr>))"
  using tx_reachable_inv [OF assms(2) tx_inv_New [OF assms(1)]]
  by (auto simp: tx_inv_def tx_ops split: option.splits)

theorem TransmitterWrite_outcomes_witness:
  "tx_closed (snd (TransmitterWrite True (Some (example_packet ''eth1'' [10, 0, 0, 1])) eth0_transmitter)) = [7]"
  using TransmitterWrite_outcomes [OF eth0_transmitter rtranclp.rtrancl_refl, of True "example_packet ''eth1'' [10, 0, 0, 1]"]
  by (simp add: eth0_simps)

text \<open>
  C20. Recovery: while the sink is not closed and has no writer, one successful attempt
  of its loop to open a handle gives it that handle as its writer, and ends the loop.
\<close>

theorem transmitter_recovers:
  assumes "NewTransmitterSink opened iname = Inr s0" and "tx_step\<^sup>*\<^sup>* s0 s"
    and "tx_loops s = [Waiting d]" and "\<not> tx_cancelled s" and "h \<notin> set (tx_opened s)"
  shows "\<exists>t. tx_step\<^sup>*\<^sup>* s t \<and> tx_Writer t = Some h \<and> \<not> tx_reconnecting t \<and> tx_loops t = []"
proof -
  have inv: "tx_inv s" using tx_reachable_inv [OF assms(2) tx_inv_New [OF assms(1)]] .
  let ?a = "s\<lparr>tx_opened := h # tx_opened s, tx_loops := [Opened h]\<rparr>"
  let ?b = "(loop_install h ?a)\<lparr>tx_loops := []\<rparr>"
  have "tx_step s (s\<lparr>tx_opened := h # tx_opened s\<rparr>
      \<lparr>tx_loops := [] @ (case Some (Opened h) of None \<Rightarrow> [] | Some x \<Rightarrow> [x]) @ []\<rparr>)"
  proof (rule loop_timer)
    show "tx_loops s = [] @ Waiting d # []" using assms(3) by simp
    show "loop_try (Inr h) d s = (Some (Opened h), s\<lparr>tx_opened := h # tx_opened s\<rparr>)"
      using inv by (simp add: loop_try_def tx_inv_def)
  qed (use assms(5) in simp)
  then have "tx_step s ?a" by simp
  moreover have "tx_step ?a ((loop_install h ?a)\<lparr>tx_loops := [] @ []\<rparr>)"
    by (rule loop_lock) simp
  then have "tx_step ?a ?b" by simp
  ultimately have "tx_step\<^sup>*\<^sup>* s ?b" by simp
  moreover have "tx_Writer ?b = Some h \<and> \<not> tx_reconnecting ?b \<and> tx_loops ?b = []"
    using assms(4) by (simp add: loop_install_def)
  ultimately show ?thesis by blast
qed

theorem transmitter_recovers_witness:
  "\<exists>t. tx_step\<^sup>*\<^sup>* (snd (TransmitterWrite True (Some (example_packet ''eth1'' [10, 0, 0, 1])) eth0_transmitter)) t
     \<and> tx_Writer t = Some 8"
proof -
  let ?s = "snd (TransmitterWrite True (Some (example_packet ''eth1'' [10, 0, 0, 1])) eth0_transmitter)"
  have "tx_step\<^sup>*\<^sup>* eth0_transmitter ?s" by (rule r_into_rtranclp) (rule write_packet)
  moreover have "tx_loops ?s = [Waiting reconnectInitialDelay]" "\<not> tx_cancelled ?s"
    "8 \<notin> set (tx_opened ?s)"
    by (simp_all add: eth0_simps tx_ops)
  ultimately show ?thesis using transmitter_recovers [OF eth0_transmitter] by blast
qed

text \<open>
  C21. Closed means quiet: once a call of \<^verbatim>\<open>Close\<close> has passed its critical section, no
  later step, of whatever goroutine, gives the sink a writer again or sends a packet.
\<close>

theorem transmitter_quiet_after_close:
  assumes "NewTransmitterSink opened iname = Inr s0" and "tx_step\<^sup>*\<^sup>* s0 s"
    and "tx_done s" and "tx_step\<^sup>*\<^sup>* s t"
  shows "tx_Writer t = None \<and> tx_sent t = tx_sent s"
proof -
  have inv: "tx_inv s" using tx_reachable_inv [OF assms(2) tx_inv_New [OF assms(1)]] .
  have one: "tx_done v \<and> tx_sent v = tx_sent u" if "tx_step u v" "tx_inv u" "tx_done u" for u v
  proof -
    have "tx_Writer u = None" "tx_cancelled u" using that(2,3) by (auto simp: tx_inv_def)
    with that(1,3) show ?thesis
      by (cases rule: tx_stepE) (auto simp: tx_ops split: option.splits sum.splits if_splits)
  qed
  from assms(4) have "tx_inv t \<and> tx_done t \<and> tx_sent t = tx_sent s"
  proof (induction rule: rtranclp_induct)
    case base
    then show ?case using inv assms(3) by simp
  next
    case (step u v)
    then show ?case using one [of u v] tx_step_inv by auto
  qed
  then show ?thesis by (auto simp: tx_inv_def)
qed

theorem transmitter_quiet_after_close_witness:
  "tx_Writer (snd (TransmitterWrite False (Some (example_packet ''eth1'' [10, 0, 0, 1]))
      (snd (TransmitterClose eth0_transmitter)))) = None"
proof -
  have "tx_done (snd (TransmitterClose eth0_transmitter))"
    by (simp add: TransmitterClose_def tx_ops eth0_simps)
  from transmitter_quiet_after_close [OF eth0_transmitter close_steps this
      r_into_rtranclp, OF write_packet]
  show ?thesis by blast
qed

text \<open>
  Closing a sink that is not reconnecting and not yet closed releases everything:
  every handle it ever opened is closed, and the call reports no error.
\<close>

theorem TransmitterClose_releases:
  assumes "NewTransmitterSink opened iname = Inr s0" and "tx_step\<^sup>*\<^sup>* s0 s"
    and "tx_loops s = []" and "\<not> tx_cancelled s"
  shows "fst (TransmitterClose s) = None \<and>
    set (tx_closed (snd (TransmitterClose s))) = set (tx_opened (snd (TransmitterClose s))) \<and>
    distinct (tx_closed (snd (TransmitterClose s))) \<and> tx_Writer (snd (TransmitterClose s)) = None"
proof -
  have inv: "tx_inv s" using tx_reachable_inv [OF assms(2) tx_inv_New [OF assms(1)]] .
  then obtain h where h: "tx_Writer s = Some h" and c: "tx_closers s = []"
    using assms(3,4) by (auto simp: tx_inv_def)
  with inv assms(3,4) have "set (tx_opened s) = insert h (set (tx_closed s))"
    and "distinct (h # tx_closed s)"
    by (auto simp: tx_inv_def held_def)
  with h assms(3,4) show ?thesis by (simp add: TransmitterClose_def tx_ops)
qed

theorem TransmitterClose_releases_witness:
  "tx_closed (snd (TransmitterClose eth0_transmitter)) = [7]"
  using TransmitterClose_releases [OF eth0_transmitter rtranclp.rtrancl_refl]
  by (simp add: eth0_simps TransmitterClose_def tx_ops)

text \<open>
  A handle that was opened, is not closed and is held by nobody; it stays so, since only what
  is held is ever closed and what is opened is new.
\<close>

definition abandoned :: "transmitter \<Rightarrow> nat \<Rightarrow> bool" where
  "abandoned s h \<longleftrightarrow> h \<in> set (tx_opened s) \<and> h \<notin> set (held s) \<and> h \<notin> set (tx_closed s)"

lemma abandoned_step: "tx_step s s' \<Longrightarrow> abandoned s h \<Longrightarrow> abandoned s' h"
proof (induction rule: tx_step.induct)
  case (loop_timer s before d after opened pc s')
  then show ?case by (cases opened) (auto simp: abandoned_def held_def loop_try_def split: if_splits)
next
  case (close_lock s before after w s')
  from close_lock(2) have "w = tx_Writer s"
    "s' = s\<lparr>tx_Writer := None, tx_reconnecting := False, tx_done := True\<rparr>"
    by (simp_all add: close_take_def)
  then have "mset (held (s'\<lparr>tx_closers := before @ Took w # after\<rparr>)) = mset (held s)"
    using close_lock(1) by (cases "tx_Writer s") (simp_all add: held_def)
  then have "set (held (s'\<lparr>tx_closers := before @ Took w # after\<rparr>)) = set (held s)" by (rule mset_eq_setD)
  with close_lock(2,3) show ?case by (auto simp: abandoned_def close_take_def)
next
  case (close_end s before w after)
  then show ?case by (cases w) (auto simp: abandoned_def held_def closePacketWriter_def)
qed (auto simp: abandoned_def held_def tx_ops split: option.splits)

lemma abandoned_reachable: "tx_step\<^sup>*\<^sup>* s s' \<Longrightarrow> abandoned s h \<Longrightarrow> abandoned s' h"
  by (induction rule: rtranclp_induct) (auto intro: abandoned_step)

text \<open>
  C22. A handle can leak: from every reachable state in which the loop has just opened a
  handle and waits for the mutex, the sink can be closed first; the loop then sees the
  cancelled context and ends without closing the handle, nothing is left running that would,
  and whatever happens from there on the handle is never closed.
\<close>

theorem transmitter_close_can_leak:
  assumes "NewTransmitterSink opened iname = Inr s0" and "tx_step\<^sup>*\<^sup>* s0 s"
    and "Opened h \<in> set (tx_loops s)"
  shows "\<exists>s1. tx_step\<^sup>*\<^sup>* s s1 \<and> tx_done s1 \<and> tx_loops s1 = [] \<and>
    (\<forall>s2. \<not> tx_step\<^sup>*\<^sup>* s1 s2 \<or> h \<in> set (tx_opened s2) \<and> h \<notin> set (tx_closed s2))"
proof -
  have inv: "tx_inv s" using tx_reachable_inv [OF assms(2) tx_inv_New [OF assms(1)]] .
  then have loops: "tx_loops s = [Opened h]"
    using assms(3) by (cases "tx_loops s") (auto simp: tx_inv_def)
  with inv have w: "tx_Writer s = None" "tx_ctx s" by (auto simp: tx_inv_def)
  let ?c = "snd (TransmitterClose s)"
  have c: "?c = s\<lparr>tx_cancelled := True, tx_Writer := None, tx_reconnecting := False, tx_done := True\<rparr>"
    using w by (simp add: TransmitterClose_def tx_ops)
  let ?s1 = "(loop_install h ?c)\<lparr>tx_loops := [] @ []\<rparr>"
  have "tx_step ?c ?s1" by (rule loop_lock) (simp add: c loops)
  then have reach: "tx_step\<^sup>*\<^sup>* s ?s1" using close_steps [of s] by (rule rtranclp.rtrancl_into_rtrancl [rotated])
  have s1: "?s1 = s\<lparr>tx_cancelled := True, tx_Writer := None, tx_reconnecting := False, tx_done := True,
      tx_loops := []\<rparr>" by (simp add: c loop_install_def)
  have "h \<in> set (held s)" using loops by (simp add: held_def)
  with inv have "h \<in> set (tx_opened s)" "h \<notin> set (tx_closed s)"
    unfolding tx_inv_def by auto
  moreover have "h \<notin> set (concat (map closer_handles (tx_closers s)))"
    using inv loops w by (auto simp: tx_inv_def held_def)
  ultimately have "abandoned ?s1 h" unfolding s1 by (simp add: abandoned_def held_def)
  with abandoned_reachable have "\<forall>s2. \<not> tx_step\<^sup>*\<^sup>* ?s1 s2 \<or> h \<in> set (tx_opened s2) \<and> h \<notin> set (tx_closed s2)"
    unfolding abandoned_def by blast
  moreover have "tx_done ?s1" "tx_loops ?s1 = []" unfolding s1 by simp_all
  ultimately show ?thesis using reach by blast
qed

text \<open>A write fails, and the loop that it starts opens handle 8.\<close>

definition reopening :: transmitter where
  "reopening = (snd (TransmitterWrite True (Some (example_packet ''eth1'' [10, 0, 0, 1])) eth0_transmitter))
     \<lparr>tx_opened := [8, 7], tx_loops := [Opened 8]\<rparr>"

lemma reopening_reached: "tx_step\<^sup>*\<^sup>* eth0_transmitter reopening"
proof -
  let ?s1 = "snd (TransmitterWrite True (Some (example_packet ''eth1'' [10, 0, 0, 1])) eth0_transmitter)"
  have loops: "tx_loops ?s1 = [] @ Waiting reconnectInitialDelay # []"
    by (simp add: eth0_simps tx_ops)
  have "tx_step eth0_transmitter ?s1" by (rule write_packet)
  moreover have "tx_step ?s1 (?s1\<lparr>tx_opened := 8 # tx_opened ?s1\<rparr>
      \<lparr>tx_loops := [] @ (case Some (Opened 8) of None \<Rightarrow> [] | Some x \<Rightarrow> [x]) @ []\<rparr>)"
    by (rule loop_timer [where opened = "Inr 8", OF loops]) (simp_all add: eth0_simps tx_ops)
  then have "tx_step ?s1 reopening" by (simp add: eth0_simps tx_ops reopening_def)
  ultimately show ?thesis by (meson converse_rtranclp_into_rtranclp r_into_rtranclp)
qed

theorem transmitter_close_can_leak_witness:
  "\<exists>s. tx_step\<^sup>*\<^sup>* eth0_transmitter s \<and> tx_done s \<and> tx_loops s = [] \<and> 8 \<in> set (tx_opened s) \<and> 8 \<notin> set (tx_closed s)"
proof -
  have "Opened 8 \<in> set (tx_loops reopening)" by (simp add: reopening_def)
  from transmitter_close_can_leak [OF eth0_transmitter reopening_reached this] obtain s1 where
    s1: "tx_step\<^sup>*\<^sup>* reopening s1" "tx_done s1" "tx_loops s1 = []"
      "\<not> tx_step\<^sup>*\<^sup>* s1 s1 \<or> 8 \<in> set (tx_opened s1) \<and> 8 \<notin> set (tx_closed s1)" by blast
  from rtranclp_trans [OF reopening_reached s1(1)] s1(2-4) show ?thesis by blast
qed

end
