(* ===== verification/Registry.thy ===== *)
theory Registry
  imports Packet "HOL-Library.Multiset"
begin

text \<open>
  \<^verbatim>\<open>internal/proxy/stages/registry.go\<close>: the registry of clients, keyed by interface and
  address, that the pipelines of all interfaces share.  Clients are learned from the
  source address of the packets that arrive, expire after a time to live, or are
  fixed by configuration and never expire (zero \<^verbatim>\<open>LastSeen\<close>).  Every operation runs
  under the registry's lock, so it is a function from state to state; the clock is an
  argument, in nanoseconds, with 0 for the zero time.
\<close>

section \<open>State\<close>

record client_info =
  cl_IP :: ip
  cl_Interface :: string
  cl_LastSeen :: int
  cl_MAC :: mac

text \<open>\<open>rg_clients = None\<close> is the nil map.\<close>

record registry =
  rg_clients :: "(string \<rightharpoonup> client_info) option"
  rg_TTL :: duration

definition clients_of :: "registry \<Rightarrow> (string \<rightharpoonup> client_info)" where
  "clients_of r = (case rg_clients r of None \<Rightarrow> Map.empty | Some m \<Rightarrow> m)"

definition keyForClient :: "string \<Rightarrow> string \<Rightarrow> string" where
  "keyForClient iname ip = iname @ ''|'' @ ip"

text \<open>\<^verbatim>\<open>Time.Sub\<close> saturates at the range of \<^verbatim>\<open>Duration\<close>.\<close>

definition time_sub :: "int \<Rightarrow> int \<Rightarrow> duration" where
  "time_sub t u = max (- (2 ^ 63)) (min (2 ^ 63 - 1) (t - u))"

section \<open>Operations\<close>

definition fixed_client :: "string \<Rightarrow> ip \<Rightarrow> client_info" where
  "fixed_client iname ip =
     \<lparr>cl_IP = ip, cl_Interface = iname, cl_LastSeen = 0, cl_MAC = []\<rparr>"

fun add_fixed :: "string \<Rightarrow> string list \<Rightarrow> (string \<rightharpoonup> client_info) \<Rightarrow>
    go_error + (string \<rightharpoonup> client_info)" where
  "add_fixed iname [] clients = Inr clients"
| "add_fixed iname (ipStr # ips) clients =
     (case parse_ip ipStr of
        None \<Rightarrow> Inl (ErrorfQ ''invalid fixed IP address: %q'' ipStr)
      | Some ip \<Rightarrow>
          add_fixed iname ips (clients(keyForClient iname ipStr \<mapsto> fixed_client iname ip)))"

definition NewRegistryProcessor :: "duration \<Rightarrow> string list \<Rightarrow> go_error + registry" where
  "NewRegistryProcessor ttl fixedIPs =
     (case add_fixed '''' fixedIPs Map.empty of
        Inl e \<Rightarrow> Inl e
      | Inr clients \<Rightarrow> Inr \<lparr>rg_clients = Some clients, rg_TTL = ttl\<rparr>)"

fun add_fixed_interfaces :: "(string \<rightharpoonup> string list) \<Rightarrow> string list \<Rightarrow>
    (string \<rightharpoonup> client_info) \<Rightarrow> go_error + (string \<rightharpoonup> client_info)" where
  "add_fixed_interfaces fixedIPs [] clients = Inr clients"
| "add_fixed_interfaces fixedIPs (iname # inames) clients =
     (case add_fixed iname (the (fixedIPs iname)) clients of
        Inl e \<Rightarrow> Inl e
      | Inr clients' \<Rightarrow> add_fixed_interfaces fixedIPs inames clients')"

text \<open>\<open>inames\<close> is the order in which the map of fixed addresses is ranged over.\<close>

definition NewRegistryProcessorByInterface ::
    "duration \<Rightarrow> (string \<rightharpoonup> string list) \<Rightarrow> string list \<Rightarrow> go_error + registry" where
  "NewRegistryProcessorByInterface ttl fixedIPs inames =
     (case add_fixed_interfaces fixedIPs inames Map.empty of
        Inl e \<Rightarrow> Inl e
      | Inr clients \<Rightarrow> Inr \<lparr>rg_clients = Some clients, rg_TTL = ttl\<rparr>)"

text \<open>In the following, \<open>ks\<close> is the order in which the clients are ranged over.\<close>

definition GetClients :: "string list \<Rightarrow> registry \<Rightarrow> client_info list" where
  "GetClients ks r = map (\<lambda>k. the (clients_of r k)) ks"

definition Len :: "registry \<Rightarrow> nat" where
  "Len r = card (dom (clients_of r))"

definition Has :: "string list \<Rightarrow> registry \<Rightarrow> string \<Rightarrow> bool" where
  "Has ks r ip = list_ex (\<lambda>k. ip_string (cl_IP (the (clients_of r k))) = ip) ks"

definition GetClientsForInterface :: "string list \<Rightarrow> registry \<Rightarrow> string \<Rightarrow> client_info list" where
  "GetClientsForInterface ks r iname =
     filter (\<lambda>c. cl_Interface c = iname) (map (\<lambda>k. the (clients_of r k)) ks)"

definition source_mac :: "gopacket \<Rightarrow> mac" where
  "source_mac g = (case gp_layer g LayerTypeEthernet of
       None \<Rightarrow> []
     | Some l \<Rightarrow> (case as_ethernet l of None \<Rightarrow> [] | Some eth \<Rightarrow> eth_SrcMAC eth))"

definition store_client ::
    "int \<Rightarrow> string \<Rightarrow> ip \<Rightarrow> mac \<Rightarrow> (string \<rightharpoonup> client_info) \<Rightarrow> (string \<rightharpoonup> client_info)" where
  "store_client now iname srcIP srcMAC clients =
     (let clientKey = keyForClient iname (ip_string srcIP);
          new = \<lparr>cl_IP = srcIP, cl_Interface = iname, cl_LastSeen = now, cl_MAC = srcMAC\<rparr>
      in case clients clientKey of
           None \<Rightarrow> clients(clientKey \<mapsto> new)
         | Some info \<Rightarrow> if cl_LastSeen info \<noteq> 0 then clients(clientKey \<mapsto> new) else clients)"

text \<open>
  \<open>ProcessForInterface\<close> with the receiver and the packet as pointers that may be nil
  (\<open>None\<close>); the result is what the method returns and the registry after it.
\<close>

definition ProcessForInterface :: "int \<Rightarrow> registry option \<Rightarrow> string \<Rightarrow> packet option \<Rightarrow>
    (bool \<times> go_error option) \<times> registry option" where
  "ProcessForInterface now r iname pkt =
     (case r of None \<Rightarrow> ((True, None), r)
      | Some reg \<Rightarrow> (case rg_clients reg of None \<Rightarrow> ((True, None), r)
      | Some clients \<Rightarrow> (case pkt of None \<Rightarrow> ((True, None), r)
      | Some p \<Rightarrow> (case pk_Packet p of None \<Rightarrow> ((True, None), r)
      | Some g \<Rightarrow> (case gp_layer g LayerTypeIPv4 of None \<Rightarrow> ((True, None), r)
      | Some l \<Rightarrow> (case as_ipv4 l of None \<Rightarrow> ((True, None), r)
      | Some ipv4 \<Rightarrow>
          let srcIP = ip4_SrcIP ipv4 in
          if srcIP = [] then ((True, None), r)
          else
            let srcMAC = source_mac g; ipStr = ip_string srcIP in
            if ipStr = '''' then ((True, None), r)
            else
              let iname' = (if iname = '''' then pk_ArrivalInterface p else iname) in
              ((True, None),
               Some (reg\<lparr>rg_clients := Some (store_client now iname' srcIP srcMAC clients)\<rparr>))))))))"

definition Process :: "int \<Rightarrow> registry option \<Rightarrow> packet option \<Rightarrow>
    (bool \<times> go_error option) \<times> registry option" where
  "Process now r pkt =
     (case pkt of
        Some p \<Rightarrow> ProcessForInterface now r (pk_ArrivalInterface p) pkt
      | None \<Rightarrow> ProcessForInterface now r '''' None)"

fun cleanup_loop :: "int \<Rightarrow> duration \<Rightarrow> string list \<Rightarrow> (string \<rightharpoonup> client_info) \<Rightarrow>
    (string \<rightharpoonup> client_info)" where
  "cleanup_loop now ttl [] clients = clients"
| "cleanup_loop now ttl (k # ks) clients =
     (case clients k of
        None \<Rightarrow> cleanup_loop now ttl ks clients
      | Some info \<Rightarrow>
          if cl_LastSeen info = 0 then cleanup_loop now ttl ks clients
          else if ttl < time_sub now (cl_LastSeen info)
            then cleanup_loop now ttl ks (clients(k := None))
          else cleanup_loop now ttl ks clients)"

definition Cleanup :: "string list \<Rightarrow> int \<Rightarrow> registry \<Rightarrow> registry" where
  "Cleanup ks now r =
     (case rg_clients r of
        None \<Rightarrow> r
      | Some clients \<Rightarrow> r\<lparr>rg_clients := Some (cleanup_loop now (rg_TTL r) ks clients)\<rparr>)"

definition RegistryName :: string where "RegistryName = ''RegistryProcessor''"

text \<open>\<^verbatim>\<open>RegistryLearnerProcessor\<close>: a shared registry bound to one source interface.\<close>

record learner =
  lr_Iname :: string

definition LearnerProcess :: "int \<Rightarrow> learner option \<Rightarrow> registry option \<Rightarrow> packet option \<Rightarrow>
    (bool \<times> go_error option) \<times> registry option" where
  "LearnerProcess now p r pkt =
     (case p of None \<Rightarrow> ((True, None), r)
      | Some lp \<Rightarrow> (case r of None \<Rightarrow> ((True, None), r)
                   | Some reg \<Rightarrow> ProcessForInterface now r (lr_Iname lp) pkt))"

definition LearnerName :: "learner \<Rightarrow> string" where
  "LearnerName p = ''RegistryLearnerProcessor:'' @ lr_Iname p"

section \<open>Lemmas on the operations\<close>

text \<open>A printed address is never empty, so that guard of the code is never taken.\<close>

lemma join_nonempty: "xs \<noteq> [] \<Longrightarrow> hd xs \<noteq> [] \<Longrightarrow> join sep xs \<noteq> []"
  by (cases xs; cases "tl xs") auto

lemma hex_nat_not_Nil: "hex_nat n \<noteq> []"
  by (subst hex_nat.simps) simp

lemma groups16_nonempty: "2 \<le> length bs \<Longrightarrow> groups16 bs \<noteq> []"
  by (cases bs rule: groups16.cases) auto

lemma ip_string_nonempty [simp]: "ip_string ip \<noteq> []"
proof -
  have "to4 ip \<noteq> [] \<Longrightarrow> ipv4_string (to4 ip) \<noteq> []"
    unfolding ipv4_string_def by (rule join_nonempty) (simp_all add: hd_map)
  moreover have "length ip = 16 \<Longrightarrow> join '':'' (map hex_nat (groups16 ip)) \<noteq> []"
    using groups16_nonempty [of ip] by (intro join_nonempty) (simp_all add: hd_map hex_nat_not_Nil)
  then have "length ip = 16 \<Longrightarrow> ipv6_string ip \<noteq> []"
    by (auto simp: ipv6_string_def Let_def split: prod.splits)
  ultimately show ?thesis by (auto simp: ip_string_def)
qed

lemma keyForClient_inject:
  assumes "keyForClient i s = keyForClient j t"
    and "CHR ''|'' \<notin> set s" and "CHR ''|'' \<notin> set t"
  shows "i = j \<and> s = t"
  using append_sep_inject [of i "CHR ''|''" s j t] assms by (simp add: keyForClient_def)

lemma ip_string_no_bar [simp]: "CHR ''|'' \<notin> set (ip_string ip)"
  by (rule ip_string_notin) simp

lemma parse_ip_no_bar: "parse_ip s = Some ip \<Longrightarrow> CHR ''|'' \<notin> set s"
  by (rule parse_ip_notin) simp_all

text \<open>What a packet tells about its sender, and the interface it is learned for.\<close>

definition packet_source :: "packet \<Rightarrow> (ip \<times> mac) option" where
  "packet_source p = (case pk_Packet p of None \<Rightarrow> None
     | Some g \<Rightarrow> (case packet_ipv4 p of None \<Rightarrow> None
       | Some v \<Rightarrow> if ip4_SrcIP v = [] then None else Some (ip4_SrcIP v, source_mac g)))"

definition learn_iface :: "string \<Rightarrow> packet \<Rightarrow> string" where
  "learn_iface iname p = (if iname = '''' then pk_ArrivalInterface p else iname)"

definition source_key :: "string \<times> packet \<Rightarrow> string option" where
  "source_key = (\<lambda>(iname, p). map_option
     (\<lambda>(ip, mac). keyForClient (learn_iface iname p) (ip_string ip)) (packet_source p))"

definition learn :: "int \<Rightarrow> string \<times> packet \<Rightarrow> registry \<Rightarrow> registry" where
  "learn now = (\<lambda>(iname, p) r. the (snd (ProcessForInterface now (Some r) iname (Some p))))"

lemma Process_result [simp]: "fst (ProcessForInterface now r iname pkt) = (True, None)"
  by (simp add: ProcessForInterface_def Let_def split: option.splits)

lemma ProcessForInterface_eq:
  "ProcessForInterface now (Some r) iname (Some p) =
     ((True, None), Some (case (rg_clients r, packet_source p) of
        (Some clients, Some (ip, mac)) \<Rightarrow>
          r\<lparr>rg_clients := Some (store_client now (learn_iface iname p) ip mac clients)\<rparr>
      | _ \<Rightarrow> r))"
  by (auto simp: ProcessForInterface_def packet_source_def packet_ipv4_def learn_iface_def Let_def
      split: option.splits)

lemma ProcessForInterface_learn:
  "ProcessForInterface now (Some r) iname (Some p) = ((True, None), Some (learn now (iname, p) r))"
  by (simp add: learn_def ProcessForInterface_eq)

lemma ProcessForInterface_nil:
  "ProcessForInterface now None iname pkt = ((True, None), None)"
  "ProcessForInterface now r iname None = ((True, None), r)"
  by (simp_all add: ProcessForInterface_def split: option.splits)

lemma learn_TTL [simp]: "rg_TTL (learn now e r) = rg_TTL r"
  by (cases e) (simp add: learn_def ProcessForInterface_eq split: option.splits prod.splits)

lemma store_client_other: "k \<noteq> keyForClient i (ip_string a) \<Longrightarrow> store_client now i a m cs k = cs k"
  by (simp add: store_client_def Let_def split: option.splits)

lemma store_client_same:
  "store_client now i a m cs (keyForClient i (ip_string a)) =
     (case cs (keyForClient i (ip_string a)) of
        Some info \<Rightarrow> if cl_LastSeen info = 0 then Some info
          else Some \<lparr>cl_IP = a, cl_Interface = i, cl_LastSeen = now, cl_MAC = m\<rparr>
      | None \<Rightarrow> Some \<lparr>cl_IP = a, cl_Interface = i, cl_LastSeen = now, cl_MAC = m\<rparr>)"
  by (simp add: store_client_def Let_def split: option.splits)

lemma clients_of_learn:
  assumes "rg_clients r \<noteq> None"
  shows "clients_of (learn now (iname, p) r) =
    (case packet_source p of None \<Rightarrow> clients_of r
     | Some (ip, mac) \<Rightarrow> store_client now (learn_iface iname p) ip mac (clients_of r))"
  using assms
  by (auto simp: learn_def ProcessForInterface_eq clients_of_def split: option.splits)

lemma learn_not_nil [simp]: "rg_clients (learn now e r) = None \<longleftrightarrow> rg_clients r = None"
  by (cases e) (simp add: learn_def ProcessForInterface_eq split: option.splits prod.splits)

lemma learn_other:
  "source_key e \<noteq> Some k \<Longrightarrow> clients_of (learn now e r) k = clients_of r k"
proof (cases "rg_clients r")
  case None
  then show ?thesis
    by (cases e) (simp add: clients_of_def learn_def ProcessForInterface_eq)
next
  case (Some m)
  assume "source_key e \<noteq> Some k"
  with Some show ?thesis
    by (cases e) (auto simp: clients_of_learn source_key_def store_client_other
        split: option.splits)
qed

lemma learn_same:
  assumes "rg_clients r \<noteq> None" and "packet_source p = Some (ip, mac)"
    and "k = keyForClient (learn_iface iname p) (ip_string ip)"
  shows "clients_of (learn now (iname, p) r) k =
    (case clients_of r k of
       Some info \<Rightarrow> if cl_LastSeen info = 0 then Some info
         else Some \<lparr>cl_IP = ip, cl_Interface = learn_iface iname p, cl_LastSeen = now, cl_MAC = mac\<rparr>
     | None \<Rightarrow> Some \<lparr>cl_IP = ip, cl_Interface = learn_iface iname p, cl_LastSeen = now, cl_MAC = mac\<rparr>)"
  using assms by (simp add: clients_of_learn store_client_same)

section \<open>Cleanup\<close>

definition expired :: "int \<Rightarrow> duration \<Rightarrow> client_info \<Rightarrow> bool" where
  "expired now ttl c \<longleftrightarrow> cl_LastSeen c \<noteq> 0 \<and> ttl < time_sub now (cl_LastSeen c)"

lemma cleanup_loop_eq:
  "cleanup_loop now ttl ks clients k =
     (case clients k of
        None \<Rightarrow> None
      | Some c \<Rightarrow> if k \<in> set ks \<and> expired now ttl c then None else Some c)"
proof (induction ks arbitrary: clients)
  case (Cons x xs)
  show ?case
    by (cases "clients x") (auto simp: Cons.IH expired_def split: option.splits)
qed (simp split: option.splits)

lemma clients_of_Cleanup:
  assumes "enumerates ks (clients_of r)"
  shows "clients_of (Cleanup ks now r) k =
    (case clients_of r k of
       None \<Rightarrow> None
     | Some c \<Rightarrow> if expired now (rg_TTL r) c then None else Some c)"
proof (cases "rg_clients r")
  case None
  then show ?thesis by (simp add: Cleanup_def clients_of_def)
next
  case (Some m)
  with assms have "set ks = dom m" by (simp add: enumerates_def clients_of_def)
  with Some show ?thesis
    by (auto simp: Cleanup_def clients_of_def cleanup_loop_eq split: option.splits)
qed

lemma Cleanup_TTL [simp]: "rg_TTL (Cleanup ks now r) = rg_TTL r"
  by (simp add: Cleanup_def split: option.splits)

lemma Cleanup_not_nil [simp]: "rg_clients (Cleanup ks now r) = None \<longleftrightarrow> rg_clients r = None"
  by (simp add: Cleanup_def split: option.splits)

section \<open>The constructors\<close>

lemma keyForClient_right: "keyForClient i s = keyForClient i t \<longleftrightarrow> s = t"
  by (simp add: keyForClient_def)

lemma add_fixed_ok: "(\<exists>m'. add_fixed i ips m = Inr m') \<longleftrightarrow> (\<forall>s\<in>set ips. parse_ip s \<noteq> None)"
  by (induction ips arbitrary: m) (auto split: option.splits)

lemma add_fixed_entries:
  "add_fixed i ips m = Inr m' \<Longrightarrow>
   m' k = Some c \<longleftrightarrow>
     (\<exists>s\<in>set ips. k = keyForClient i s \<and> (\<exists>ip. parse_ip s = Some ip \<and> c = fixed_client i ip)) \<or>
     k \<notin> keyForClient i ` set ips \<and> m k = Some c"
proof (induction i ips m rule: add_fixed.induct)
  case (2 i s ips m)
  from 2(2) obtain ip where ip: "parse_ip s = Some ip"
    and r: "add_fixed i ips (m(keyForClient i s \<mapsto> fixed_client i ip)) = Inr m'"
    by (auto split: option.splits)
  from "2.IH" [OF ip r] ip show ?case
    by (auto simp: keyForClient_right split: if_splits)
qed simp

definition fixed_entry :: "(string \<rightharpoonup> string list) \<Rightarrow> string \<Rightarrow> string \<Rightarrow> client_info \<Rightarrow> bool" where
  "fixed_entry fixedIPs iname k c \<longleftrightarrow>
     (\<exists>s ip. s \<in> set (the (fixedIPs iname)) \<and> parse_ip s = Some ip \<and>
        k = keyForClient iname s \<and> c = fixed_client iname ip)"

lemma fixed_entry_other:
  "fixed_entry f i k c \<Longrightarrow> i \<noteq> j \<Longrightarrow> add_fixed j (the (f j)) m = Inr m' \<Longrightarrow>
     k \<notin> keyForClient j ` set (the (f j))"
  using add_fixed_ok [of j "the (f j)" m]
  by (force simp: fixed_entry_def dest: parse_ip_no_bar keyForClient_inject)

lemma add_fixed_interfaces_ok:
  "(\<exists>m'. add_fixed_interfaces f is m = Inr m') \<longleftrightarrow>
     (\<forall>i\<in>set is. \<forall>s\<in>set (the (f i)). parse_ip s \<noteq> None)"
proof (induction f "is" m rule: add_fixed_interfaces.induct)
  case (2 f i "is" m)
  then show ?case
    using add_fixed_ok [of i "the (f i)" m] by (auto split: sum.splits)
qed simp

lemma add_fixed_interfaces_entries:
  "add_fixed_interfaces f is m = Inr m' \<Longrightarrow> distinct is \<Longrightarrow>
   (\<And>k c. m k = Some c \<Longrightarrow> \<exists>j. j \<notin> set is \<and> fixed_entry f j k c) \<Longrightarrow>
   m' k = Some c \<longleftrightarrow> (\<exists>i\<in>set is. fixed_entry f i k c) \<or> m k = Some c"
proof (induction f "is" m rule: add_fixed_interfaces.induct)
  case (2 f i "is" m)
  from 2(2) obtain m1 where m1: "add_fixed i (the (f i)) m = Inr m1"
    and r: "add_fixed_interfaces f is m1 = Inr m'" by (auto split: sum.splits)
  have e: "m1 k = Some c \<longleftrightarrow> fixed_entry f i k c \<or> m k = Some c" for k c
  proof -
    have "m k = Some c \<Longrightarrow> k \<notin> keyForClient i ` set (the (f i))"
      using 2(4) fixed_entry_other [where f = f and j = i, OF _ _ m1] by fastforce
    then show ?thesis
      by (auto simp: add_fixed_entries [OF m1] fixed_entry_def)
  qed
  have "\<exists>j. j \<notin> set is \<and> fixed_entry f j k c" if "m1 k = Some c" for k c
    using that 2(3,4) unfolding e by fastforce
  from "2.IH" [OF m1 r _ this] 2(3) show ?case by (auto simp: e)
qed simp

lemma NewRegistryProcessorByInterface_Inr:
  assumes "NewRegistryProcessorByInterface ttl f is = Inr r" and "enumerates is f"
  shows "rg_TTL r = ttl" and "rg_clients r \<noteq> None"
    and "clients_of r k = Some c \<longleftrightarrow> (\<exists>i\<in>dom f. fixed_entry f i k c)"
proof -
  from assms(1) obtain m where m: "add_fixed_interfaces f is Map.empty = Inr m"
    and r: "r = \<lparr>rg_clients = Some m, rg_TTL = ttl\<rparr>"
    by (auto simp: NewRegistryProcessorByInterface_def split: sum.splits)
  from r show "rg_TTL r = ttl" and "rg_clients r \<noteq> None" by simp_all
  from add_fixed_interfaces_entries [OF m] assms(2)
  show "clients_of r k = Some c \<longleftrightarrow> (\<exists>i\<in>dom f. fixed_entry f i k c)"
    by (simp add: r clients_of_def enumerates_def)
qed

lemma NewRegistryProcessor_Inr:
  assumes "NewRegistryProcessor ttl ips = Inr r"
  shows "rg_TTL r = ttl" and "rg_clients r \<noteq> None"
    and "clients_of r k = Some c \<longleftrightarrow> fixed_entry [''''\<mapsto> ips] '''' k c"
proof -
  from assms obtain m where m: "add_fixed '''' ips Map.empty = Inr m"
    and r: "r = \<lparr>rg_clients = Some m, rg_TTL = ttl\<rparr>"
    by (auto simp: NewRegistryProcessor_def split: sum.splits)
  from r show "rg_TTL r = ttl" and "rg_clients r \<noteq> None" by simp_all
  show "clients_of r k = Some c \<longleftrightarrow> fixed_entry [''''\<mapsto> ips] '''' k c"
    by (auto simp: r clients_of_def add_fixed_entries [OF m] fixed_entry_def)
qed

section \<open>Invariant\<close>

text \<open>
  Every entry is filed under its own interface and under a printed form of its
  address: the canonical one, or for a fixed client the configured one.
\<close>

definition client_ok :: "string \<Rightarrow> client_info \<Rightarrow> bool" where
  "client_ok k c \<longleftrightarrow>
     (\<exists>s. k = keyForClient (cl_Interface c) s \<and> CHR ''|'' \<notin> set s \<and>
        (s = ip_string (cl_IP c) \<or> cl_LastSeen c = 0 \<and> parse_ip s = Some (cl_IP c)))"

definition registry_inv :: "registry \<Rightarrow> bool" where
  "registry_inv r \<longleftrightarrow>
     finite (dom (clients_of r)) \<and> (\<forall>k c. clients_of r k = Some c \<longrightarrow> client_ok k c)"

text \<open>The registry as a state machine: packets are learned, expired clients removed.\<close>

inductive registry_step :: "registry \<Rightarrow> registry \<Rightarrow> bool" where
  learned: "registry_step r (learn now e r)"
| cleaned: "enumerates ks (clients_of r) \<Longrightarrow> registry_step r (Cleanup ks now r)"

inductive_cases registry_stepE: "registry_step r r'"

lemma fixed_entry_ok: "fixed_entry f i k c \<Longrightarrow> client_ok k c"
  by (auto simp: fixed_entry_def client_ok_def fixed_client_def dest: parse_ip_no_bar)

lemma learn_cases:
  obtains "clients_of (learn now e r) = clients_of r"
  | k ip mac i where "source_key e = Some k" and "k = keyForClient i (ip_string ip)"
    and "clients_of (learn now e r) = (clients_of r)(k \<mapsto>
       \<lparr>cl_IP = ip, cl_Interface = i, cl_LastSeen = now, cl_MAC = mac\<rparr>)"
    and "\<And>c. clients_of r k = Some c \<Longrightarrow> cl_LastSeen c \<noteq> 0"
proof -
  obtain iname p where e: "e = (iname, p)" by (cases e)
  show thesis
  proof (cases "rg_clients r = None \<or> packet_source p = None")
    case True
    then have "clients_of (learn now e r) = clients_of r"
      by (auto simp: e clients_of_def learn_def ProcessForInterface_eq split: option.splits)
    then show thesis by (rule that(1))
  next
    case False
    then obtain ip mac where s: "packet_source p = Some (ip, mac)" by auto
    let ?k = "keyForClient (learn_iface iname p) (ip_string ip)"
    have c: "clients_of (learn now e r) =
        store_client now (learn_iface iname p) ip mac (clients_of r)"
      using False s by (simp add: e clients_of_learn)
    have k: "source_key e = Some ?k" using s by (simp add: e source_key_def)
    show thesis
    proof (cases "\<exists>c. clients_of r ?k = Some c \<and> cl_LastSeen c = 0")
      case True
      then have "clients_of (learn now e r) = clients_of r"
        by (auto simp: c store_client_def Let_def)
      then show thesis by (rule that(1))
    next
      case False
      then have "clients_of (learn now e r) = (clients_of r)(?k \<mapsto>
         \<lparr>cl_IP = ip, cl_Interface = learn_iface iname p, cl_LastSeen = now, cl_MAC = mac\<rparr>)"
        by (auto simp: c store_client_def Let_def split: option.splits)
      with k False show thesis by (intro that(2)) auto
    qed
  qed
qed

lemma registry_inv_learn:
  assumes "registry_inv r"
  shows "registry_inv (learn now e r)"
proof (cases rule: learn_cases [of now e r])
  case 1
  with assms show ?thesis by (simp add: registry_inv_def)
next
  case (2 k ip mac i)
  from assms 2(3) show ?thesis
    by (auto simp: registry_inv_def 2(2) client_ok_def)
qed

lemma registry_inv_Cleanup:
  assumes "registry_inv r" and "enumerates ks (clients_of r)"
  shows "registry_inv (Cleanup ks now r)"
proof -
  have "clients_of (Cleanup ks now r) k = Some c \<Longrightarrow> clients_of r k = Some c" for k c
    by (auto simp: clients_of_Cleanup [OF assms(2)] split: option.splits if_splits)
  moreover from this have "dom (clients_of (Cleanup ks now r)) \<subseteq> dom (clients_of r)" by blast
  ultimately show ?thesis
    using assms(1) by (auto simp: registry_inv_def intro: finite_subset)
qed

lemma registry_step_inv: "registry_step r r' \<Longrightarrow> registry_inv r \<Longrightarrow> registry_inv r'"
  by (auto elim!: registry_stepE intro: registry_inv_learn registry_inv_Cleanup)

lemma registry_reachable_inv:
  "registry_step\<^sup>*\<^sup>* r r' \<Longrightarrow> registry_inv r \<Longrightarrow> registry_inv r'"
  by (induction rule: rtranclp_induct) (auto intro: registry_step_inv)

lemma registry_inv_New:
  assumes "NewRegistryProcessorByInterface ttl f is = Inr r" and "enumerates is f"
  shows "registry_inv r"
proof -
  note e = NewRegistryProcessorByInterface_Inr(3) [OF assms]
  have "dom (clients_of r) \<subseteq> (\<Union>i\<in>set is. keyForClient i ` set (the (f i)))"
  proof
    fix k assume "k \<in> dom (clients_of r)"
    then obtain c where "clients_of r k = Some c" by auto
    then obtain i where "i \<in> dom f" and "fixed_entry f i k c" using e by blast
    then have "k \<in> keyForClient i ` set (the (f i))" by (auto simp: fixed_entry_def)
    with \<open>i \<in> dom f\<close> assms(2) show "k \<in> (\<Union>i\<in>set is. keyForClient i ` set (the (f i)))"
      by (auto simp only: enumerates_def)
  qed
  then have "finite (dom (clients_of r))"
    by (rule finite_subset) auto
  then show ?thesis by (auto simp: registry_inv_def e intro: fixed_entry_ok)
qed

lemma pinned_step:
  assumes "registry_step r r'" and "clients_of r k = Some c" and "cl_LastSeen c = 0"
  shows "clients_of r' k = Some c"
  using assms(1)
proof cases
  case (learned now e)
  then show ?thesis using assms(2,3)
    by (cases rule: learn_cases [of now e r]) (auto split: if_splits)
next
  case (cleaned ks now)
  then show ?thesis using assms(2,3) by (auto simp: clients_of_Cleanup expired_def)
qed

section \<open>The registry as an expiring store\<close>

text \<open>
  The contract of a store whose entries are refreshed by events and dropped by
  clean-ups: \<open>seen\<close> is the time an entry was last refreshed, with 0 for an entry
  that is pinned.  What follows from it for whole runs is proved here once.
\<close>

datatype ('e, 'o) store_event = Touch int 'e | Expire int 'o

fun event_time :: "('e, 'o) store_event \<Rightarrow> int" where
  "event_time (Touch t e) = t"
| "event_time (Expire t ks) = t"

fun run_store :: "(int \<Rightarrow> 'e \<Rightarrow> 'r \<Rightarrow> 'r) \<Rightarrow> ('o \<Rightarrow> int \<Rightarrow> 'r \<Rightarrow> 'r) \<Rightarrow>
    ('e, 'o) store_event list \<Rightarrow> 'r \<Rightarrow> 'r" where
  "run_store touch expire [] r = r"
| "run_store touch expire (Touch t e # es) r = run_store touch expire es (touch t e r)"
| "run_store touch expire (Expire t ks # es) r = run_store touch expire es (expire ks t r)"

fun run_valid :: "(int \<Rightarrow> 'e \<Rightarrow> 'r \<Rightarrow> 'r) \<Rightarrow> ('o \<Rightarrow> int \<Rightarrow> 'r \<Rightarrow> 'r) \<Rightarrow>
    ('o \<Rightarrow> 'r \<Rightarrow> bool) \<Rightarrow> ('e, 'o) store_event list \<Rightarrow> 'r \<Rightarrow> bool" where
  "run_valid touch expire ok [] r = True"
| "run_valid touch expire ok (Touch t e # es) r = run_valid touch expire ok es (touch t e r)"
| "run_valid touch expire ok (Expire t ks # es) r =
     (ok ks r \<and> run_valid touch expire ok es (expire ks t r))"

locale expiring_store =
  fixes seen :: "'r \<Rightarrow> 'k \<Rightarrow> int option"
    and touch :: "int \<Rightarrow> 'e \<Rightarrow> 'r \<Rightarrow> 'r"
    and key_of :: "'e \<Rightarrow> 'k option"
    and expire :: "'o \<Rightarrow> int \<Rightarrow> 'r \<Rightarrow> 'r"
    and ok :: "'o \<Rightarrow> 'r \<Rightarrow> bool"
    and ttl :: "'r \<Rightarrow> duration"
    and live :: "'r \<Rightarrow> bool"
  assumes seen_touch: "live r \<Longrightarrow> seen (touch t e r) k =
      (if key_of e = Some k \<and> seen r k \<noteq> Some 0 then Some t else seen r k)"
    and seen_expire: "live r \<Longrightarrow> ok ks r \<Longrightarrow> seen (expire ks t r) k =
      (case seen r k of None \<Rightarrow> None
       | Some u \<Rightarrow> if u \<noteq> 0 \<and> ttl r < time_sub t u then None else Some u)"
    and ttl_touch: "ttl (touch t e r) = ttl r"
    and ttl_expire: "ttl (expire ks t r) = ttl r"
    and live_touch: "live r \<Longrightarrow> live (touch t e r)"
    and live_expire: "live r \<Longrightarrow> live (expire ks t r)"
begin

lemmas store_laws = seen_touch seen_expire ttl_touch ttl_expire live_touch live_expire

lemma run_live: "live r \<Longrightarrow> live (run_store touch expire es r)"
proof (induction es arbitrary: r)
  case (Cons x es)
  then show ?case by (cases x) (simp_all add: store_laws)
qed simp

lemma run_ttl: "ttl (run_store touch expire es r) = ttl r"
proof (induction es arbitrary: r)
  case (Cons x es)
  then show ?case by (cases x) (simp_all add: store_laws)
qed simp

lemma run_store_append:
  "run_store touch expire (es @ es') r = run_store touch expire es' (run_store touch expire es r)"
proof (induction es arbitrary: r)
  case (Cons x es)
  then show ?case by (cases x) simp_all
qed simp

lemma run_valid_append:
  "run_valid touch expire ok (es @ es') r \<longleftrightarrow>
     run_valid touch expire ok es r \<and> run_valid touch expire ok es' (run_store touch expire es r)"
proof (induction es arbitrary: r)
  case (Cons x es)
  then show ?case by (cases x) simp_all
qed simp

lemma pinned:
  "run_valid touch expire ok es r \<Longrightarrow> live r \<Longrightarrow> seen r k = Some 0 \<Longrightarrow>
     seen (run_store touch expire es r) k = Some 0"
proof (induction es arbitrary: r)
  case (Cons x es)
  then show ?case by (cases x) (simp_all add: store_laws)
qed simp

lemma fresh_enough:
  "s \<le> t + d \<Longrightarrow> t \<le> u \<Longrightarrow> 0 \<le> d \<Longrightarrow> time_sub s u \<le> d"
  by (auto simp: time_sub_def)

lemma survives:
  "run_valid touch expire ok es r \<Longrightarrow> live r \<Longrightarrow> 0 \<le> ttl r \<Longrightarrow>
   seen r k = Some u \<Longrightarrow> u = 0 \<or> t \<le> u \<Longrightarrow>
   (\<And>e. e \<in> set es \<Longrightarrow> t \<le> event_time e \<and> event_time e \<le> t + ttl r) \<Longrightarrow>
   \<exists>u'. seen (run_store touch expire es r) k = Some u' \<and> (u' = 0 \<or> t \<le> u')"
proof (induction es arbitrary: r u)
  case (Cons x es)
  show ?case
  proof (cases x)
    case (Touch s e)
    with Cons.prems have "seen (touch s e r) k = Some (if key_of e = Some k \<and> u \<noteq> 0 then s else u)"
      by (simp add: seen_touch)
    then show ?thesis
      using Cons.prems(6) [of x]
        Cons.IH [of "touch s e r" "if key_of e = Some k \<and> u \<noteq> 0 then s else u"] Cons.prems Touch
      by (auto simp: store_laws)
  next
    case (Expire s ks)
    have "s \<le> t + ttl r" using Cons.prems(6) [of x] by (simp add: Expire)
    then have "u = 0 \<or> \<not> ttl r < time_sub s u"
      using fresh_enough [of s t "ttl r" u] Cons.prems(3,5) by auto
    then have "seen (expire ks s r) k = Some u"
      using Cons.prems Expire by (auto simp: seen_expire)
    then show ?thesis
      using Cons.IH [of "expire ks s r" u] Cons.prems Expire by (simp add: store_laws)
  qed
qed auto

text \<open>An entry no event refreshes stays as it is or disappears for good.\<close>

lemma untouched:
  "run_valid touch expire ok es r \<Longrightarrow> live r \<Longrightarrow>
   (\<And>t e. Touch t e \<in> set es \<Longrightarrow> key_of e \<noteq> Some k) \<Longrightarrow>
     seen (run_store touch expire es r) k = seen r k \<or> seen (run_store touch expire es r) k = None"
proof (induction es arbitrary: r)
  case (Cons x es)
  show ?case
  proof (cases x)
    case (Touch s e)
    with Cons.prems have "seen (touch s e r) k = seen r k"
      using Cons.prems(3) [of s e] by (simp add: seen_touch)
    with Cons Touch show ?thesis by (fastforce simp: store_laws)
  next
    case (Expire s ks)
    with Cons.prems have "seen (expire ks s r) k = seen r k \<or> seen (expire ks s r) k = None"
      by (auto simp: seen_expire split: option.splits)
    with Cons Expire show ?thesis by (fastforce simp: store_laws)
  qed
qed simp

lemma expires:
  assumes "run_valid touch expire ok (es @ [Expire t ks]) r" and "live r"
    and "\<And>t e. Touch t e \<in> set es \<Longrightarrow> key_of e \<noteq> Some k"
    and "seen r k = Some u" and "u \<noteq> 0" and "ttl r < time_sub t u"
  shows "seen (run_store touch expire (es @ [Expire t ks]) r) k = None"
proof -
  let ?r = "run_store touch expire es r"
  have "live ?r" and "ok ks ?r"
    using assms(1,2) by (simp_all add: run_valid_append run_live)
  moreover have "seen ?r k = Some u \<or> seen ?r k = None"
    using untouched [of es r k] assms(1-4) by (simp add: run_valid_append)
  ultimately show ?thesis
    using assms(5,6) by (auto simp: run_store_append seen_expire run_ttl)
qed

end

interpretation reg: expiring_store
  "\<lambda>r k. map_option cl_LastSeen (clients_of r k)" learn source_key Cleanup
  "\<lambda>ks r. enumerates ks (clients_of r)" rg_TTL "\<lambda>r. rg_clients r \<noteq> None"
proof unfold_locales
  fix r :: registry and t and e :: "string \<times> packet" and k
  assume r: "rg_clients r \<noteq> None"
  obtain iname p where e: "e = (iname, p)" by (cases e)
  show "map_option cl_LastSeen (clients_of (learn t e r) k) =
      (if source_key e = Some k \<and> map_option cl_LastSeen (clients_of r k) \<noteq> Some 0
       then Some t else map_option cl_LastSeen (clients_of r k))"
    using r by (cases "\<exists>ip mac. packet_source p = Some (ip, mac) \<and>
        k = keyForClient (learn_iface iname p) (ip_string ip)")
      (auto simp: e source_key_def clients_of_learn store_client_same store_client_other
        split: option.splits)
next
  fix r :: registry and ks t k
  assume "enumerates ks (clients_of r)"
  then show "map_option cl_LastSeen (clients_of (Cleanup ks t r) k) =
      (case map_option cl_LastSeen (clients_of r k) of None \<Rightarrow> None
       | Some u \<Rightarrow> if u \<noteq> 0 \<and> rg_TTL r < time_sub t u then None else Some u)"
    by (simp add: clients_of_Cleanup expired_def split: option.splits)
qed simp_all

section \<open>The registry as a directory of clients\<close>

text \<open>
  What a route needs of the registry: the clients of an interface, in some order, are
  the known clients filed under that interface, each as often whatever the order.
\<close>

locale client_directory =
  fixes lookup :: "'o \<Rightarrow> 'r \<Rightarrow> string \<Rightarrow> client_info list"
    and ok :: "'o \<Rightarrow> 'r \<Rightarrow> bool"
    and known :: "'r \<Rightarrow> client_info multiset"
  assumes lookup_known: "ok ks r \<Longrightarrow> mset (lookup ks r i) = {#c \<in># known r. cl_Interface c = i#}"
begin

lemma lookup_set: "ok ks r \<Longrightarrow> set (lookup ks r i) = {c. c \<in># known r \<and> cl_Interface c = i}"
  using arg_cong [OF lookup_known, of ks r set_mset i] by simp

lemma lookup_interface: "ok ks r \<Longrightarrow> c \<in> set (lookup ks r i) \<Longrightarrow> cl_Interface c = i"
  by (simp add: lookup_set)

lemma lookup_empty: "ok ks r \<Longrightarrow> lookup ks r i = [] \<longleftrightarrow> {#c \<in># known r. cl_Interface c = i#} = {#}"
  using lookup_known [of ks r i] by (metis mset_zero_iff)

end

text \<open>The entries of a registry, each once.\<close>

definition client_entries :: "registry \<Rightarrow> client_info multiset" where
  "client_entries r = image_mset (\<lambda>k. the (clients_of r k)) (mset_set (dom (clients_of r)))"

lemma enumerates_mset: "enumerates ks m \<Longrightarrow> mset ks = mset_set (dom m)"
  by (metis enumerates_def mset_set_set)

interpretation dir: client_directory GetClientsForInterface
  "\<lambda>ks r. enumerates ks (clients_of r)" client_entries
  by unfold_locales
    (simp add: GetClientsForInterface_def client_entries_def mset_filter mset_map enumerates_mset)

lemma clients_for_interface:
  assumes "enumerates ks (clients_of r)"
  shows "set (GetClientsForInterface ks r i) = {c \<in> ran (clients_of r). cl_Interface c = i}"
proof -
  have "finite (dom (clients_of r))" using assms by (metis enumerates_def finite_set)
  then have "c \<in># client_entries r \<longleftrightarrow> c \<in> ran (clients_of r)" for c
    by (force simp: client_entries_def ran_def dom_def)
  with dir.lookup_set [OF assms] show ?thesis by simp
qed

section \<open>Properties\<close>

text \<open>
  C12. Learning: a packet with an IPv4 source address makes the registry hold exactly
  that source, with its interface, MAC and the time it was seen, under the key of
  interface and address, unless the entry there is a fixed client, which stays as it
  is.  No other entry changes and the stage always lets the packet pass without error.
\<close>

theorem ProcessForInterface_learns:
  assumes "rg_clients r = Some m" and "packet_source p = Some (ip, mac)"
    and "i = (if iname = '''' then pk_ArrivalInterface p else iname)"
    and "k = keyForClient i (ip_string ip)"
  shows "ProcessForInterface now (Some r) iname (Some p) =
    ((True, None), Some (r\<lparr>rg_clients := Some
      (if \<exists>c. m k = Some c \<and> cl_LastSeen c = 0 then m
       else m(k \<mapsto> \<lparr>cl_IP = ip, cl_Interface = i, cl_LastSeen = now, cl_MAC = mac\<rparr>))\<rparr>))"
  using assms
  by (auto simp: ProcessForInterface_eq learn_iface_def store_client_def Let_def
      split: option.splits)

lemma packet_source_example:
  "src \<noteq> [] \<Longrightarrow> packet_source (example_packet i src) = Some (src, [2, 0, 0, 0, 0, 1])"
  by (simp add: packet_source_def packet_ipv4_def source_mac_def example_defs)

theorem ProcessForInterface_learns_witness:
  "ProcessForInterface 5 (Some \<lparr>rg_clients = Some Map.empty, rg_TTL = 10\<rparr>) ''eth0''
     (Some (example_packet ''eth0'' [10, 0, 0, 1])) =
   ((True, None), Some \<lparr>rg_clients = Some [keyForClient ''eth0'' (ip_string [10, 0, 0, 1]) \<mapsto>
      \<lparr>cl_IP = [10, 0, 0, 1], cl_Interface = ''eth0'', cl_LastSeen = 5,
       cl_MAC = [2, 0, 0, 0, 0, 1]\<rparr>], rg_TTL = 10\<rparr>)"
  using ProcessForInterface_learns [of "\<lparr>rg_clients = Some Map.empty, rg_TTL = 10\<rparr>" Map.empty
      "example_packet ''eth0'' [10, 0, 0, 1]" "[10, 0, 0, 1]" "[2, 0, 0, 0, 0, 1]"
      "''eth0''" "''eth0''" _ 5]
  by (simp add: packet_source_example)

text \<open>
  C13. Interface isolation: in a registry that satisfies its invariant, a packet learned
  for one interface leaves the clients of every other interface unchanged.
\<close>

theorem learn_isolates_interfaces:
  assumes "registry_inv r" and "j \<noteq> learn_iface iname p"
    and "enumerates ks (clients_of r)"
    and "enumerates ks' (clients_of (learn now (iname, p) r))"
  shows "set (GetClientsForInterface ks' (learn now (iname, p) r) j) =
    set (GetClientsForInterface ks r j)"
proof (cases rule: learn_cases [of now "(iname, p)" r])
  case 1
  then show ?thesis using assms(3,4) by (simp add: clients_for_interface)
next
  case (2 k ip mac i)
  from 2(1) obtain a where "k = keyForClient (learn_iface iname p) (ip_string a)"
    by (auto simp: source_key_def)
  with 2(2) have i: "i = learn_iface iname p"
    using keyForClient_inject [of i "ip_string ip" "learn_iface iname p" "ip_string a"] by simp
  have old: "cl_Interface c = i" if "clients_of r k = Some c" for c
  proof -
    from that assms(1) have "client_ok k c" by (simp add: registry_inv_def)
    then obtain s where "k = keyForClient (cl_Interface c) s" and "CHR ''|'' \<notin> set s"
      by (auto simp: client_ok_def)
    then show ?thesis
      using keyForClient_inject [of i "ip_string ip" "cl_Interface c" s] 2(2) by simp
  qed
  have "c \<in> ran (clients_of (learn now (iname, p) r)) \<longleftrightarrow> c \<in> ran (clients_of r)"
    if "cl_Interface c = j" for c
  proof -
    have "cl_Interface c \<noteq> i" using that assms(2) i by simp
    then show ?thesis
      unfolding ran_def 2(3) using old by (auto split: if_splits) metis
  qed
  then show ?thesis using assms(3,4) by (auto simp: clients_for_interface)
qed


lemma enumerates_single: "enumerates [k] [k \<mapsto> v]"
  by (simp add: enumerates_def)

definition one_client :: "int \<Rightarrow> registry" where
  "one_client t = \<lparr>rg_clients = Some [keyForClient ''eth0'' (ip_string [10, 0, 0, 1]) \<mapsto>
     \<lparr>cl_IP = [10, 0, 0, 1], cl_Interface = ''eth0'', cl_LastSeen = t,
      cl_MAC = [2, 0, 0, 0, 0, 1]\<rparr>], rg_TTL = 10\<rparr>"

lemma clients_of_one_client [simp]:
  "clients_of (one_client t) = [keyForClient ''eth0'' (ip_string [10, 0, 0, 1]) \<mapsto>
     \<lparr>cl_IP = [10, 0, 0, 1], cl_Interface = ''eth0'', cl_LastSeen = t,
      cl_MAC = [2, 0, 0, 0, 0, 1]\<rparr>]"
  by (simp add: one_client_def clients_of_def)

lemma one_client_simps [simp]: "rg_clients (one_client t) \<noteq> None" "rg_TTL (one_client t) = 10"
  by (simp_all add: one_client_def)

lemma registry_inv_one_client: "registry_inv (one_client t)"
  by (auto simp: registry_inv_def client_ok_def)

theorem learn_isolates_interfaces_witness:
  "set (GetClientsForInterface [keyForClient ''eth0'' (ip_string [10, 0, 0, 1]),
       keyForClient ''eth1'' (ip_string [10, 0, 1, 1])]
     (learn 6 (''eth1'', example_packet ''eth1'' [10, 0, 1, 1]) (one_client 5)) ''eth0'') =
   set (GetClientsForInterface [keyForClient ''eth0'' (ip_string [10, 0, 0, 1])] (one_client 5) ''eth0'')"
proof (rule learn_isolates_interfaces)
  show "registry_inv (one_client 5)" by (rule registry_inv_one_client)
  show "''eth0'' \<noteq> learn_iface ''eth1'' (example_packet ''eth1'' [10, 0, 1, 1])"
    by (simp add: learn_iface_def)
  show "enumerates [keyForClient ''eth0'' (ip_string [10, 0, 0, 1])] (clients_of (one_client 5))"
    by (simp add: enumerates_single)
  have "keyForClient ''eth0'' (ip_string [10, 0, 0, 1]) \<noteq> keyForClient ''eth1'' (ip_string [10, 0, 1, 1])"
    by (simp add: keyForClient_def)
  then show "enumerates [keyForClient ''eth0'' (ip_string [10, 0, 0, 1]),
       keyForClient ''eth1'' (ip_string [10, 0, 1, 1])]
     (clients_of (learn 6 (''eth1'', example_packet ''eth1'' [10, 0, 1, 1]) (one_client 5)))"
    by (auto simp: enumerates_def clients_of_learn packet_source_example store_client_def Let_def
        learn_iface_def split: if_splits)
qed

text \<open>
  C14. Clean-up removes exactly the clients that are not fixed and were last seen longer
  ago than the time to live, and keeps every other entry as it was; the order in which
  the map is visited does not matter.
\<close>

theorem Cleanup_exact:
  assumes "enumerates ks (clients_of r)"
  shows "clients_of (Cleanup ks now r) k = Some c \<longleftrightarrow>
    clients_of r k = Some c \<and>
      (cl_LastSeen c = 0 \<or> time_sub now (cl_LastSeen c) \<le> rg_TTL r)"
  by (auto simp: clients_of_Cleanup [OF assms] expired_def split: option.splits)

theorem Cleanup_exact_witness:
  "clients_of (Cleanup [keyForClient ''eth0'' (ip_string [10, 0, 0, 1])] 15 (one_client 5))
      (keyForClient ''eth0'' (ip_string [10, 0, 0, 1])) =
    Some \<lparr>cl_IP = [10, 0, 0, 1], cl_Interface = ''eth0'', cl_LastSeen = 5,
      cl_MAC = [2, 0, 0, 0, 0, 1]\<rparr>"
  by (subst Cleanup_exact) (simp_all add: enumerates_single time_sub_def)

text \<open>
  C17. A fixed client is never changed or removed: whatever packets are learned and
  clean-ups run, in any interleaving, its entry stays.
\<close>

theorem fixed_clients_persist:
  assumes "registry_step\<^sup>*\<^sup>* r r'" and "clients_of r k = Some c" and "cl_LastSeen c = 0"
  shows "clients_of r' k = Some c"
  using assms by (induction rule: rtranclp_induct) (auto intro: pinned_step)

theorem fixed_clients_persist_witness:
  "clients_of (Cleanup [keyForClient ''eth0'' (ip_string [10, 0, 0, 1])] 99 (one_client 0))
     (keyForClient ''eth0'' (ip_string [10, 0, 0, 1])) =
   Some \<lparr>cl_IP = [10, 0, 0, 1], cl_Interface = ''eth0'', cl_LastSeen = 0,
     cl_MAC = [2, 0, 0, 0, 0, 1]\<rparr>"
proof (rule fixed_clients_persist)
  have "registry_step (one_client 0)
      (Cleanup [keyForClient ''eth0'' (ip_string [10, 0, 0, 1])] 99 (one_client 0))"
    by (rule registry_step.cleaned) (simp add: enumerates_single)
  then show "registry_step\<^sup>*\<^sup>* (one_client 0)
      (Cleanup [keyForClient ''eth0'' (ip_string [10, 0, 0, 1])] 99 (one_client 0))" ..
qed simp_all

text \<open>
  C11. Every registry that the constructor with fixed addresses builds, and every
  registry reached from it, is finite and files each client under its own interface
  and a printed form of its address (the canonical one for a learned client).
\<close>

theorem registry_reachable_invariant:
  assumes "NewRegistryProcessorByInterface ttl f is = Inr r" and "enumerates is f"
    and "registry_step\<^sup>*\<^sup>* r r'"
  shows "registry_inv r'"
  using registry_reachable_inv [OF assms(3)] registry_inv_New [OF assms(1,2)] by blast

lemma New_empty: "NewRegistryProcessorByInterface ttl Map.empty [] = Inr \<lparr>rg_clients = Some Map.empty, rg_TTL = ttl\<rparr>"
  by (simp add: NewRegistryProcessorByInterface_def)

theorem registry_reachable_invariant_witness:
  "registry_inv (learn 5 (''eth0'', example_packet ''eth0'' [10, 0, 0, 1])
     \<lparr>rg_clients = Some Map.empty, rg_TTL = 10\<rparr>)"
proof (rule registry_reachable_invariant [OF New_empty])
  show "enumerates [] (Map.empty :: string \<rightharpoonup> string list)" by simp
  show "registry_step\<^sup>*\<^sup>* \<lparr>rg_clients = Some Map.empty, rg_TTL = 10\<rparr>
      (learn 5 (''eth0'', example_packet ''eth0'' [10, 0, 0, 1])
        \<lparr>rg_clients = Some Map.empty, rg_TTL = 10\<rparr>)"
    by (rule r_into_rtranclp) (rule registry_step.learned)
qed

text \<open>
  C15. A client stays known for the time to live: if it was seen at time \<open>t\<close>, then
  after any run of packets and clean-ups between \<open>t\<close> and \<open>t + TTL\<close> it is still in
  the registry, seen at \<open>t\<close> or later (or fixed).
\<close>

theorem client_survives_ttl:
  assumes "run_valid learn Cleanup (\<lambda>ks r. enumerates ks (clients_of r)) es r"
    and "rg_clients r \<noteq> None" and "0 \<le> rg_TTL r"
    and "clients_of r k = Some c" and "t = cl_LastSeen c"
    and "\<forall>e\<in>set es. t \<le> event_time e \<and> event_time e \<le> t + rg_TTL r"
  shows "\<exists>c'. clients_of (run_store learn Cleanup es r) k = Some c' \<and>
    (cl_LastSeen c' = 0 \<or> t \<le> cl_LastSeen c')"
  using reg.survives [OF assms(1-3), of k t t] assms(4-6) by auto

theorem client_survives_ttl_witness:
  "\<exists>c'. clients_of (run_store learn Cleanup
      [Expire 15 [keyForClient ''eth0'' (ip_string [10, 0, 0, 1])]] (one_client 5))
      (keyForClient ''eth0'' (ip_string [10, 0, 0, 1])) = Some c' \<and>
    (cl_LastSeen c' = 0 \<or> 5 \<le> cl_LastSeen c')"
  by (rule client_survives_ttl [OF _ _ _ clients_of_one_client [THEN fun_cong, THEN trans,
      OF fun_upd_same]]) (simp_all add: enumerates_single one_client_def clients_of_def)

text \<open>
  C16. A client that is not fixed expires: when no packet of it has been learned since
  it was last seen, a clean-up later than the time to live removes it.
\<close>

theorem client_expires:
  assumes "run_valid learn Cleanup (\<lambda>ks r. enumerates ks (clients_of r)) (es @ [Expire now ks]) r"
    and "rg_clients r \<noteq> None"
    and "\<And>t e. Touch t e \<in> set es \<Longrightarrow> source_key e \<noteq> Some k"
    and "clients_of r k = Some c" and "cl_LastSeen c \<noteq> 0"
    and "rg_TTL r < time_sub now (cl_LastSeen c)"
  shows "clients_of (run_store learn Cleanup (es @ [Expire now ks]) r) k = None"
  using reg.expires [OF assms(1-3)] assms(4-6) by simp

theorem client_expires_witness:
  "clients_of (run_store learn Cleanup
      ([] @ [Expire 16 [keyForClient ''eth0'' (ip_string [10, 0, 0, 1])]]) (one_client 5))
      (keyForClient ''eth0'' (ip_string [10, 0, 0, 1])) = None"
  by (rule client_expires [OF _ _ _ clients_of_one_client [THEN fun_cong, THEN trans,
      OF fun_upd_same]]) (simp_all add: enumerates_single one_client_def clients_of_def time_sub_def)

text \<open>
  The shared registry is built exactly when every configured address parses, and
  then holds one fixed client for each of them, filed under its interface, and nothing
  else, whatever the order in which the map of the configuration is visited.
\<close>

theorem NewRegistryProcessorByInterface_correct:
  assumes "enumerates is f"
  shows "((\<exists>r. NewRegistryProcessorByInterface ttl f is = Inr r) \<longleftrightarrow>
      (\<forall>i ips. f i = Some ips \<longrightarrow> (\<forall>s\<in>set ips. parse_ip s \<noteq> None))) \<and>
    (\<forall>r k c. NewRegistryProcessorByInterface ttl f is = Inr r \<longrightarrow>
      (clients_of r k = Some c \<longleftrightarrow>
        (\<exists>i ips s ip. f i = Some ips \<and> s \<in> set ips \<and> parse_ip s = Some ip \<and>
           k = keyForClient i s \<and> c = fixed_client i ip)))"
proof (intro conjI allI impI)
  have "(\<exists>r. NewRegistryProcessorByInterface ttl f is = Inr r) \<longleftrightarrow>
      (\<exists>m. add_fixed_interfaces f is Map.empty = Inr m)"
    by (auto simp: NewRegistryProcessorByInterface_def split: sum.splits)
  also have "\<dots> \<longleftrightarrow> (\<forall>i\<in>dom f. \<forall>s\<in>set (the (f i)). parse_ip s \<noteq> None)"
    using assms by (simp only: add_fixed_interfaces_ok enumerates_def)
  also have "\<dots> \<longleftrightarrow> (\<forall>i ips. f i = Some ips \<longrightarrow> (\<forall>s\<in>set ips. parse_ip s \<noteq> None))"
    by (rule ball_dom_the [where P = "\<lambda>i ips. \<forall>s\<in>set ips. parse_ip s \<noteq> None"])
  finally show "(\<exists>r. NewRegistryProcessorByInterface ttl f is = Inr r) \<longleftrightarrow>
      (\<forall>i ips. f i = Some ips \<longrightarrow> (\<forall>s\<in>set ips. parse_ip s \<noteq> None))" .
next
  fix r k c
  assume "NewRegistryProcessorByInterface ttl f is = Inr r"
  then have "clients_of r k = Some c \<longleftrightarrow> (\<exists>i\<in>dom f. fixed_entry f i k c)"
    using assms by (rule NewRegistryProcessorByInterface_Inr(3))
  then show "clients_of r k = Some c \<longleftrightarrow>
      (\<exists>i ips s ip. f i = Some ips \<and> s \<in> set ips \<and> parse_ip s = Some ip \<and>
         k = keyForClient i s \<and> c = fixed_client i ip)"
    by (simp only: fixed_entry_def dom_def mem_Collect_eq Bex_def) (metis option.distinct(1) option.exhaust_sel option.sel)
qed

theorem NewRegistryProcessorByInterface_correct_witness:
  "\<exists>r. NewRegistryProcessorByInterface 10 [''vpn0'' \<mapsto> [''192.168.10.50'']] [''vpn0''] = Inr r"
proof -
  have "parse_ip ''192.168.10.50'' \<noteq> None" by code_simp
  then show ?thesis
    using NewRegistryProcessorByInterface_correct
      [OF enumerates_single [of "''vpn0''" "[''192.168.10.50'']"], of 10] by simp
qed

text \<open>
  The clients of an interface are the entries filed under it, each as often as in
  the registry, whatever the order in which the map is visited.
\<close>

theorem GetClientsForInterface_correct:
  assumes "enumerates ks (clients_of r)" and "enumerates ks' (clients_of r)"
  shows "mset (GetClientsForInterface ks r i) = mset (GetClientsForInterface ks' r i) \<and>
    set (GetClientsForInterface ks r i) = {c \<in> ran (clients_of r). cl_Interface c = i}"
  using dir.lookup_known [OF assms(1)] dir.lookup_known [OF assms(2)] clients_for_interface [OF assms(1)] by simp

theorem GetClientsForInterface_correct_witness:
  "mset (GetClientsForInterface [keyForClient ''eth0'' (ip_string [10, 0, 0, 1])] (one_client 5) ''eth0'') =
     mset (GetClientsForInterface [keyForClient ''eth0'' (ip_string [10, 0, 0, 1])] (one_client 5) ''eth0'') \<and>
   set (GetClientsForInterface [keyForClient ''eth0'' (ip_string [10, 0, 0, 1])] (one_client 5) ''eth0'') =
     {c \<in> ran (clients_of (one_client 5)). cl_Interface c = ''eth0''}"
  by (rule GetClientsForInterface_correct) (simp_all add: enumerates_single)

end
