(* ===== verification/Route.thy ===== *)
theory Route
  imports Rewrite Registry
begin

text \<open>
  \<^verbatim>\<open>internal/proxy/stages/route_sink.go\<close>: the sink of a pipeline that stands for an
  egress interface.  It chooses the targets of a packet (the clients known on the
  interface, or its broadcast address), rewrites the packet for each of them and hands
  the result to its own processors and sinks.
\<close>

section \<open>Operations\<close>

record route_target =
  rt_IP :: ip
  rt_MAC :: mac
  rt_BroadcastDestMAC :: bool
  rt_AllowBroadcastMAC :: bool

text \<open>
  \<open>rs_Registry\<close> is the pointer to the registry, as the function that reads it in the
  current state, or nil.
\<close>

record 'w route_sink =
  rs_Iname :: string
  rs_Broadcast :: bool
  rs_BroadcastAddress :: ip
  rs_HardwareAddr :: mac
  rs_Registry :: "('w \<Rightarrow> registry) option"
  rs_LinkType :: link_type
  rs_Processors :: "'w processor list"
  rs_Sinks :: "'w sink list"

definition RouteName :: "'w route_sink \<Rightarrow> string" where
  "RouteName s = ''RouteSink('' @ rs_Iname s @ '')''"

definition client_target :: "'w route_sink \<Rightarrow> client_info \<Rightarrow> route_target" where
  "client_target s client =
     \<lparr>rt_IP = cl_IP client, rt_MAC = cl_MAC client, rt_BroadcastDestMAC = False,
      rt_AllowBroadcastMAC = rs_Broadcast s\<rparr>"

definition broadcast_target :: "'w route_sink \<Rightarrow> route_target" where
  "broadcast_target s =
     \<lparr>rt_IP = rs_BroadcastAddress s, rt_MAC = [], rt_BroadcastDestMAC = True,
      rt_AllowBroadcastMAC = False\<rparr>"

text \<open>\<open>ks\<close> is the order in which the clients of the registry are visited.\<close>

definition targetsForPacket :: "string list \<Rightarrow> 'w route_sink \<Rightarrow> 'w \<Rightarrow> route_target list" where
  "targetsForPacket ks s w =
     (let targets = (case rs_Registry s of
            None \<Rightarrow> []
          | Some get \<Rightarrow> map (client_target s) (GetClientsForInterface ks (get w) (rs_Iname s)))
      in if targets \<noteq> [] then targets
         else if rs_Broadcast s then [broadcast_target s] else [])"

definition target_options :: "'w route_sink \<Rightarrow> route_target \<Rightarrow> rewrite_options" where
  "target_options s target =
     \<lparr>ro_TargetIP = rt_IP target, ro_TargetMAC = rt_MAC target, ro_SourceMAC = rs_HardwareAddr s,
      ro_EgressLinkType = rs_LinkType s, ro_AllowBroadcastDstMAC = rt_AllowBroadcastMAC target,
      ro_ForceBroadcastDestMAC = rt_BroadcastDestMAC target, ro_ArrivalInterface = '''',
      ro_OutputArrivalInterface = rs_Iname s\<rparr>"

definition writeToTarget :: "gopacket_lib \<Rightarrow> 'w route_sink \<Rightarrow> packet \<Rightarrow> route_target \<Rightarrow> 'w \<Rightarrow>
    panic + 'w" where
  "writeToTarget lib s pkt target w =
     (case PacketForEgress lib (Some pkt) (target_options s target) of
        Inl e \<Rightarrow> Inr w
      | Inr rewritten \<Rightarrow>
          bind_panic (process_all (rs_Processors s) rewritten w)
            (\<lambda>(continueProcessing, rewritten', w').
               if \<not> continueProcessing then Inr w' else write_all (rs_Sinks s) rewritten' w'))"

fun write_targets :: "gopacket_lib \<Rightarrow> 'w route_sink \<Rightarrow> packet \<Rightarrow> route_target list \<Rightarrow> 'w \<Rightarrow>
    panic + 'w" where
  "write_targets lib s pkt [] w = Inr w"
| "write_targets lib s pkt (target # targets) w =
     bind_panic (writeToTarget lib s pkt target w) (write_targets lib s pkt targets)"

text \<open>\<open>order w\<close> is the order in which the clients are visited in state \<open>w\<close>.\<close>

definition RouteWrite :: "gopacket_lib \<Rightarrow> ('w \<Rightarrow> string list) \<Rightarrow> 'w route_sink \<Rightarrow> packet option \<Rightarrow>
    'w \<Rightarrow> panic + (go_error option \<times> 'w)" where
  "RouteWrite lib order s pkt w = (case pkt of
       None \<Rightarrow> Inr (None, w)
     | Some p \<Rightarrow>
         let targets = targetsForPacket (order w) s w in
         if targets = [] then Inr (None, w)
         else bind_panic (write_targets lib s p targets w) (\<lambda>w'. Inr (None, w')))"

fun close_route_sinks :: "'w sink list \<Rightarrow> go_error option \<Rightarrow> 'w \<Rightarrow> go_error option \<times> 'w" where
  "close_route_sinks [] firstErr w = (firstErr, w)"
| "close_route_sinks (sink # sinks) firstErr w =
     (case sk_Close sink w of (err, w') \<Rightarrow>
        close_route_sinks sinks (if err \<noteq> None \<and> firstErr = None then err else firstErr) w')"

definition RouteClose :: "'w route_sink \<Rightarrow> 'w \<Rightarrow> go_error option \<times> 'w" where
  "RouteClose s w = close_route_sinks (rs_Sinks s) None w"

text \<open>A route as a value of the interface \<^verbatim>\<open>Sink\<close>.\<close>

definition route_as_sink :: "gopacket_lib \<Rightarrow> ('w \<Rightarrow> string list) \<Rightarrow> 'w route_sink \<Rightarrow> 'w sink" where
  "route_as_sink lib order s =
     \<lparr>sk_Write = (\<lambda>p. RouteWrite lib order s (Some p)), sk_Close = RouteClose s,
      sk_Name = RouteName s\<rparr>"

section \<open>Lemmas\<close>

definition route_clients :: "string list \<Rightarrow> 'w route_sink \<Rightarrow> 'w \<Rightarrow> client_info list" where
  "route_clients ks s w = (case rs_Registry s of
     None \<Rightarrow> [] | Some get \<Rightarrow> GetClientsForInterface ks (get w) (rs_Iname s))"

lemma targetsForPacket_eq:
  "targetsForPacket ks s w =
     (if route_clients ks s w \<noteq> [] then map (client_target s) (route_clients ks s w)
      else if rs_Broadcast s then [broadcast_target s] else [])"
  by (simp add: targetsForPacket_def route_clients_def split: option.splits)

text \<open>The targets of a route, for any directory of clients in the place of the registry.\<close>

definition targets_from :: "'w route_sink \<Rightarrow> client_info list \<Rightarrow> route_target list" where
  "targets_from s clients =
     (if clients \<noteq> [] then map (client_target s) clients
      else if rs_Broadcast s then [broadcast_target s] else [])"

context client_directory
begin

lemma targets_entries:
  assumes "ok ks r"
  shows "mset (targets_from s (lookup ks r (rs_Iname s))) =
    (let clients = {#c \<in># known r. cl_Interface c = rs_Iname s#} in
     if clients \<noteq> {#} then image_mset (client_target s) clients
     else if rs_Broadcast s then {#broadcast_target s#} else {#})"
proof (cases "lookup ks r (rs_Iname s) = []")
  case True
  with lookup_empty [OF assms] have "{#c \<in># known r. cl_Interface c = rs_Iname s#} = {#}" by blast
  with True show ?thesis by (simp only: targets_from_def Let_def simp_thms if_False if_True mset.simps) simp
next
  case False
  with lookup_empty [OF assms] have "{#c \<in># known r. cl_Interface c = rs_Iname s#} \<noteq> {#}" by blast
  with False lookup_known [OF assms, of "rs_Iname s"] show ?thesis
    by (simp only: targets_from_def Let_def simp_thms if_True mset_map not_False_eq_True)
qed

end

lemma targetsForPacket_from:
  "rs_Registry s = Some get \<Longrightarrow>
     targetsForPacket ks s w = targets_from s (GetClientsForInterface ks (get w) (rs_Iname s))"
  by (simp add: targetsForPacket_eq targets_from_def route_clients_def)

lemma writeToTarget_safe:
  assumes "decodes_typed lib"
    and "\<And>proc. proc \<in> set (rs_Processors s) \<Longrightarrow> safe_processor proc decoded ok"
    and "\<And>sink. sink \<in> set (rs_Sinks s) \<Longrightarrow> safe_sink sink decoded ok"
    and "ok w"
  shows "\<exists>w'. writeToTarget lib s p t w = Inr w' \<and> ok w'"
proof (cases "PacketForEgress lib (Some p) (target_options s t)")
  case (Inl e)
  with assms(4) show ?thesis by (simp add: writeToTarget_def)
next
  case (Inr q)
  from process_all_safe [of "rs_Processors s" decoded ok, OF assms(2)
      PacketForEgress_decoded [OF assms(1) Inr] assms(4)]
  obtain c q' w' where q': "process_all (rs_Processors s) q w = Inr (c, q', w')"
    and "decoded q'" and "ok w'" by blast
  with write_all_safe [of "rs_Sinks s" decoded ok q' w', OF assms(3)] Inr show ?thesis
    by (auto simp: writeToTarget_def)
qed

lemma write_targets_safe:
  assumes "decodes_typed lib"
    and "\<And>proc. proc \<in> set (rs_Processors s) \<Longrightarrow> safe_processor proc decoded ok"
    and "\<And>sink. sink \<in> set (rs_Sinks s) \<Longrightarrow> safe_sink sink decoded ok"
  shows "ok w \<Longrightarrow> \<exists>w'. write_targets lib s p ts w = Inr w' \<and> ok w'"
proof (induction ts arbitrary: w)
  case (Cons t ts)
  from writeToTarget_safe [OF assms Cons.prems]
  obtain w' where "writeToTarget lib s p t w = Inr w'" and "ok w'" by blast
  with Cons.IH show ?case by simp
qed simp

lemma close_route_sinks_state: "snd (close_route_sinks sinks e w) = close_sinks sinks w"
  by (induction sinks arbitrary: e w) (simp_all add: split_beta)

text \<open>A route over safe stages is a safe sink, so routes compose with pipelines.\<close>

lemma route_safe_sink:
  assumes "decodes_typed lib"
    and "\<And>proc. proc \<in> set (rs_Processors s) \<Longrightarrow> safe_processor proc decoded ok"
    and "\<And>sink. sink \<in> set (rs_Sinks s) \<Longrightarrow> safe_sink sink decoded ok"
  shows "safe_sink (route_as_sink lib order s) decoded ok"
proof
  fix p w
  assume "ok w"
  from write_targets_safe [OF assms this, of s p "targetsForPacket (order w) s w"]
  obtain w' where w': "write_targets lib s p (targetsForPacket (order w) s w) w = Inr w'" "ok w'"
    by blast
  have "sk_Write (route_as_sink lib order s) p w =
      Inr (None, if targetsForPacket (order w) s w = [] then w else w')"
    using w'(1) by (simp add: route_as_sink_def RouteWrite_def Let_def)
  with w'(2) \<open>ok w\<close>
  show "\<exists>err w'. sk_Write (route_as_sink lib order s) p w = Inr (err, w') \<and> ok w'" by simp
next
  fix w
  assume "ok w"
  then have "ok (close_sinks (rs_Sinks s) w)"
    using close_sinks_safe [of "rs_Sinks s" decoded ok w, OF assms(3)] by blast
  then show "ok (snd (sk_Close (route_as_sink lib order s) w))"
    by (simp add: route_as_sink_def RouteClose_def close_route_sinks_state)
qed

section \<open>Properties\<close>

text \<open>
  C7. Routing: when clients are known on the egress interface, a packet goes once to each of
  these clients, by its own address and MAC, and is not broadcast; otherwise it is
  broadcast once to the interface's broadcast address if the interface broadcasts, and
  goes nowhere if not.  The targets, counted with multiplicity, do not depend on the order in
  which the registry is visited.
\<close>

theorem targetsForPacket_correct:
  assumes "rs_Registry s = Some get" and "enumerates ks (clients_of (get w))"
  shows "mset (targetsForPacket ks s w) =
    (let clients = {#c \<in># image_mset (\<lambda>k. the (clients_of (get w) k)) (mset_set (dom (clients_of (get w)))).
         cl_Interface c = rs_Iname s#} in
     if clients \<noteq> {#} then
       image_mset (\<lambda>c. \<lparr>rt_IP = cl_IP c, rt_MAC = cl_MAC c, rt_BroadcastDestMAC = False,
         rt_AllowBroadcastMAC = rs_Broadcast s\<rparr>) clients
     else if rs_Broadcast s then
       {#\<lparr>rt_IP = rs_BroadcastAddress s, rt_MAC = [], rt_BroadcastDestMAC = True,
           rt_AllowBroadcastMAC = False\<rparr>#}
     else {#})"
  unfolding targetsForPacket_from [OF assms(1)]
  using dir.targets_entries [OF assms(2), of s]
  by (simp only: client_entries_def client_target_def [abs_def] broadcast_target_def)

definition example_route :: "bool \<Rightarrow> registry route_sink" where
  "example_route bc = \<lparr>rs_Iname = ''eth1'', rs_Broadcast = bc,
     rs_BroadcastAddress = [10, 0, 1, 255], rs_HardwareAddr = [2, 0, 0, 0, 1, 1],
     rs_Registry = Some id, rs_LinkType = LinkTypeEthernet, rs_Processors = [], rs_Sinks = []\<rparr>"

theorem targetsForPacket_correct_witness:
  "targetsForPacket [keyForClient ''eth0'' (ip_string [10, 0, 0, 1])] (example_route True) (one_client 5) =
     [\<lparr>rt_IP = [10, 0, 1, 255], rt_MAC = [], rt_BroadcastDestMAC = True, rt_AllowBroadcastMAC = False\<rparr>]"
proof -
  let ?r = "one_client 5"
  have r: "rs_Registry (example_route True) = Some id" "enumerates [keyForClient ''eth0'' (ip_string [10, 0, 0, 1])] (clients_of (id ?r))"
    "{#c \<in># image_mset (\<lambda>k. the (clients_of (id ?r) k)) (mset_set (dom (clients_of (id ?r)))).
       cl_Interface c = rs_Iname (example_route True)#} = {#}"
    by (simp_all add: example_route_def enumerates_single)
  have "mset (targetsForPacket [keyForClient ''eth0'' (ip_string [10, 0, 0, 1])] (example_route True) ?r) =
      {#\<lparr>rt_IP = [10, 0, 1, 255], rt_MAC = [], rt_BroadcastDestMAC = True, rt_AllowBroadcastMAC = False\<rparr>#}"
    unfolding targetsForPacket_correct [OF r(1,2)] Let_def r(3) by (simp add: example_route_def)
  then show ?thesis by simp
qed

text \<open>
  C8. Fan-out: a route writes, for its targets in order, the packet rewritten for the
  target to all its sinks; a target the packet cannot be rewritten for, or whose rewritten
  packet a processor drops, is skipped and does not keep the packet from the others.  The
  route itself never reports an error.
\<close>

theorem RouteWrite_fans_out:
  assumes "\<And>p w. process_all (rs_Processors s) p w = Inr (keep p w, proc_pkt p w, proc_state p w)"
    and "\<And>p w. write_all (rs_Sinks s) p w = Inr (after p w)"
  shows "RouteWrite lib order s (Some pkt) w = Inr (None,
    foldl (\<lambda>w target. case PacketForEgress lib (Some pkt) (target_options s target) of
        Inl e \<Rightarrow> w
      | Inr q \<Rightarrow> if keep q w then after (proc_pkt q w) (proc_state q w) else proc_state q w)
    w (targetsForPacket (order w) s w))"
proof -
  have "write_targets lib s pkt ts v = Inr (foldl (\<lambda>w target.
      case PacketForEgress lib (Some pkt) (target_options s target) of
        Inl e \<Rightarrow> w
      | Inr q \<Rightarrow> if keep q w then after (proc_pkt q w) (proc_state q w) else proc_state q w) v ts)"
    for ts v
    by (induction ts arbitrary: v)
      (auto simp: writeToTarget_def assms split: sum.splits)
  then show ?thesis by (simp add: RouteWrite_def Let_def)
qed

definition wire_sink :: "(registry \<times> byte list list) sink" where
  "wire_sink = \<lparr>sk_Write = (\<lambda>p (r, out). Inr (None, r, out @ [pk_Raw p])),
     sk_Close = (\<lambda>w. (None, w)), sk_Name = ''wire''\<rparr>"

definition wire_route :: "(registry \<times> byte list list) route_sink" where
  "wire_route = \<lparr>rs_Iname = ''eth0'', rs_Broadcast = True,
     rs_BroadcastAddress = [10, 0, 0, 255], rs_HardwareAddr = [2, 0, 0, 0, 0, 9],
     rs_Registry = Some fst, rs_LinkType = LinkTypeEthernet, rs_Processors = [],
     rs_Sinks = [wire_sink]\<rparr>"

theorem RouteWrite_fans_out_witness:
  "RouteWrite toy_lib (\<lambda>w. [keyForClient ''eth0'' (ip_string [10, 0, 0, 1])]) wire_route
     (Some (example_packet ''eth1'' [10, 0, 1, 5])) (one_client 5, []) =
   Inr (None, one_client 5,
     [[2, 0, 0, 0, 0, 1, 2, 0, 0, 0, 0, 9, 10, 0, 1, 5, 10, 0, 0, 1, 1, 2, 3, 4]])"
proof -
  have "targetsForPacket [keyForClient ''eth0'' (ip_string [10, 0, 0, 1])] wire_route (one_client 5, []) =
      [\<lparr>rt_IP = [10, 0, 0, 1], rt_MAC = [2, 0, 0, 0, 0, 1], rt_BroadcastDestMAC = False,
        rt_AllowBroadcastMAC = True\<rparr>]"
    by (simp add: targetsForPacket_def wire_route_def GetClientsForInterface_def client_target_def)
  moreover have "PacketForEgress toy_lib (Some (example_packet ''eth1'' [10, 0, 1, 5]))
      (target_options wire_route \<lparr>rt_IP = [10, 0, 0, 1], rt_MAC = [2, 0, 0, 0, 0, 1],
        rt_BroadcastDestMAC = False, rt_AllowBroadcastMAC = True\<rparr>) =
      Inr \<lparr>pk_Raw = [2, 0, 0, 0, 0, 1, 2, 0, 0, 0, 0, 9, 10, 0, 1, 5, 10, 0, 0, 1, 1, 2, 3, 4],
        pk_Metadata = pk_Metadata (example_packet ''eth1'' [10, 0, 1, 5]),
        pk_Packet = Some (packetFromLinkType toy_lib
          [2, 0, 0, 0, 0, 1, 2, 0, 0, 0, 0, 9, 10, 0, 1, 5, 10, 0, 0, 1, 1, 2, 3, 4] LinkTypeEthernet),
        pk_ArrivalInterface = ''eth0''\<rparr>"
    by (simp add: PacketForEgress_Inr egress_payload_def)
      (simp add: toy_lib_def example_defs target_options_def wire_route_def link_layers_def
        egress_payload_def egress_ipv4_def Let_def)
  ultimately show ?thesis
    using RouteWrite_fans_out [of wire_route "\<lambda>p w. True" "\<lambda>p w. p" "\<lambda>p w. w"
        "\<lambda>p w. (fst w, snd w @ [pk_Raw p])" toy_lib
        "\<lambda>w. [keyForClient ''eth0'' (ip_string [10, 0, 0, 1])]"
        "example_packet ''eth1'' [10, 0, 1, 5]" "(one_client 5, [])"]
    by (simp add: wire_route_def wire_sink_def split_beta)
qed

text \<open>
  Closing a route closes every one of its sinks, in order and whatever errors the
  others report, and returns the first of these errors.
\<close>

theorem RouteClose_first_error:
  assumes "\<And>sink w. sink \<in> set (rs_Sinks s) \<Longrightarrow> sk_Close sink w = (err sink, after sink w)"
  shows "RouteClose s w =
    ((case filter (\<lambda>e. e \<noteq> None) (map err (rs_Sinks s)) of [] \<Rightarrow> None | e # es \<Rightarrow> e),
     foldl (\<lambda>w sink. after sink w) w (rs_Sinks s))"
proof -
  have "close_route_sinks sinks e w =
      (if e \<noteq> None then e else (case filter (\<lambda>e. e \<noteq> None) (map err sinks) of [] \<Rightarrow> None | e # es \<Rightarrow> e),
       foldl (\<lambda>w sink. after sink w) w sinks)" if "set sinks \<subseteq> set (rs_Sinks s)" for sinks e w
    using that by (induction sinks arbitrary: e w) (auto simp: assms)
  then show ?thesis by (simp add: RouteClose_def)
qed

theorem RouteClose_first_error_witness:
  "RouteClose (\<lparr>rs_Iname = ''eth1'', rs_Broadcast = False, rs_BroadcastAddress = [],
       rs_HardwareAddr = [], rs_Registry = None, rs_LinkType = 1, rs_Processors = [],
       rs_Sinks = [log_sink ''a'' None, log_sink ''b'' None]\<rparr>) [] = (None, [''close'', ''close''])"
  by (subst RouteClose_first_error [where err = "\<lambda>s. None" and after = "\<lambda>s w. w @ [''close'']"])
    (auto simp: log_sink_def)

end
