(* ===== verification/Decode.thy ===== *)
theory Decode
  imports Stages
begin

text \<open>
  \<^verbatim>\<open>internal/proxy/stages/decode.go\<close>: the processor that prints one line per packet.  The
  output (\<^verbatim>\<open>os.Stdout\<close> when the processor has no writer) is a parameter: writing a line to it
  gives an error or none and a new state.  The text of a packet whose Ethernet layer has
  another type is left out: the code's variable is nil there, so its branch is never taken.
\<close>

section \<open>Formatting\<close>

definition two_digits :: "nat \<Rightarrow> string" where
  "two_digits n = replicate (2 - length (dec_nat n)) CHR ''0'' @ dec_nat n"

definition six_digits :: "nat \<Rightarrow> string" where
  "six_digits n = replicate (6 - length (dec_nat n)) CHR ''0'' @ dec_nat n"

text \<open>\<^verbatim>\<open>Format("15:04:05.000000")\<close> of a time of day in microseconds.\<close>

definition format_time :: "nat \<Rightarrow> string" where
  "format_time us =
     (let s = us div 1000000 in
      two_digits (s div 3600 mod 24) @ '':'' @ two_digits (s div 60 mod 60) @ '':'' @
      two_digits (s mod 60) @ ''.'' @ six_digits (us mod 1000000))"

definition formatMAC :: "mac \<Rightarrow> string" where
  "formatMAC mac = (if length mac = 0 then ''<unknown>'' else mac_string mac)"

definition ipv4_link :: "string \<Rightarrow> ipv4_layer \<Rightarrow> gopacket \<Rightarrow> string" where
  "ipv4_link prefix ipv4 g =
     prefix @ '' IPv4, IPID: 0x'' @ hex_pad 4 (unat (ip4_Id ipv4)) @ '', length '' @
     dec_nat (length (gp_data g)) @ '':''"

definition ipv6_link :: "string \<Rightarrow> ipv6_layer \<Rightarrow> gopacket \<Rightarrow> string" where
  "ipv6_link prefix ipv6 g =
     prefix @ '' IPv6, FlowLabel: '' @ dec_nat (unat (ip6_FlowLabel ipv6)) @ '', length '' @
     dec_nat (length (gp_data g)) @ '':''"

text \<open>A type assertion with \<^verbatim>\<open>ok\<close>: it fails, without a panic, also on a missing layer.\<close>

definition layer_as :: "(layer \<Rightarrow> 'l option) \<Rightarrow> layer_type \<Rightarrow> gopacket \<Rightarrow> 'l option" where
  "layer_as cast t g = Option.bind (gp_layer g t) cast"

definition formatLinkSummary :: "gopacket_lib \<Rightarrow> gopacket option \<Rightarrow> string" where
  "formatLinkSummary lib packet = (case packet of None \<Rightarrow> ''''
     | Some g \<Rightarrow> (case layer_as as_ethernet LayerTypeEthernet g of
         Some eth \<Rightarrow>
           formatMAC (eth_SrcMAC eth) @ '' > '' @ formatMAC (eth_DstMAC eth) @ '', ethertype '' @
           gl_ether_type_string lib (eth_EthernetType eth) @ '', length '' @
           dec_nat (length (gp_data g)) @ '':''
       | None \<Rightarrow>
           let rest =
             (case layer_as as_ipv4 LayerTypeIPv4 g of
                Some ipv4 \<Rightarrow> ipv4_link ''ethertype'' ipv4 g
              | None \<Rightarrow> (case layer_as as_ipv6 LayerTypeIPv6 g of
                  Some ipv6 \<Rightarrow> ipv6_link ''ethertype'' ipv6 g
                | None \<Rightarrow> ''unknown link, length '' @ dec_nat (length (gp_data g)) @ '':''))
           in if gp_layer g LayerTypeLoopback \<noteq> None then
                (case layer_as as_ipv4 LayerTypeIPv4 g of
                   Some ipv4 \<Rightarrow> ipv4_link ''loopback'' ipv4 g
                 | None \<Rightarrow> (case layer_as as_ipv6 LayerTypeIPv6 g of
                     Some ipv6 \<Rightarrow> ipv6_link ''loopback'' ipv6 g
                   | None \<Rightarrow> rest))
              else rest))"

text \<open>The length shown for the payload; \<^verbatim>\<open>udp.Length - 8\<close> is on 16 bits.\<close>

definition payload_length :: "gopacket \<Rightarrow> udp_layer \<Rightarrow> nat" where
  "payload_length g udp = (case gp_application g of
       Some app \<Rightarrow> length app
     | None \<Rightarrow> if udp_Length udp \<ge> 8 then unat (udp_Length udp - 8) else 0)"

definition formatNetworkSummary :: "gopacket_lib \<Rightarrow> gopacket option \<Rightarrow> string" where
  "formatNetworkSummary lib packet = (case packet of None \<Rightarrow> ''unknown''
     | Some g \<Rightarrow>
         (case (layer_as as_ipv4 LayerTypeIPv4 g, layer_as as_udp LayerTypeUDP g) of
            (Some ipv4, Some udp) \<Rightarrow>
              ip_string (ip4_SrcIP ipv4) @ '':'' @ dec_nat (unat (udp_SrcPort udp)) @ '' > '' @
              ip_string (ip4_DstIP ipv4) @ '':'' @ dec_nat (unat (udp_DstPort udp)) @
              '': UDP, length '' @ dec_nat (payload_length g udp) @
              '', IPID: 0x'' @ hex_pad 4 (unat (ip4_Id ipv4))
          | (Some ipv4, None) \<Rightarrow>
              ip_string (ip4_SrcIP ipv4) @ '' > '' @ ip_string (ip4_DstIP ipv4) @ '': '' @
              gl_protocol_string lib (ip4_Protocol ipv4)
          | (None, _) \<Rightarrow> gp_dump g))"

section \<open>The processor\<close>

definition DirectionInbound :: string where "DirectionInbound = ''in''"
definition DirectionOutbound :: string where "DirectionOutbound = ''out''"

record decode_processor =
  dp_Iname :: string
  dp_Direction :: string

definition NewDecodeProcessor :: "string \<Rightarrow> string \<Rightarrow> decode_processor" where
  "NewDecodeProcessor iname direction =
     \<lparr>dp_Iname = iname @ '':'' @ direction, dp_Direction = direction\<rparr>"

definition formatPacket :: "gopacket_lib \<Rightarrow> decode_processor \<Rightarrow> packet \<Rightarrow> string" where
  "formatPacket lib d pkt =
     (let parts1 = (if \<not> ci_zero (pk_Metadata pkt) then [format_time (ci_tod_us (pk_Metadata pkt))] else []);
          parts2 = (if dp_Iname d \<noteq> '''' then parts1 @ [dp_Iname d] else parts1);
          linkSummary = formatLinkSummary lib (pk_Packet pkt);
          parts3 = (if linkSummary \<noteq> '''' then parts2 @ [linkSummary] else parts2)
      in join '' '' (parts3 @ [formatNetworkSummary lib (pk_Packet pkt)]))"

definition writePacket :: "gopacket_lib \<Rightarrow> (string \<Rightarrow> 'w \<Rightarrow> go_error option \<times> 'w) \<Rightarrow> decode_processor \<Rightarrow>
    packet option \<Rightarrow> 'w \<Rightarrow> go_error option \<times> 'w" where
  "writePacket lib println d pkt w = (case pkt of None \<Rightarrow> (None, w)
     | Some p \<Rightarrow> (case pk_Packet p of None \<Rightarrow> (None, w)
     | Some g \<Rightarrow> (case println (formatPacket lib d p) w of
           (Some err, w') \<Rightarrow> (Some (Wrapf ''write decode output: '' err), w')
         | (None, w') \<Rightarrow> (None, w'))))"

definition DecodeProcess :: "gopacket_lib \<Rightarrow> (string \<Rightarrow> 'w \<Rightarrow> go_error option \<times> 'w) \<Rightarrow>
    decode_processor \<Rightarrow> packet option \<Rightarrow> 'w \<Rightarrow> bool \<times> go_error option \<times> 'w" where
  "DecodeProcess lib println d pkt w = (case pkt of None \<Rightarrow> (True, None, w)
     | Some p \<Rightarrow> (case pk_Packet p of None \<Rightarrow> (True, None, w)
     | Some g \<Rightarrow> (case writePacket lib println d pkt w of
           (Some err, w') \<Rightarrow> (False, Some err, w')
         | (None, w') \<Rightarrow> (True, None, w'))))"

definition DecodeName :: "decode_processor \<Rightarrow> string" where
  "DecodeName d = ''DecodeProcessor:'' @ dp_Iname d"

definition decode_as_processor :: "gopacket_lib \<Rightarrow> (string \<Rightarrow> 'w \<Rightarrow> go_error option \<times> 'w) \<Rightarrow>
    decode_processor \<Rightarrow> 'w processor" where
  "decode_as_processor lib println d =
     \<lparr>pr_Process = (\<lambda>p w. case DecodeProcess lib println d (Some p) w of
        (keep, err, w') \<Rightarrow> Inr (keep, err, p, w')),
      pr_Name = DecodeName d\<rparr>"

section \<open>Lemmas\<close>

text \<open>Where characters other than those of a number or an address can come from.\<close>

definition plain_char :: "char \<Rightarrow> bool" where
  "plain_char c \<longleftrightarrow> c \<notin> set ''<nil>?.:0123456789abcdef''"

lemma plain_not_hex: "plain_char c \<Longrightarrow> c \<notin> set ''0123456789abcdef''"
  by (auto simp: plain_char_def)

lemma plain_dec_nat: "plain_char c \<Longrightarrow> c \<notin> set (dec_nat n)"
  by (rule dec_nat_notin) (auto simp: plain_char_def)

lemma plain_hex_pad: "plain_char c \<Longrightarrow> c \<notin> set (hex_pad w n)"
  using hex_pad_set [of w n] plain_not_hex [of c] by blast

lemma plain_ip_string: "plain_char c \<Longrightarrow> c \<notin> set (ip_string ip)"
  unfolding plain_char_def by (rule ip_string_notin)

lemma plain_mac_string: "plain_char c \<Longrightarrow> c \<notin> set (mac_string a)"
  unfolding mac_string_def
  by (rule join_notin) (auto simp: plain_hex_pad, simp add: plain_char_def)

lemma newline_plain: "plain_char (CHR 0x0A)"
  by (simp add: plain_char_def)

lemmas newline_free =
  plain_dec_nat [OF newline_plain] plain_hex_pad [OF newline_plain]
  plain_ip_string [OF newline_plain] plain_mac_string [OF newline_plain]

lemma formatMAC_newline: "CHR 0x0A \<notin> set (formatMAC mac)"
  by (simp add: formatMAC_def newline_free)

lemma format_time_newline: "CHR 0x0A \<notin> set (format_time us)"
  by (simp add: format_time_def two_digits_def six_digits_def newline_free Let_def)

lemma formatLinkSummary_newline:
  "(\<And>t. CHR 0x0A \<notin> set (gl_ether_type_string lib t)) \<Longrightarrow> CHR 0x0A \<notin> set (formatLinkSummary lib pkt)"
  by (auto simp: formatLinkSummary_def ipv4_link_def ipv6_link_def formatMAC_newline newline_free Let_def
      split: option.splits)

lemma formatNetworkSummary_udp:
  "packet_ipv4 p = Some v \<Longrightarrow> packet_udp p = Some u \<Longrightarrow>
     CHR 0x0A \<notin> set (formatNetworkSummary lib (pk_Packet p))"
  by (auto simp: formatNetworkSummary_def layer_as_def packet_ipv4_Some packet_udp_Some newline_free)

lemma DecodeProcess_eq:
  "DecodeProcess lib println d (Some p) w =
     (if pk_Packet p = None then (True, None, w)
      else case println (formatPacket lib d p) w of
        (Some err, w') \<Rightarrow> (False, Some (Wrapf ''write decode output: '' err), w')
      | (None, w') \<Rightarrow> (True, None, w'))"
  by (auto simp: DecodeProcess_def writePacket_def split: option.splits prod.splits)

interpretation decode_stage: safe_processor "decode_as_processor lib println d" good
    "\<lambda>w. True" for lib println d good
  by unfold_locales (auto simp: decode_as_processor_def split_beta)

section \<open>Properties\<close>

text \<open>
  The decode processor prints a decoded UDP packet as exactly one line, whatever its
  addresses, ports, lengths and payload: the text has no line break of its own when the
  name of the interface and the names of the EtherTypes have none.
\<close>

theorem formatPacket_one_line:
  assumes "packet_ipv4 p = Some v" and "packet_udp p = Some u"
    and "CHR 0x0A \<notin> set (dp_Iname d)" and "\<And>t. CHR 0x0A \<notin> set (gl_ether_type_string lib t)"
  shows "CHR 0x0A \<notin> set (formatPacket lib d p)"
  unfolding formatPacket_def Let_def
  using assms formatLinkSummary_newline [OF assms(4)] formatNetworkSummary_udp [OF assms(1,2)]
  by (intro join_notin) (auto simp: format_time_newline split: if_splits)

theorem formatPacket_one_line_witness:
  "CHR 0x0A \<notin> set (formatPacket toy_lib (NewDecodeProcessor ''eth0'' DirectionInbound) (example_packet ''eth0'' [10, 0, 0, 1]))"
  by (rule formatPacket_one_line [where v = "example_ipv4 [10, 0, 0, 1] [192, 168, 1, 255]"
        and u = example_udp])
    (simp_all add: toy_lib_def packet_ipv4_Some packet_udp_Some example_packet_def example_gopacket_def
      NewDecodeProcessor_def DirectionInbound_def)

text \<open>
  Decoding is transparent: a packet passes unless the output fails, and then the
  processor reports the wrapped error; a decoded packet writes one line, one that was not
  decoded none.
\<close>

theorem DecodeProcess_transparent:
  "pr_Process (decode_as_processor lib println d) p w =
     (let w' = (if pk_Packet p = None then w else snd (println (formatPacket lib d p) w));
          err = (if pk_Packet p = None then None else fst (println (formatPacket lib d p) w))
      in Inr (err = None, map_option (Wrapf ''write decode output: '') err, p, w'))"
  by (auto simp: decode_as_processor_def DecodeProcess_eq Let_def split: option.splits prod.splits)

end
