(* ===== verification/Bus.thy ===== *)
theory Bus
  imports Packet
begin

text \<open>
  \<^verbatim>\<open>internal/proxy/bus.go\<close> and \<^verbatim>\<open>internal/proxy/stages/forwarding.go\<close>: the bus that
  copies a packet to the channels of all interfaces but the one it came from, and the
  sink that publishes on it.  A channel is a value of the store, named by a number, so
  that two interfaces may share one.
\<close>

section \<open>Channels\<close>

text \<open>
  A buffered channel: its capacity, what is buffered, the number of goroutines blocked
  in a receive, what has been handed to them, and whether it is closed.
\<close>

record 'm channel =
  ch_cap :: nat
  ch_buf :: "'m list"
  ch_waiting :: nat
  ch_handed :: "'m list"
  ch_closed :: bool

text \<open>
  A \<^verbatim>\<open>select\<close> with a send and a \<^verbatim>\<open>default\<close>.  On an open channel the message is dropped where the
  send would block (\<open>offer\<close>); on a closed one the send panics, with or without a \<^verbatim>\<open>default\<close>.
\<close>

definition offer :: "'m \<Rightarrow> 'm channel \<Rightarrow> 'm channel" where
  "offer m c =
     (if 0 < ch_waiting c then c\<lparr>ch_waiting := ch_waiting c - 1, ch_handed := ch_handed c @ [m]\<rparr>
      else if length (ch_buf c) < ch_cap c then c\<lparr>ch_buf := ch_buf c @ [m]\<rparr>
      else c)"

definition try_send :: "'m \<Rightarrow> 'm channel \<Rightarrow> panic + 'm channel" where
  "try_send m c = (if ch_closed c then Inl SendOnClosedChannel else Inr (offer m c))"

text \<open>An open channel that is in a possible state.\<close>

definition chan_ok :: "'m channel \<Rightarrow> bool" where
  "chan_ok c \<longleftrightarrow> \<not> ch_closed c \<and> length (ch_buf c) \<le> ch_cap c \<and> (0 < ch_waiting c \<longrightarrow> ch_buf c = [])"

lemma ch_closed_offer [simp]: "ch_closed (offer m c) = ch_closed c"
  by (simp add: offer_def)

lemma offer_ok: "chan_ok c \<Longrightarrow> chan_ok (offer m c)"
  by (auto simp: chan_ok_def offer_def)

section \<open>The bus\<close>

record bus_message =
  bm_Packet :: "packet option"
  bm_LinkType :: link_type

text \<open>\<open>None\<close> in the range of \<open>pb_senders\<close> is the nil channel, on which a send is never ready.\<close>

record bus =
  pb_senders :: "string \<rightharpoonup> nat option"
  pb_chans :: "nat \<Rightarrow> bus_message channel"

definition NewPacketBus :: "(nat \<Rightarrow> bus_message channel) \<Rightarrow> bus" where
  "NewPacketBus chans = \<lparr>pb_senders = Map.empty, pb_chans = chans\<rparr>"

fun publish_loop :: "string list \<Rightarrow> bus_message \<Rightarrow> (string \<rightharpoonup> nat option) \<Rightarrow>
    (nat \<Rightarrow> bus_message channel) \<Rightarrow> panic + (nat \<Rightarrow> bus_message channel)" where
  "publish_loop [] msg senders chans = Inr chans"
| "publish_loop (iname # inames) msg senders chans =
     (case bm_Packet msg of
        None \<Rightarrow> Inl NilDereference
      | Some p \<Rightarrow>
          if iname = pk_ArrivalInterface p then publish_loop inames msg senders chans
          else (case senders iname of
                  Some (Some c) \<Rightarrow>
                    bind_panic (try_send msg (chans c))
                      (\<lambda>ch. publish_loop inames msg senders (chans(c := ch)))
                | _ \<Rightarrow> publish_loop inames msg senders chans))"

definition Publish :: "string list \<Rightarrow> bus_message \<Rightarrow> bus \<Rightarrow> panic + bus" where
  "Publish inames msg b =
     (case publish_loop inames msg (pb_senders b) (pb_chans b) of
        Inl p \<Rightarrow> Inl p
      | Inr chans \<Rightarrow> Inr (b\<lparr>pb_chans := chans\<rparr>))"

definition Subscribe :: "string \<Rightarrow> nat option \<Rightarrow> bus \<Rightarrow> bus" where
  "Subscribe iname ch b = b\<lparr>pb_senders := (pb_senders b)(iname \<mapsto> ch)\<rparr>"

definition Unsubscribe :: "string \<Rightarrow> bus \<Rightarrow> bus" where
  "Unsubscribe iname b = b\<lparr>pb_senders := (pb_senders b)(iname := None)\<rparr>"

section \<open>The forwarding sink\<close>

record forwarding_sink =
  fs_Iname :: string
  fs_LinkType :: link_type

text \<open>The feed is the interface \<^verbatim>\<open>PacketFeed\<close>: its \<^verbatim>\<open>Publish\<close> is a parameter.\<close>

definition ForwardingWrite :: "(bus_message \<Rightarrow> 's \<Rightarrow> panic + 's) \<Rightarrow> forwarding_sink \<Rightarrow>
    packet option \<Rightarrow> 's \<Rightarrow> panic + (go_error option \<times> 's)" where
  "ForwardingWrite publish s pkt feed =
     bind_panic (publish \<lparr>bm_Packet = pkt, bm_LinkType = fs_LinkType s\<rparr> feed)
       (\<lambda>feed'. Inr (None, feed'))"

definition ForwardingClose :: "forwarding_sink \<Rightarrow> go_error option" where
  "ForwardingClose s = None"

definition ForwardingName :: "forwarding_sink \<Rightarrow> string" where
  "ForwardingName s = ''ForwardingSink('' @ fs_Iname s @ '')''"

section \<open>Lemmas\<close>

text \<open>The interfaces that send to channel \<open>c\<close> and are not the source.\<close>

definition targets_of :: "string \<Rightarrow> (string \<rightharpoonup> nat option) \<Rightarrow> nat \<Rightarrow> string set" where
  "targets_of src senders c = {i. senders i = Some (Some c) \<and> i \<noteq> src}"

text \<open>Whether publishing to the interfaces \<open>I\<close> comes to a closed channel.\<close>

definition meets_closed :: "string set \<Rightarrow> string \<Rightarrow> (string \<rightharpoonup> nat option) \<Rightarrow> (nat \<Rightarrow> 'm channel) \<Rightarrow> bool" where
  "meets_closed I src senders chans \<longleftrightarrow>
     (\<exists>i\<in>I. \<exists>c. senders i = Some (Some c) \<and> i \<noteq> src \<and> ch_closed (chans c))"

lemma publish_loop_eq:
  assumes "bm_Packet msg = Some p" and "distinct inames"
  shows "publish_loop inames msg senders chans =
    (if meets_closed (set inames) (pk_ArrivalInterface p) senders chans then Inl SendOnClosedChannel
     else Inr (\<lambda>c. (offer msg ^^ card (set inames \<inter> targets_of (pk_ArrivalInterface p) senders c)) (chans c)))"
  using assms(2)
proof (induction inames arbitrary: chans)
  case (Cons i js)
  let ?T = "targets_of (pk_ArrivalInterface p) senders"
  show ?case
  proof (cases "\<exists>c. senders i = Some (Some c) \<and> i \<noteq> pk_ArrivalInterface p")
    case True
    then obtain c where c: "senders i = Some (Some c)" "i \<noteq> pk_ArrivalInterface p" by auto
    then have "set (i # js) \<inter> ?T d = (if d = c then insert i (set js \<inter> ?T d) else set js \<inter> ?T d)" for d
      by (auto simp: targets_of_def)
    moreover have "meets_closed (set (i # js)) (pk_ArrivalInterface p) senders chans \<longleftrightarrow> ch_closed (chans c) \<or>
        meets_closed (set js) (pk_ArrivalInterface p) senders (chans(c := offer msg (chans c)))"
      using c by (auto simp: meets_closed_def)
    ultimately show ?thesis
      using Cons c assms(1) by (auto simp: fun_eq_iff funpow_swap1 try_send_def)
  next
    case False
    then have "set (i # js) \<inter> ?T d = set js \<inter> ?T d" for d
      by (auto simp: targets_of_def)
    moreover have "meets_closed (set (i # js)) (pk_ArrivalInterface p) senders chans \<longleftrightarrow>
        meets_closed (set js) (pk_ArrivalInterface p) senders chans"
      using False by (auto simp: meets_closed_def)
    ultimately show ?thesis using Cons False assms(1)
      by (auto split: option.splits)
  qed
qed (simp add: meets_closed_def)

lemma Publish_eq:
  assumes "enumerates inames (pb_senders b)" and "bm_Packet msg = Some p"
  shows "Publish inames msg b =
    (if meets_closed UNIV (pk_ArrivalInterface p) (pb_senders b) (pb_chans b) then Inl SendOnClosedChannel
     else Inr (b\<lparr>pb_chans := \<lambda>c.
       (offer msg ^^ card (targets_of (pk_ArrivalInterface p) (pb_senders b) c)) (pb_chans b c)\<rparr>))"
proof -
  have "meets_closed (set inames) (pk_ArrivalInterface p) (pb_senders b) (pb_chans b) =
      meets_closed UNIV (pk_ArrivalInterface p) (pb_senders b) (pb_chans b)"
    using assms(1) by (auto simp: enumerates_def meets_closed_def dom_def)
  moreover
  have "set inames \<inter> targets_of (pk_ArrivalInterface p) (pb_senders b) c =
      targets_of (pk_ArrivalInterface p) (pb_senders b) c" for c
    using assms(1) by (auto simp: enumerates_def targets_of_def)
  ultimately show ?thesis
    using assms publish_loop_eq [OF assms(2)] by (simp add: Publish_def enumerates_def)
qed

lemma offer_pow_ok: "chan_ok c \<Longrightarrow> chan_ok ((offer m ^^ n) c)"
  by (induction n) (simp_all add: offer_ok)

lemma closed_offer_pow [simp]: "ch_closed ((offer m ^^ n) c) = ch_closed c"
  by (induction n) simp_all

section \<open>The feed as an interface\<close>

text \<open>
  The contract of a packet feed that is ready: publishing a packet does not panic, leaves the
  inbox of the interface it arrived on alone, and adds at most one copy of it to any other.
\<close>

locale packet_feed =
  fixes publish :: "'o \<Rightarrow> bus_message \<Rightarrow> 's \<Rightarrow> panic + 's"
    and inbox :: "'s \<Rightarrow> string \<Rightarrow> bus_message list"
    and ready :: "'o \<Rightarrow> 's \<Rightarrow> bool"
  assumes publish_total: "ready ks s \<Longrightarrow> bm_Packet m = Some p \<Longrightarrow>
        \<exists>s'. publish ks m s = Inr s' \<and> ready ks s'"
    and publish_source: "ready ks s \<Longrightarrow> bm_Packet m = Some p \<Longrightarrow> publish ks m s = Inr s' \<Longrightarrow>
        inbox s' (pk_ArrivalInterface p) = inbox s (pk_ArrivalInterface p)"
    and publish_other: "ready ks s \<Longrightarrow> bm_Packet m = Some p \<Longrightarrow> publish ks m s = Inr s' \<Longrightarrow>
        inbox s' i = inbox s i \<or> inbox s' i = inbox s i @ [m]"
begin

lemma forward:
  assumes "ready ks s"
  shows "\<exists>s'. ForwardingWrite (publish ks) fs (Some p) s = Inr (None, s') \<and> ready ks s' \<and>
    inbox s' (pk_ArrivalInterface p) = inbox s (pk_ArrivalInterface p) \<and>
    (\<forall>i. inbox s' i = inbox s i \<or>
       inbox s' i = inbox s i @ [\<lparr>bm_Packet = Some p, bm_LinkType = fs_LinkType fs\<rparr>])"
proof -
  let ?m = "\<lparr>bm_Packet = Some p, bm_LinkType = fs_LinkType fs\<rparr>"
  have p: "bm_Packet ?m = Some p" by simp
  from publish_total [OF assms p] obtain s' where s': "publish ks ?m s = Inr s'" "ready ks s'"
    by blast
  with publish_source [OF assms p s'(1)] publish_other [OF assms p s'(1)] show ?thesis
    by (simp add: ForwardingWrite_def)
qed

end

text \<open>What an interface has been sent: what its receivers took directly, then the buffer.\<close>

definition inbox :: "bus \<Rightarrow> string \<Rightarrow> bus_message list" where
  "inbox b i = (case pb_senders b i of
       Some (Some c) \<Rightarrow> ch_handed (pb_chans b c) @ ch_buf (pb_chans b c)
     | _ \<Rightarrow> [])"

definition bus_ready :: "string list \<Rightarrow> bus \<Rightarrow> bool" where
  "bus_ready ks b \<longleftrightarrow> enumerates ks (pb_senders b) \<and> (\<forall>c. chan_ok (pb_chans b c)) \<and>
     (\<forall>i j c. pb_senders b i = Some (Some c) \<and> pb_senders b j = Some (Some c) \<longrightarrow> i = j)"

lemma bus_ready_open: "bus_ready ks b \<Longrightarrow> \<not> meets_closed UNIV src (pb_senders b) (pb_chans b)"
  by (auto simp: bus_ready_def meets_closed_def chan_ok_def)

lemma targets_of_unshared:
  assumes "bus_ready ks b" and "pb_senders b i = Some (Some c)"
  shows "targets_of src (pb_senders b) c = (if i = src then {} else {i})"
  using assms by (auto simp: targets_of_def bus_ready_def)

lemma inbox_offer:
  "chan_ok c \<Longrightarrow> ch_handed (offer m c) @ ch_buf (offer m c) =
     ch_handed c @ ch_buf c @ (if 0 < ch_waiting c \<or> length (ch_buf c) < ch_cap c then [m] else [])"
  by (auto simp: offer_def chan_ok_def)

lemma inbox_Publish:
  assumes "bus_ready ks b" and "bm_Packet m = Some p" and "Publish ks m b = Inr b'"
  shows "inbox b' i = (case pb_senders b i of
      Some (Some c) \<Rightarrow> if i \<noteq> pk_ArrivalInterface p \<and>
           (0 < ch_waiting (pb_chans b c) \<or> length (ch_buf (pb_chans b c)) < ch_cap (pb_chans b c))
         then inbox b i @ [m] else inbox b i
    | _ \<Rightarrow> [])"
proof -
  have e: "enumerates ks (pb_senders b)" and ok: "\<And>c. chan_ok (pb_chans b c)"
    using assms(1) by (simp_all add: bus_ready_def)
  have b': "b' = b\<lparr>pb_chans := \<lambda>c. (offer m ^^
      card (targets_of (pk_ArrivalInterface p) (pb_senders b) c)) (pb_chans b c)\<rparr>"
    using assms(3) by (simp add: Publish_eq [OF e assms(2)] bus_ready_open [OF assms(1)])
  show ?thesis
  proof (cases "\<exists>c. pb_senders b i = Some (Some c)")
    case True
    then obtain c where c: "pb_senders b i = Some (Some c)" by blast
    with targets_of_unshared [OF assms(1) c, of "pk_ArrivalInterface p"] ok [of c]
    show ?thesis by (simp add: inbox_def b' inbox_offer)
  next
    case False
    then show ?thesis by (auto simp: inbox_def b' split: option.splits)
  qed
qed

interpretation feed: packet_feed Publish inbox bus_ready
proof unfold_locales
  fix ks b and m :: bus_message and p
  assume r: "bus_ready ks b" and p: "bm_Packet m = Some p"
  then have "enumerates ks (pb_senders b)" by (simp add: bus_ready_def)
  from Publish_eq [OF this p] bus_ready_open [OF r] r
  show "\<exists>b'. Publish ks m b = Inr b' \<and> bus_ready ks b'"
    by (simp add: bus_ready_def offer_pow_ok)
next
  fix ks b and m :: bus_message and p b'
  assume "bus_ready ks b" and "bm_Packet m = Some p" and "Publish ks m b = Inr b'"
  from inbox_Publish [OF this]
  show "inbox b' (pk_ArrivalInterface p) = inbox b (pk_ArrivalInterface p)"
    by (simp add: inbox_def split: option.splits)
next
  fix ks b and m :: bus_message and p b' i
  assume "bus_ready ks b" and "bm_Packet m = Some p" and "Publish ks m b = Inr b'"
  from inbox_Publish [OF this]
  show "inbox b' i = inbox b i \<or> inbox b' i = inbox b i @ [m]"
    by (auto simp: inbox_def split: option.splits)
qed

section \<open>Properties\<close>

text \<open>
  C37. Publishing a packet offers it to a channel once for each interface that is subscribed
  with the channel and is not the packet's source, and touches nothing else, in whatever
  order the subscribers are visited: an open channel takes a copy if a receiver waits or
  its buffer has room, and drops it otherwise, so publishing never blocks.  It panics exactly
  when one of these channels has been closed, since a send on a closed channel does so even
  in a \<^verbatim>\<open>select\<close> with a \<^verbatim>\<open>default\<close>.
\<close>

theorem Publish_sends_once_per_interface:
  assumes "enumerates ks (pb_senders b)" and "bm_Packet msg = Some p"
  shows "Publish ks msg b =
    (if \<exists>i c. pb_senders b i = Some (Some c) \<and> i \<noteq> pk_ArrivalInterface p \<and> ch_closed (pb_chans b c)
     then Inl SendOnClosedChannel
     else Inr (b\<lparr>pb_chans := \<lambda>c.
       ((\<lambda>ch. if 0 < ch_waiting ch then ch\<lparr>ch_waiting := ch_waiting ch - 1, ch_handed := ch_handed ch @ [msg]\<rparr>
              else if length (ch_buf ch) < ch_cap ch then ch\<lparr>ch_buf := ch_buf ch @ [msg]\<rparr> else ch) ^^
         card {i. pb_senders b i = Some (Some c) \<and> i \<noteq> pk_ArrivalInterface p}) (pb_chans b c)\<rparr>))"
proof -
  have "meets_closed UNIV (pk_ArrivalInterface p) (pb_senders b) (pb_chans b) \<longleftrightarrow>
      (\<exists>i c. pb_senders b i = Some (Some c) \<and> i \<noteq> pk_ArrivalInterface p \<and> ch_closed (pb_chans b c))"
    by (simp add: meets_closed_def)
  then show ?thesis
    by (simp only: Publish_eq [OF assms] targets_of_def offer_def [abs_def])
qed

definition two_ports :: bus where
  "two_ports = \<lparr>pb_senders = [''eth0'' \<mapsto> Some 0, ''eth1'' \<mapsto> Some 1],
     pb_chans = (\<lambda>_. \<lparr>ch_cap = 1, ch_buf = [], ch_waiting = 0, ch_handed = [], ch_closed = False\<rparr>)\<rparr>"

lemma two_ports_ready: "bus_ready [''eth0'', ''eth1''] two_ports"
  by (auto simp: bus_ready_def two_ports_def enumerates_def chan_ok_def split: if_splits)

definition hello :: bus_message where
  "hello = \<lparr>bm_Packet = Some (example_packet ''eth0'' [10, 0, 0, 1]), bm_LinkType = 1\<rparr>"

theorem Publish_sends_once_per_interface_witness:
  "\<exists>b. Publish [''eth0'', ''eth1''] hello two_ports = Inr b \<and>
     ch_buf (pb_chans b 0) = [] \<and> ch_buf (pb_chans b 1) = [hello]"
proof -
  have e: "enumerates [''eth0'', ''eth1''] (pb_senders two_ports)"
    using two_ports_ready by (simp add: bus_ready_def)
  have p: "bm_Packet hello = Some (example_packet ''eth0'' [10, 0, 0, 1])" by (simp add: hello_def)
  let ?S = "\<lambda>c. {i. pb_senders two_ports i = Some (Some c) \<and> i \<noteq> ''eth0''}"
  have S: "?S 0 = {}" "?S 1 = {''eth1''}" by (auto simp: two_ports_def split: if_splits)
  have op: "\<not> ch_closed (pb_chans two_ports c)"
    and src: "pk_ArrivalInterface (example_packet ''eth0'' [10, 0, 0, 1]) = ''eth0''" for c
    by (simp_all add: two_ports_def example_packet_def)
  let ?b = "two_ports\<lparr>pb_chans := \<lambda>c.
       ((\<lambda>ch. if 0 < ch_waiting ch then ch\<lparr>ch_waiting := ch_waiting ch - 1, ch_handed := ch_handed ch @ [hello]\<rparr>
              else if length (ch_buf ch) < ch_cap ch then ch\<lparr>ch_buf := ch_buf ch @ [hello]\<rparr> else ch) ^^
         card (?S c)) (pb_chans two_ports c)\<rparr>"
  have "Publish [''eth0'', ''eth1''] hello two_ports = Inr ?b"
    unfolding Publish_sends_once_per_interface [OF e p] src using op by (simp only: simp_thms if_False)
  moreover have "card (?S 0) = 0" "card (?S 1) = 1" unfolding S by simp_all
  moreover have "ch_buf (pb_chans two_ports c) = []" "ch_waiting (pb_chans two_ports c) = 0"
    "ch_cap (pb_chans two_ports c) = 1" for c by (simp_all add: two_ports_def)
  ultimately have "ch_buf (pb_chans ?b 0) = []" "ch_buf (pb_chans ?b 1) = [hello]"
    unfolding bus.simps by (simp_all only: funpow.simps o_apply id_apply One_nat_def) simp_all
  moreover note \<open>Publish [''eth0'', ''eth1''] hello two_ports = Inr ?b\<close>
  ultimately show ?thesis by blast
qed

text \<open>
  With a channel per interface, the forwarding sink delivers a packet to every
  subscribed interface that can take it, exactly once, never to the interface it
  arrived on, and drops it where a buffer is full.
\<close>

theorem ForwardingWrite_delivers:
  assumes "bus_ready ks b"
  shows "\<exists>b'. ForwardingWrite (Publish ks) fs (Some p) b = Inr (None, b') \<and> bus_ready ks b' \<and>
    inbox b' (pk_ArrivalInterface p) = inbox b (pk_ArrivalInterface p) \<and>
    (\<forall>i c. i \<noteq> pk_ArrivalInterface p \<and> pb_senders b i = Some (Some c) \<longrightarrow>
       inbox b' i = inbox b i @
         (if 0 < ch_waiting (pb_chans b c) \<or> length (ch_buf (pb_chans b c)) < ch_cap (pb_chans b c)
          then [\<lparr>bm_Packet = Some p, bm_LinkType = fs_LinkType fs\<rparr>] else []))"
proof -
  let ?m = "\<lparr>bm_Packet = Some p, bm_LinkType = fs_LinkType fs\<rparr>"
  from feed.forward [OF assms] obtain b' where
    b': "ForwardingWrite (Publish ks) fs (Some p) b = Inr (None, b')" "bus_ready ks b'"
      "inbox b' (pk_ArrivalInterface p) = inbox b (pk_ArrivalInterface p)" by blast
  then have "Publish ks ?m b = Inr b'"
    by (auto simp: ForwardingWrite_def bind_panic_Inr)
  from inbox_Publish [OF assms _ this] b' show ?thesis by auto
qed

theorem ForwardingWrite_delivers_witness:
  "\<exists>b. ForwardingWrite (Publish [''eth0'', ''eth1''])
     \<lparr>fs_Iname = ''eth0'', fs_LinkType = 1\<rparr> (Some (example_packet ''eth0'' [10, 0, 0, 1])) two_ports
     = Inr (None, b) \<and> inbox b ''eth0'' = [] \<and>
   inbox b ''eth1'' = [\<lparr>bm_Packet = Some (example_packet ''eth0'' [10, 0, 0, 1]), bm_LinkType = 1\<rparr>]"
  using ForwardingWrite_delivers [OF two_ports_ready, of "\<lparr>fs_Iname = ''eth0'', fs_LinkType = 1\<rparr>"
      "example_packet ''eth0'' [10, 0, 0, 1]"]
  by (fastforce simp: example_packet_def two_ports_def inbox_def)

end
