(* ===== verification/Setup.thy ===== *)
theory Setup
  imports Cli PcapSource Transmitter Route Decode Bus
begin

text \<open>
  \<^verbatim>\<open>cmd/udp-proxy-2020/main.go\<close>: how the pipelines are set up from the command line.  The
  stages are described by values (the structs of the code); theory \<open>System\<close> gives them
  their meaning.  The operating system and libpcap answer through the record \<open>os_env\<close>.
\<close>

section \<open>The structs\<close>

datatype processor_value =
    PFilter string
  | PDecode decode_processor
  | PLearner learner
  | PTransform ip

text \<open>A transmitter is a pointer: an index into the list of transmitters.\<close>

datatype sink_value =
    SPcapFile pcap_file_sink
  | STransmitter nat string
  | SForwarding forwarding_sink

record route_value =
  rv_Iname :: string
  rv_Broadcast :: bool
  rv_BroadcastAddress :: ip
  rv_HardwareAddr :: mac
  rv_LinkType :: link_type
  rv_Processors :: "processor_value list"
  rv_Sinks :: "sink_value list"

datatype pipeline_sink = Leaf sink_value | Route route_value

text \<open>The source is a pointer too: its index is that of its pipeline.\<close>

record pipeline_value =
  pv_Source :: string
  pv_Processors :: "processor_value list"
  pv_Sinks :: "pipeline_sink list"

section \<open>The environment\<close>

text \<open>\<^verbatim>\<open>net.Interface\<close>: the fields that are read.\<close>

record net_interface =
  ni_Flags :: "64 word"
  ni_HardwareAddr :: mac

definition FlagBroadcast :: "64 word" where "FlagBroadcast = 2"

definition has_broadcast :: "net_interface \<Rightarrow> bool" where
  "has_broadcast netif \<longleftrightarrow> and (ni_Flags netif) FlagBroadcast \<noteq> 0"

text \<open>Where \<^verbatim>\<open>GetLoopback\<close> is called: each call ranges over the interfaces in its own order.\<close>

datatype call_site = AtSetup | AtFixedIp string | AtInterface string

record os_env =
  en_goos :: string
  en_link_string :: "link_type \<Rightarrow> string"
  en_InterfaceByName :: "string \<Rightarrow> go_error + net_interface"
  en_reader :: "string \<Rightarrow> pcap_answers"
  en_writer :: "string \<Rightarrow> string \<Rightarrow> pcap_answers"
  en_SetBPFFilter :: "string \<Rightarrow> string \<Rightarrow> go_error option"
  en_Create :: "string \<Rightarrow> go_error option"
  en_WriteFileHeader :: "string \<Rightarrow> go_error option"
  en_order :: "call_site \<Rightarrow> string list"
  en_fixed_order :: "(string \<rightharpoonup> string list) \<Rightarrow> string list"

text \<open>What the set-up builds; files are recorded with their name and link type.\<close>

record setup_state =
  su_dm :: dm_state
  su_sources :: "pcap_source list"
  su_pipelines :: "pipeline_value list"
  su_transmitters :: "transmitter list"
  su_files :: "(string \<times> link_type) list"

text \<open>Computations that stop with a failure, and their sequencing.\<close>

definition bind_setup :: "(failure + 'a) \<times> 's \<Rightarrow> ('a \<Rightarrow> 's \<Rightarrow> (failure + 'b) \<times> 's) \<Rightarrow>
    (failure + 'b) \<times> 's" where
  "bind_setup m f = (case m of (Inl e, s) \<Rightarrow> (Inl e, s) | (Inr x, s) \<Rightarrow> f x s)"

lemma bind_setup_simps [simp]:
  "bind_setup (Inl e, s) f = (Inl e, s)"
  "bind_setup (Inr x, s) f = f x s"
  by (simp_all add: bind_setup_def)

lemma bind_setup_Inr:
  "bind_setup m f = (Inr y, s'') \<longleftrightarrow> (\<exists>x s'. m = (Inr x, s') \<and> f x s' = (Inr y, s''))"
  by (cases m; cases "fst m") auto

section \<open>Checks\<close>

fun check_duplicates :: "string list \<Rightarrow> string list \<Rightarrow> failure + unit" where
  "check_duplicates [] seen = Inr ()"
| "check_duplicates (iname # inames) seen =
     (if iname \<in> set seen then Inl (Exit 1) else check_duplicates inames (iname # seen))"

definition checkDuplicateInterfaces :: "string list \<Rightarrow> failure + unit" where
  "checkDuplicateInterfaces ifaces = check_duplicates ifaces []"

fun fixed_ips :: "(string \<Rightarrow> string) \<Rightarrow> cli \<Rightarrow> string list \<Rightarrow> (string \<rightharpoonup> string list) \<Rightarrow>
    failure + (string \<rightharpoonup> string list)" where
  "fixed_ips loopback cli [] fixedIPs = Inr fixedIPs"
| "fixed_ips loopback cli (f # fs) fixedIPs =
     (let parts = split_on (CHR ''@'') f in
      if length parts \<noteq> 2 then Inl (Exit 1)
      else if parse_ip (parts ! 1) = None then Inl (Exit 1)
      else
        let validIface = list_ex (\<lambda>i. i = parts ! 0) (c_Interface cli) in
        if \<not> validIface \<and> (\<not> c_DeliverLocal cli \<or> parts ! 0 \<noteq> loopback f) then Inl (Exit 1)
        else fixed_ips loopback cli fs (fixedIPs(parts ! 0 \<mapsto>
               (case fixedIPs (parts ! 0) of None \<Rightarrow> [] | Some ips \<Rightarrow> ips) @ [parts ! 1])))"

definition getFixedIPs :: "os_env \<Rightarrow> cli \<Rightarrow> device_manager \<Rightarrow> failure + (string \<rightharpoonup> string list)" where
  "getFixedIPs env cli dm =
     fixed_ips (\<lambda>f. GetLoopback (en_order env (AtFixedIp f)) dm) cli (c_FixedIp cli) Map.empty"

definition buildSharedRegistries :: "os_env \<Rightarrow> duration \<Rightarrow> (string \<rightharpoonup> string list) \<Rightarrow>
    go_error + registry list" where
  "buildSharedRegistries env ttl fixedIPs =
     (case NewRegistryProcessorByInterface ttl fixedIPs (en_fixed_order env fixedIPs) of
        Inl err \<Rightarrow> Inl err
      | Inr registry \<Rightarrow> Inr [registry])"

section \<open>File names\<close>

text \<open>\<^verbatim>\<open>filepath.Join\<close> of two elements: the cleaned path with one slash between them.\<close>

fun clean_parts :: "bool \<Rightarrow> string list \<Rightarrow> string list \<Rightarrow> string list" where
  "clean_parts rooted [] out = rev out"
| "clean_parts rooted (p # ps) out =
     (if p = '''' \<or> p = ''.'' then clean_parts rooted ps out
      else if p = ''..'' then
        (if out \<noteq> [] \<and> hd out \<noteq> ''..'' then clean_parts rooted ps (tl out)
         else if rooted then clean_parts rooted ps out
         else clean_parts rooted ps (''..'' # out))
      else clean_parts rooted ps (p # out))"

definition clean_path :: "string \<Rightarrow> string" where
  "clean_path path =
     (let rooted = (path \<noteq> '''' \<and> hd path = CHR ''/'');
          body = join ''/'' (clean_parts rooted (split_on (CHR ''/'') path) []) in
      if rooted then ''/'' @ body else if body = '''' then ''.'' else body)"

definition filepath_join :: "string \<Rightarrow> string \<Rightarrow> string" where
  "filepath_join dir file =
     (let elems = filter (\<lambda>e. e \<noteq> '''') [dir, file] in
      if elems = [] then '''' else clean_path (join ''/'' elems))"

section \<open>Pipelines\<close>

text \<open>\<^verbatim>\<open>LinkType\<close> of an open handle.\<close>

definition handle_LinkType :: "pcap_state \<Rightarrow> nat \<Rightarrow> link_type" where
  "handle_LinkType os h = (case pc_config os h of None \<Rightarrow> 0 | Some conf \<Rightarrow> hc_LinkType conf)"

definition create_pcap_file :: "os_env \<Rightarrow> string \<Rightarrow> string \<Rightarrow> string \<Rightarrow> link_type \<Rightarrow> setup_state \<Rightarrow>
    (failure + pcap_file_sink) \<times> setup_state" where
  "create_pcap_file env cannot_create cannot_write fPath linkType s =
     (case en_Create env fPath of
        Some err \<Rightarrow> (Inl (Failed (Errorf (cannot_create @ fPath))), s)
      | None \<Rightarrow> (case en_WriteFileHeader env fPath of
          Some err \<Rightarrow> (Inl (Failed (Errorf (cannot_write @ fPath))), s)
        | None \<Rightarrow> (Inr \<lparr>ps_Writer = True, ps_File = Some fPath\<rparr>,
                   s\<lparr>su_files := su_files s @ [(fPath, linkType)]\<rparr>)))"

definition addPcapFileSink :: "os_env \<Rightarrow> pipeline_value \<Rightarrow> string \<Rightarrow> string \<Rightarrow> link_type \<Rightarrow>
    setup_state \<Rightarrow> (failure + pipeline_value) \<times> setup_state" where
  "addPcapFileSink env pipeline pcapPath filename linkType s =
     bind_setup (create_pcap_file env ''failed to create pcap file: ''
         ''failed to write pcap file header: '' (filepath_join pcapPath filename) linkType s)
       (\<lambda>sink s. (Inr (pipeline\<lparr>pv_Sinks := pv_Sinks pipeline @ [Leaf (SPcapFile sink)]\<rparr>), s))"

definition addRoutePcapFileSink :: "os_env \<Rightarrow> route_value \<Rightarrow> string \<Rightarrow> string \<Rightarrow> string \<Rightarrow> link_type \<Rightarrow>
    setup_state \<Rightarrow> (failure + route_value) \<times> setup_state" where
  "addRoutePcapFileSink env route pcapPath srcName dstName linkType s =
     bind_setup (create_pcap_file env ''failed to create outbound pcap file: ''
         ''failed to write outbound pcap file header: ''
         (filepath_join pcapPath (''udp-proxy-out-'' @ srcName @ ''-to-'' @ dstName @ ''.pcap'')) linkType s)
       (\<lambda>sink s. (Inr (route\<lparr>rv_Sinks := rv_Sinks route @ [SPcapFile sink]\<rparr>), s))"

fun first_broadcast :: "interface_address list \<Rightarrow> ip" where
  "first_broadcast [] = []"
| "first_broadcast (addr # addrs) =
     (if to4 (ia_IP addr) \<noteq> [] \<and> ia_Broadaddr addr \<noteq> [] then ia_Broadaddr addr
      else first_broadcast addrs)"

definition discoverBroadcastAddress :: "os_env \<Rightarrow> device_manager \<Rightarrow> net_interface \<Rightarrow>
    interface_address list \<Rightarrow> cli \<Rightarrow> string \<Rightarrow> go_error + ip" where
  "discoverBroadcastAddress env dm netif addrs cli iname =
     (let bcast = first_broadcast addrs;
          bcast' = (if c_DeliverLocal cli \<and> iname = GetLoopback (en_order env (AtInterface iname)) dm
                    then IPv4 127 0 0 1 else bcast) in
      if bcast' = [] \<and> has_broadcast netif
      then Inl (Errorf (''failed to discover broadcast address for interface: '' @ iname))
      else Inr bcast')"

record iface_state =
  is_name :: string
  is_netif :: net_interface
  is_pipeline :: nat              \<comment> \<open>the index of its source and pipeline\<close>
  is_broadcast :: bool
  is_bcastIP :: ip

text \<open>
  \<open>setup_base\<close> is the part of \<^verbatim>\<open>setupInterfacePipeline\<close> that builds the pipeline once the
  source is open and filtered.
\<close>

definition base_processors :: "cli \<Rightarrow> string \<Rightarrow> processor_value list" where
  "base_processors cli iname =
     [PFilter iname] @
     (if c_Decode cli then [PDecode (NewDecodeProcessor iname DirectionInbound)] else []) @
     [PLearner \<lparr>lr_Iname = iname\<rparr>]"

definition setup_base :: "os_env \<Rightarrow> cli \<Rightarrow> string \<Rightarrow> link_type \<Rightarrow> setup_state \<Rightarrow>
    (failure + pipeline_value) \<times> setup_state" where
  "setup_base env cli iname linkType s =
     (let pipeline = \<lparr>pv_Source = iname, pv_Processors = base_processors cli iname, pv_Sinks = []\<rparr> in
      if c_Pcap cli then
        addPcapFileSink env pipeline (c_PcapPath cli) (''udp-proxy-in-'' @ iname @ ''.pcap'') linkType s
      else (Inr pipeline, s))"

definition set_filter :: "nat \<Rightarrow> string \<Rightarrow> setup_state \<Rightarrow> setup_state" where
  "set_filter h bpf s = s\<lparr>su_dm := apsnd (\<lambda>os. os\<lparr>pc_filter := (pc_filter os)(h \<mapsto> bpf)\<rparr>) (su_dm s)\<rparr>"

definition setupInterfacePipeline :: "os_env \<Rightarrow> cli \<Rightarrow> nat \<Rightarrow> string \<Rightarrow> duration \<Rightarrow> setup_state \<Rightarrow>
    (failure + (iface_state \<times> pipeline_value \<times> pcap_source)) \<times> setup_state" where
  "setupInterfacePipeline env cli index iname timeout s =
     (case en_InterfaceByName env iname of
        Inl err \<Rightarrow> (Inl (Failed (Errorf (''interface not found: '' @ iname))), s)
      | Inr netif \<Rightarrow>
          (case NewPcapSource (en_goos env) (en_link_string env) (en_reader env iname) iname
              (\<not> has_broadcast netif) timeout (su_dm s) of
             (Inl err, dm) \<Rightarrow>
               (Inl (Failed (Errorf (''failed to open interface: '' @ iname))), s\<lparr>su_dm := dm\<rparr>)
           | (Inr source, dm) \<Rightarrow>
               let s = s\<lparr>su_dm := dm\<rparr>; rhandle = so_handle source in
               (case GetAddresses iname (fst dm) of
                  Inl err \<Rightarrow>
                    (Inl (Failed (Errorf (''failed to get addresses for interface: '' @ iname))), s)
                | Inr addrs \<Rightarrow>
                    let bpf = BuildBPFFilter (c_Port cli) addrs in
                    (case en_SetBPFFilter env iname bpf of
                       Some err \<Rightarrow>
                         (Inl (Failed (Errorf (''failed to set BPF filter for interface: '' @ iname))), s)
                     | None \<Rightarrow>
                         bind_setup (setup_base env cli iname (handle_LinkType (snd dm) rhandle)
                             (set_filter rhandle bpf s))
                           (\<lambda>pipeline s.
                             case discoverBroadcastAddress env (fst (su_dm s)) netif addrs cli iname of
                               Inl err \<Rightarrow> (Inl (Failed err), s)
                             | Inr bcast \<Rightarrow>
                                 (Inr (\<lparr>is_name = iname, is_netif = netif, is_pipeline = index,
                                    is_broadcast = has_broadcast netif, is_bcastIP = bcast\<rparr>,
                                    pipeline, source), s))))))"

section \<open>Routes\<close>

definition route_processors :: "cli \<Rightarrow> string \<Rightarrow> processor_value list" where
  "route_processors cli iname =
     (if c_Decode cli then [PDecode (NewDecodeProcessor iname DirectionOutbound)] else [])"

definition setupCrossInterfaceSink :: "os_env \<Rightarrow> cli \<Rightarrow> iface_state \<Rightarrow> iface_state \<Rightarrow>
    setup_state \<Rightarrow> (failure + unit) \<times> setup_state" where
  "setupCrossInterfaceSink env cli src dst s =
     (case CreateIsolatedWriterHandle (en_goos env) (en_link_string env)
         (en_writer env (is_name src) (is_name dst)) (is_name dst) (su_dm s) of
        (opened, dm) \<Rightarrow>
          let s = s\<lparr>su_dm := dm\<rparr> in
          (case NewTransmitterSink opened (is_name dst) of
             Inl err \<Rightarrow> (Inl (Failed (Errorf (''failed to create transmitter sink from '' @
                 is_name src @ '' to '' @ is_name dst))), s)
           | Inr transmitter \<Rightarrow>
               let index = length (su_transmitters s);
                   s = s\<lparr>su_transmitters := su_transmitters s @ [transmitter]\<rparr>;
                   linkType = handle_LinkType (snd dm) (the (tx_Writer transmitter));
                   route = \<lparr>rv_Iname = is_name dst, rv_Broadcast = is_broadcast dst,
                     rv_BroadcastAddress = is_bcastIP dst,
                     rv_HardwareAddr = ni_HardwareAddr (is_netif dst), rv_LinkType = linkType,
                     rv_Processors = route_processors cli (is_name dst), rv_Sinks = []\<rparr> in
               bind_setup
                 (if c_Pcap cli then
                    addRoutePcapFileSink env route (c_PcapPath cli) (is_name src) (is_name dst)
                      (rv_LinkType route) s
                  else (Inr route, s))
                 (\<lambda>route s.
                   let route = route\<lparr>rv_Sinks := rv_Sinks route @ [STransmitter index (is_name dst)]\<rparr>;
                       pipeline = su_pipelines s ! is_pipeline src in
                   (Inr (), s\<lparr>su_pipelines := (su_pipelines s)[is_pipeline src :=
                      pipeline\<lparr>pv_Sinks := pv_Sinks pipeline @ [Route route]\<rparr>]\<rparr>))))"

text \<open>\<^verbatim>\<open>attachCrossInterfaceSinks\<close>: the two nested loops, for any \<open>addSink\<close>.\<close>

fun attach_dsts :: "(iface_state \<Rightarrow> iface_state \<Rightarrow> 's \<Rightarrow> (failure + unit) \<times> 's) \<Rightarrow> iface_state \<Rightarrow>
    iface_state list \<Rightarrow> 's \<Rightarrow> (failure + unit) \<times> 's" where
  "attach_dsts addSink src [] s = (Inr (), s)"
| "attach_dsts addSink src (dst # dsts) s =
     (if is_name src = is_name dst then attach_dsts addSink src dsts s
      else bind_setup (addSink src dst s) (\<lambda>u s. attach_dsts addSink src dsts s))"

fun attach_srcs :: "(iface_state \<Rightarrow> iface_state \<Rightarrow> 's \<Rightarrow> (failure + unit) \<times> 's) \<Rightarrow>
    iface_state list \<Rightarrow> iface_state list \<Rightarrow> 's \<Rightarrow> (failure + unit) \<times> 's" where
  "attach_srcs addSink [] states s = (Inr (), s)"
| "attach_srcs addSink (src # srcs) states s =
     bind_setup (attach_dsts addSink src states s) (\<lambda>u s. attach_srcs addSink srcs states s)"

definition attachCrossInterfaceSinks :: "(iface_state \<Rightarrow> iface_state \<Rightarrow> 's \<Rightarrow> (failure + unit) \<times> 's) \<Rightarrow>
    iface_state list \<Rightarrow> 's \<Rightarrow> (failure + unit) \<times> 's" where
  "attachCrossInterfaceSinks addSink states s = attach_srcs addSink states states s"

section \<open>The whole set-up\<close>

fun setup_interfaces :: "os_env \<Rightarrow> cli \<Rightarrow> duration \<Rightarrow> string list \<Rightarrow> iface_state list \<Rightarrow> setup_state \<Rightarrow>
    (failure + iface_state list) \<times> setup_state" where
  "setup_interfaces env cli timeout [] states s = (Inr states, s)"
| "setup_interfaces env cli timeout (iname # inames) states s =
     bind_setup (setupInterfacePipeline env cli (length (su_pipelines s)) iname timeout s)
       (\<lambda>(state, pipeline, source) s.
          setup_interfaces env cli timeout inames (states @ [state])
            (s\<lparr>su_pipelines := su_pipelines s @ [pipeline], su_sources := su_sources s @ [source]\<rparr>))"

definition active_interfaces :: "os_env \<Rightarrow> cli \<Rightarrow> device_manager \<Rightarrow> failure + string list" where
  "active_interfaces env cli dm =
     (if c_DeliverLocal cli then
        (let lb = GetLoopback (en_order env AtSetup) dm in
         if lb = '''' then Inl (Failed (Errorf ''loopback interface not found''))
         else Inr (c_Interface cli @ [lb]))
      else Inr (c_Interface cli))"

definition setupPipelines :: "os_env \<Rightarrow> cli \<Rightarrow> dm_state \<Rightarrow> duration \<Rightarrow> duration \<Rightarrow>
    (failure + registry list) \<times> setup_state" where
  "setupPipelines env cli dm timeout ttl =
     (let s = \<lparr>su_dm = dm, su_sources = [], su_pipelines = [], su_transmitters = [], su_files = []\<rparr> in
      case checkDuplicateInterfaces (c_Interface cli) of Inl e \<Rightarrow> (Inl e, s)
      | Inr u \<Rightarrow>
        (case active_interfaces env cli (fst dm) of Inl e \<Rightarrow> (Inl e, s)
         | Inr interfaces \<Rightarrow>
           (case getFixedIPs env cli (fst dm) of Inl e \<Rightarrow> (Inl e, s)
            | Inr fixedIPs \<Rightarrow>
              (case buildSharedRegistries env ttl fixedIPs of
                 Inl err \<Rightarrow> (Inl (Failed (Wrapf ''invalid fixed IP configuration: '' err)), s)
               | Inr registries \<Rightarrow>
                   bind_setup (setup_interfaces env cli timeout interfaces [] s) (\<lambda>states s.
                   bind_setup (attachCrossInterfaceSinks (setupCrossInterfaceSink env cli) states s)
                     (\<lambda>u s. (Inr registries, s)))))))"

section \<open>Lemmas on the checks\<close>

lemma check_duplicates_ok:
  "check_duplicates xs seen = Inr u \<longleftrightarrow> distinct xs \<and> set xs \<inter> set seen = {}"
  by (induction xs arbitrary: seen) auto

lemma check_duplicates_exit: "check_duplicates xs seen = Inl e \<Longrightarrow> e = Exit 1"
  by (induction xs arbitrary: seen) (auto split: if_splits)

definition fixed_ok :: "(string \<Rightarrow> string) \<Rightarrow> cli \<Rightarrow> string \<Rightarrow> bool" where
  "fixed_ok loopback cli f \<longleftrightarrow> (\<exists>i a. split_on (CHR ''@'') f = [i, a] \<and> parse_ip a \<noteq> None \<and>
     (i \<in> set (c_Interface cli) \<or> c_DeliverLocal cli \<and> i = loopback f))"

definition fixed_iface :: "string \<Rightarrow> string" where
  "fixed_iface f = split_on (CHR ''@'') f ! 0"

definition fixed_addr :: "string \<Rightarrow> string" where
  "fixed_addr f = split_on (CHR ''@'') f ! 1"

lemma fixed_ips_Cons:
  "fixed_ips loopback cli (f # fs) m =
     (if fixed_ok loopback cli f
      then fixed_ips loopback cli fs (m(fixed_iface f \<mapsto>
        (case m (fixed_iface f) of None \<Rightarrow> [] | Some ips \<Rightarrow> ips) @ [fixed_addr f]))
      else Inl (Exit 1))"
proof -
  have two: "length xs = 2 \<longleftrightarrow> (\<exists>a b. xs = [a, b])" for xs :: "string list"
    by (cases xs; cases "tl xs") auto
  show ?thesis
    by (cases "length (split_on (CHR ''@'') f) = 2")
      (auto simp: two fixed_ok_def fixed_iface_def fixed_addr_def Let_def list_ex_iff)
qed

lemma fixed_ips_result:
  "fixed_ips loopback cli fs m =
     (if \<forall>f\<in>set fs. fixed_ok loopback cli f
      then Inr (\<lambda>i. let new = map fixed_addr (filter (\<lambda>f. fixed_iface f = i) fs) in
        if new = [] then m i
        else Some ((case m i of None \<Rightarrow> [] | Some ips \<Rightarrow> ips) @ new))
      else Inl (Exit 1))"
proof (induction fs arbitrary: m)
  case (Cons f fs)
  then show ?case unfolding fixed_ips_Cons by (auto simp: Let_def fun_eq_iff split: option.splits)
qed simp

lemma first_broadcast_eq:
  "first_broadcast addrs =
     (case filter (\<lambda>a. to4 (ia_IP a) \<noteq> [] \<and> ia_Broadaddr a \<noteq> []) addrs of
        [] \<Rightarrow> [] | a # as \<Rightarrow> ia_Broadaddr a)"
  by (induction addrs) auto

section \<open>Lemmas on the pipelines\<close>

definition routes_of :: "pipeline_value \<Rightarrow> route_value list" where
  "routes_of p = concat (map (\<lambda>k. case k of Route r \<Rightarrow> [r] | Leaf l \<Rightarrow> []) (pv_Sinks p))"

definition leaves_of :: "pipeline_value \<Rightarrow> sink_value list" where
  "leaves_of p = concat (map (\<lambda>k. case k of Route r \<Rightarrow> [] | Leaf l \<Rightarrow> [l]) (pv_Sinks p))"

lemma create_pcap_file_Inr:
  "create_pcap_file env e1 e2 path lt s = (Inr sink, s') \<longleftrightarrow>
     en_Create env path = None \<and> en_WriteFileHeader env path = None \<and>
     sink = \<lparr>ps_Writer = True, ps_File = Some path\<rparr> \<and> s' = s\<lparr>su_files := su_files s @ [(path, lt)]\<rparr>"
  by (auto simp: create_pcap_file_def split: option.splits)

text \<open>The pipeline of an interface before it gets its routes.\<close>

definition base_ok :: "cli \<Rightarrow> string \<Rightarrow> pipeline_value \<Rightarrow> bool" where
  "base_ok cli iname p \<longleftrightarrow> pv_Source p = iname \<and> pv_Processors p = base_processors cli iname \<and>
     routes_of p = [] \<and> (\<forall>l\<in>set (leaves_of p). \<exists>f. l = SPcapFile f)"

text \<open>What the steps leave alone.\<close>

definition same_pipelines :: "setup_state \<Rightarrow> setup_state \<Rightarrow> bool" where
  "same_pipelines s s' \<longleftrightarrow> su_pipelines s' = su_pipelines s \<and> su_sources s' = su_sources s"

lemma setup_base_Inr:
  assumes "setup_base env cli iname lt s = (Inr p, s')"
  shows "base_ok cli iname p \<and> same_pipelines s s' \<and> su_transmitters s' = su_transmitters s"
  using assms
  by (auto simp: setup_base_def addPcapFileSink_def bind_setup_Inr create_pcap_file_Inr base_ok_def
      routes_of_def leaves_of_def same_pipelines_def Let_def split: if_splits)

lemma discoverBroadcastAddress_Inr:
  "discoverBroadcastAddress env dm netif addrs cli iname = Inr b \<Longrightarrow> has_broadcast netif \<Longrightarrow> b \<noteq> []"
  by (auto simp: discoverBroadcastAddress_def Let_def split: if_splits)

text \<open>
  A description of an interface that can be routed to: a broadcasting one has a broadcast
  address.
\<close>

definition iface_ok :: "iface_state \<Rightarrow> bool" where
  "iface_ok st \<longleftrightarrow> is_broadcast st = has_broadcast (is_netif st) \<and> (is_broadcast st \<longrightarrow> is_bcastIP st \<noteq> [])"

lemma case_failure_Inr:
  "(case d of Inl e \<Rightarrow> (Inl (Failed e), s) | Inr b \<Rightarrow> (Inr (f b), s)) = (Inr y, s') \<longleftrightarrow>
     (\<exists>b. d = Inr b \<and> y = f b \<and> s' = s)"
  by (cases d) auto

lemma setupInterfacePipeline_Inr:
  assumes "setupInterfacePipeline env cli index iname timeout s = (Inr (st, p, src), s')"
  shows "base_ok cli iname p \<and> is_name st = iname \<and> is_pipeline st = index \<and> so_iname src = iname \<and> iface_ok st \<and>
    same_pipelines s s' \<and> su_transmitters s' = su_transmitters s"
proof -
  from assms obtain netif dm addrs bpf s1 where
    n: "NewPcapSource (en_goos env) (en_link_string env) (en_reader env iname) iname
        (\<not> has_broadcast netif) timeout (su_dm s) = (Inr src, dm)"
    and b: "setup_base env cli iname (handle_LinkType (snd dm) (so_handle src))
        (set_filter (so_handle src) bpf (s\<lparr>su_dm := dm\<rparr>)) = (Inr p, s1)"
    and d: "discoverBroadcastAddress env (fst (su_dm s1)) netif addrs cli iname = Inr (is_bcastIP st)"
    and st: "is_name st = iname" "is_netif st = netif" "is_pipeline st = index"
      "is_broadcast st = has_broadcast netif" "s' = s1"
    by (auto simp: setupInterfacePipeline_def bind_setup_Inr case_failure_Inr Let_def
        split: sum.splits prod.splits option.splits)
  from n have "so_iname src = iname"
    by (auto simp: NewPcapSource_def startInterfaceMonitor_def split: prod.splits sum.splits)
  with setup_base_Inr [OF b] discoverBroadcastAddress_Inr [OF d] st show ?thesis
    by (simp add: iface_ok_def same_pipelines_def set_filter_def)
qed

section \<open>Lemmas on the routes\<close>

text \<open>The nested loops as one loop over the pairs of different names.\<close>

fun run_pairs :: "(iface_state \<Rightarrow> iface_state \<Rightarrow> 's \<Rightarrow> (failure + unit) \<times> 's) \<Rightarrow>
    (iface_state \<times> iface_state) list \<Rightarrow> 's \<Rightarrow> (failure + unit) \<times> 's" where
  "run_pairs f [] s = (Inr (), s)"
| "run_pairs f (p # ps) s = bind_setup (f (fst p) (snd p) s) (\<lambda>u s. run_pairs f ps s)"

definition cross_pairs :: "iface_state list \<Rightarrow> (iface_state \<times> iface_state) list" where
  "cross_pairs states =
     concat (map (\<lambda>src. map (Pair src) (filter (\<lambda>dst. is_name src \<noteq> is_name dst) states)) states)"


lemma run_pairs_append:
  "run_pairs f (ps @ qs) s = bind_setup (run_pairs f ps s) (\<lambda>u s. run_pairs f qs s)"
  by (induction ps arbitrary: s) (auto simp: bind_setup_def split: prod.splits sum.splits)

lemma attach_dsts_pairs:
  "attach_dsts f src dsts s = run_pairs f (map (Pair src) (filter (\<lambda>dst. is_name src \<noteq> is_name dst) dsts)) s"
  by (induction dsts arbitrary: s) (auto simp: bind_setup_def split: prod.splits sum.splits)

lemma attach_srcs_pairs:
  "attach_srcs f srcs states s = run_pairs f (concat (map (\<lambda>src.
     map (Pair src) (filter (\<lambda>dst. is_name src \<noteq> is_name dst) states)) srcs)) s"
  by (induction srcs arbitrary: s)
    (auto simp: run_pairs_append attach_dsts_pairs bind_setup_def split: prod.splits sum.splits)

lemma attach_pairs: "attachCrossInterfaceSinks f states s = run_pairs f (cross_pairs states) s"
  by (simp add: attachCrossInterfaceSinks_def cross_pairs_def attach_srcs_pairs)

text \<open>The route that stands for \<open>dst\<close> and owns transmitter number \<open>k\<close>.\<close>

definition route_for :: "cli \<Rightarrow> iface_state \<Rightarrow> nat \<Rightarrow> route_value \<Rightarrow> bool" where
  "route_for cli dst k r \<longleftrightarrow> rv_Iname r = is_name dst \<and> rv_Broadcast r = is_broadcast dst \<and>
     rv_BroadcastAddress r = is_bcastIP dst \<and> rv_HardwareAddr r = ni_HardwareAddr (is_netif dst) \<and>
     rv_Processors r = route_processors cli (is_name dst) \<and>
     (\<exists>files. rv_Sinks r = files @ [STransmitter k (is_name dst)] \<and> (\<forall>x\<in>set files. \<exists>f. x = SPcapFile f))"

definition add_route :: "nat \<Rightarrow> route_value \<Rightarrow> pipeline_value list \<Rightarrow> pipeline_value list" where
  "add_route i r ps = ps[i := (ps ! i)\<lparr>pv_Sinks := pv_Sinks (ps ! i) @ [Route r]\<rparr>]"

lemma setupCrossInterfaceSink_Inr:
  assumes "setupCrossInterfaceSink env cli src dst s = (Inr u, s')"
  shows "\<exists>r t. su_pipelines s' = add_route (is_pipeline src) r (su_pipelines s) \<and>
    su_sources s' = su_sources s \<and> su_transmitters s' = su_transmitters s @ [t] \<and>
    tx_inv t \<and> tx_Iname t = is_name dst \<and> route_for cli dst (length (su_transmitters s)) r"
proof -
  obtain opened dm where c: "CreateIsolatedWriterHandle (en_goos env) (en_link_string env)
      (en_writer env (is_name src) (is_name dst)) (is_name dst) (su_dm s) = (opened, dm)"
    by (cases "CreateIsolatedWriterHandle (en_goos env) (en_link_string env)
      (en_writer env (is_name src) (is_name dst)) (is_name dst) (su_dm s)")
  with assms obtain t where t: "NewTransmitterSink opened (is_name dst) = Inr t"
    by (cases "NewTransmitterSink opened (is_name dst)") (simp_all add: setupCrossInterfaceSink_def Let_def)
  then have "tx_inv t" "tx_Iname t = is_name dst"
    using tx_inv_New by (auto simp: NewTransmitterSink_def split: sum.splits)
  with assms c t show ?thesis
    by (auto simp: setupCrossInterfaceSink_def addRoutePcapFileSink_def bind_setup_Inr
        create_pcap_file_Inr add_route_def route_for_def Let_def split: if_splits)
qed

lemma length_add_route [simp]: "length (add_route i r ps) = length ps"
  by (simp add: add_route_def)

definition with_routes :: "pipeline_value \<Rightarrow> route_value list \<Rightarrow> pipeline_value" where
  "with_routes p rs = p\<lparr>pv_Sinks := pv_Sinks p @ map Route rs\<rparr>"

lemma nth_add_route:
  "i < length ps \<Longrightarrow> add_route j r ps ! i = with_routes (ps ! i) (if i = j then [r] else [])"
  by (auto simp: add_route_def with_routes_def nth_list_update)

lemma with_routes_append: "with_routes (with_routes p rs) rs' = with_routes p (rs @ rs')"
  by (simp add: with_routes_def)

lemma run_pairs_routes:
  assumes "run_pairs (setupCrossInterfaceSink env cli) ps s = (Inr u, s')"
  shows "\<exists>R. length R = length ps \<and> su_sources s' = su_sources s \<and>
    length (su_pipelines s') = length (su_pipelines s) \<and>
    (\<forall>m<length ps. route_for cli (snd (ps ! m)) (length (su_transmitters s) + m) (R ! m)) \<and>
    (\<forall>i<length (su_pipelines s). su_pipelines s' ! i = with_routes (su_pipelines s ! i)
       (map snd (filter (\<lambda>(p, r). is_pipeline (fst p) = i) (zip ps R))))"
  using assms
proof (induction ps arbitrary: s)
  case Nil
  then show ?case by (simp add: with_routes_def)
next
  case (Cons p ps)
  from Cons.prems obtain s1 where
    f: "setupCrossInterfaceSink env cli (fst p) (snd p) s = (Inr (), s1)"
    and g: "run_pairs (setupCrossInterfaceSink env cli) ps s1 = (Inr u, s')"
    by (auto simp: bind_setup_Inr)
  from setupCrossInterfaceSink_Inr [OF f] obtain r t where
    r: "su_pipelines s1 = add_route (is_pipeline (fst p)) r (su_pipelines s)"
      "su_sources s1 = su_sources s" "su_transmitters s1 = su_transmitters s @ [t]"
      "route_for cli (snd p) (length (su_transmitters s)) r" by blast
  from Cons.IH [OF g] obtain R where
    R: "length R = length ps" "su_sources s' = su_sources s1"
      "length (su_pipelines s') = length (su_pipelines s1)"
      "\<forall>m<length ps. route_for cli (snd (ps ! m)) (length (su_transmitters s1) + m) (R ! m)"
      "\<forall>i<length (su_pipelines s1). su_pipelines s' ! i = with_routes (su_pipelines s1 ! i)
        (map snd (filter (\<lambda>(p, r). is_pipeline (fst p) = i) (zip ps R)))" by blast
  have "route_for cli (snd ((p # ps) ! m)) (length (su_transmitters s) + m) ((r # R) ! m)"
    if "m < length (p # ps)" for m
    using that R(4) r(3,4) by (cases m) auto
  moreover have "su_pipelines s' ! i = with_routes (su_pipelines s ! i)
      (map snd (filter (\<lambda>(p, r). is_pipeline (fst p) = i) (zip (p # ps) (r # R))))"
    if "i < length (su_pipelines s)" for i
    using that R(5) r(1) by (auto simp: nth_add_route with_routes_append)
  ultimately show ?case using R(1-3) r(1,2) by (intro exI [of _ "r # R"]) simp
qed

section \<open>Lemmas on the whole set-up\<close>

lemma routes_of_with_routes: "routes_of (with_routes p rs) = routes_of p @ rs"
  by (induction rs) (simp_all add: routes_of_def with_routes_def)

lemma leaves_of_with_routes: "leaves_of (with_routes p rs) = leaves_of p"
  by (induction rs) (simp_all add: leaves_of_def with_routes_def)

lemma with_routes_simps [simp]:
  "pv_Source (with_routes p rs) = pv_Source p" "pv_Processors (with_routes p rs) = pv_Processors p"
  by (simp_all add: with_routes_def)

lemma setup_interfaces_Inr:
  "setup_interfaces env cli timeout inames states s = (Inr states', s') \<Longrightarrow>
   \<exists>new ps srcs. states' = states @ new \<and> su_pipelines s' = su_pipelines s @ ps \<and>
     su_sources s' = su_sources s @ srcs \<and> su_transmitters s' = su_transmitters s \<and>
     map is_name new = inames \<and> map so_iname srcs = inames \<and>
     map is_pipeline new = [length (su_pipelines s)..<length (su_pipelines s) + length inames] \<and>
     list_all iface_ok new \<and> list_all2 (base_ok cli) inames ps"
proof (induction inames arbitrary: states s)
  case (Cons iname inames)
  let ?n = "length (su_pipelines s)"
  from Cons.prems obtain st p src s1 where
    a: "setupInterfacePipeline env cli ?n iname timeout s = (Inr (st, p, src), s1)"
    and b: "setup_interfaces env cli timeout inames (states @ [st])
      (s1\<lparr>su_pipelines := su_pipelines s1 @ [p], su_sources := su_sources s1 @ [src]\<rparr>) = (Inr states', s')"
    by (auto simp: bind_setup_Inr)
  note a = setupInterfacePipeline_Inr [OF a]
  from Cons.IH [OF b] obtain new ps srcs where
    r: "states' = (states @ [st]) @ new" "su_pipelines s' = (su_pipelines s1 @ [p]) @ ps"
      "su_sources s' = (su_sources s1 @ [src]) @ srcs" "su_transmitters s' = su_transmitters s1"
      "map is_name new = inames" "map so_iname srcs = inames"
      "map is_pipeline new = [Suc (length (su_pipelines s1))..<Suc (length (su_pipelines s1)) + length inames]"
      "list_all iface_ok new" "list_all2 (base_ok cli) inames ps" by auto
  have "[?n..<Suc (?n + length inames)] = ?n # [Suc ?n..<Suc (?n + length inames)]"
    by (simp add: upt_conv_Cons del: upt_Suc)
  then show ?case using a r
    by (intro exI [of _ "st # new"] exI [of _ "p # ps"] exI [of _ "src # srcs"])
      (simp add: same_pipelines_def del: upt_Suc)
qed simp

text \<open>The parts of a successful set-up.\<close>

definition setup_parts :: "cli \<Rightarrow> string list \<Rightarrow> iface_state list \<Rightarrow> pipeline_value list \<Rightarrow>
    route_value list \<Rightarrow> setup_state \<Rightarrow> bool" where
  "setup_parts cli L states ps R s' \<longleftrightarrow>
    map is_name states = L \<and> map so_iname (su_sources s') = L \<and>
    map is_pipeline states = [0..<length L] \<and> list_all iface_ok states \<and> list_all2 (base_ok cli) L ps \<and>
    length R = length (cross_pairs states) \<and> length (su_pipelines s') = length L \<and>
    (\<forall>m<length R. route_for cli (snd (cross_pairs states ! m)) m (R ! m)) \<and>
    (\<forall>i<length L. su_pipelines s' ! i = with_routes (ps ! i)
       (map snd (filter (\<lambda>(p, r). is_pipeline (fst p) = i) (zip (cross_pairs states) R))))"

lemma setupPipelines_Inr:
  assumes "setupPipelines env cli dm timeout ttl = (Inr registries, s')"
  shows "\<exists>L fixedIPs states ps R. distinct (c_Interface cli) \<and>
    active_interfaces env cli (fst dm) = Inr L \<and>
    getFixedIPs env cli (fst dm) = Inr fixedIPs \<and>
    buildSharedRegistries env ttl fixedIPs = Inr registries \<and>
    setup_parts cli L states ps R s'"
proof -
  let ?s = "\<lparr>su_dm = dm, su_sources = [], su_pipelines = [], su_transmitters = [], su_files = []\<rparr>"
  from assms obtain L fixedIPs states s u where
    d: "checkDuplicateInterfaces (c_Interface cli) = Inr ()"
    and l: "active_interfaces env cli (fst dm) = Inr L"
    and f: "getFixedIPs env cli (fst dm) = Inr fixedIPs"
    and b: "buildSharedRegistries env ttl fixedIPs = Inr registries"
    and i: "setup_interfaces env cli timeout L [] ?s = (Inr states, s)"
    and c: "attachCrossInterfaceSinks (setupCrossInterfaceSink env cli) states s = (Inr u, s')"
    by (auto simp: setupPipelines_def bind_setup_Inr Let_def split: sum.splits)
  from setup_interfaces_Inr [OF i] obtain ps srcs where
    s: "su_pipelines s = ps" "su_sources s = srcs" "su_transmitters s = []" "map is_name states = L"
      "map so_iname srcs = L" "map is_pipeline states = [0..<length L]" "list_all iface_ok states"
      "list_all2 (base_ok cli) L ps" by auto
  from run_pairs_routes [OF c [unfolded attach_pairs]] s obtain R where
    R: "length R = length (cross_pairs states)" "su_sources s' = srcs"
      "length (su_pipelines s') = length ps"
      "\<forall>m<length (cross_pairs states). route_for cli (snd (cross_pairs states ! m)) m (R ! m)"
      "\<forall>i<length ps. su_pipelines s' ! i = with_routes (ps ! i)
       (map snd (filter (\<lambda>(p, r). is_pipeline (fst p) = i) (zip (cross_pairs states) R)))" by auto
  have "length ps = length L" using s(8) by (simp add: list_all2_lengthD)
  with R s have "setup_parts cli L states ps R s'" by (simp add: setup_parts_def)
  with d l f b show ?thesis
    by (auto simp: checkDuplicateInterfaces_def check_duplicates_ok)
qed

text \<open>The routes of one pipeline are those of its row of pairs.\<close>

lemma setup_parts_routes:
  assumes "setup_parts cli L states ps R s'" and "i < length L"
  shows "pv_Source (su_pipelines s' ! i) = L ! i"
    and "pv_Processors (su_pipelines s' ! i) = base_processors cli (L ! i)"
    and "routes_of (su_pipelines s' ! i) =
      map snd (filter (\<lambda>(p, r). is_pipeline (fst p) = i) (zip (cross_pairs states) R))"
    and "\<forall>l\<in>set (leaves_of (su_pipelines s' ! i)). \<exists>f. l = SPcapFile f"
proof -
  have "base_ok cli (L ! i) (ps ! i)"
    using assms unfolding setup_parts_def by (blast intro: list_all2_nthD)
  then show "pv_Source (su_pipelines s' ! i) = L ! i"
    and "pv_Processors (su_pipelines s' ! i) = base_processors cli (L ! i)"
    and "routes_of (su_pipelines s' ! i) =
      map snd (filter (\<lambda>(p, r). is_pipeline (fst p) = i) (zip (cross_pairs states) R))"
    and "\<forall>l\<in>set (leaves_of (su_pipelines s' ! i)). \<exists>f. l = SPcapFile f"
    using assms by (simp_all add: setup_parts_def base_ok_def routes_of_with_routes leaves_of_with_routes)
qed

lemma concat_map_if: "concat (map (\<lambda>x. if P x then f x else []) xs) = concat (map f (filter P xs))"
  by (induction xs) auto

lemma filter_upt_eq: "i < n \<Longrightarrow> filter (\<lambda>j. j = i) [0..<n] = [i]"
  by (induction n) (auto simp: less_Suc_eq)

lemma cross_pairs_of:
  assumes "map is_pipeline states = [0..<length states]" and "i < length states"
  shows "filter (\<lambda>p. is_pipeline (fst p) = i) (cross_pairs states) =
    map (Pair (states ! i)) (filter (\<lambda>dst. is_name (states ! i) \<noteq> is_name dst) states)"
proof -
  let ?row = "\<lambda>src. map (Pair src) (filter (\<lambda>dst. is_name src \<noteq> is_name dst) states)"
  have row: "filter (\<lambda>p. is_pipeline (fst p) = i) (?row src) = (if is_pipeline src = i then ?row src else [])" for src
    by (simp add: filter_map o_def)
  have "filter (\<lambda>p. is_pipeline (fst p) = i) (cross_pairs states) =
      concat (map (\<lambda>src. if is_pipeline src = i then ?row src else []) states)"
    unfolding cross_pairs_def filter_concat map_map o_def row ..
  also have "\<dots> = concat (map ?row (filter (\<lambda>src. is_pipeline src = i) states))"
    by (rule concat_map_if)
  also have "filter (\<lambda>src. is_pipeline src = i) states = [states ! i]"
  proof -
    have s: "states = map (\<lambda>j. states ! j) [0..<length states]" by (simp add: map_nth)
    have "is_pipeline (states ! j) = j" if "j < length states" for j
      using that arg_cong [OF assms(1), of "\<lambda>xs. xs ! j"] by simp
    then have "filter (\<lambda>j. is_pipeline (states ! j) = i) [0..<length states] =
        filter (\<lambda>j. j = i) [0..<length states]" by (intro filter_cong) auto
    also have "\<dots> = [i]" using assms(2) by (rule filter_upt_eq)
    finally show ?thesis by (subst s) (simp add: filter_map o_def)
  qed
  finally show ?thesis by simp
qed

lemma fixed_okD:
  assumes "fixed_ok loopback cli f"
  shows "f = fixed_iface f @ ''@'' @ fixed_addr f \<and> (\<exists>ip. parse_ip (fixed_addr f) = Some ip)"
proof -
  from assms obtain i a where s: "split_on (CHR ''@'') f = [i, a]" and a: "parse_ip a \<noteq> None"
    by (auto simp: fixed_ok_def)
  have "f = join [CHR ''@''] (split_on (CHR ''@'') f)" by (simp only: join_split_on)
  with s a show ?thesis by (auto simp: fixed_iface_def fixed_addr_def)
qed


lemma split_on_parts: "x \<in> set (split_on c xs) \<Longrightarrow> c \<notin> set x"
  by (induction xs arbitrary: x) (auto split: list.splits if_splits)

lemma fixed_parts:
  assumes "fixed_ok loopback cli f"
  shows "f = i @ ''@'' @ a \<and> CHR ''@'' \<notin> set i \<and> parse_ip a = Some ip \<longleftrightarrow>
    i = fixed_iface f \<and> a = fixed_addr f \<and> parse_ip (fixed_addr f) = Some ip"
proof
  assume f: "f = i @ ''@'' @ a \<and> CHR ''@'' \<notin> set i \<and> parse_ip a = Some ip"
  then have "CHR ''@'' \<notin> set a" using parse_ip_notin [of a ip "CHR ''@''"] by simp
  with f have "split_on (CHR ''@'') f = [i, a]"
    by (simp add: split_on_append split_on_notin)
  with f show "i = fixed_iface f \<and> a = fixed_addr f \<and> parse_ip (fixed_addr f) = Some ip"
    by (simp add: fixed_iface_def fixed_addr_def)
next
  assume i: "i = fixed_iface f \<and> a = fixed_addr f \<and> parse_ip (fixed_addr f) = Some ip"
  have "length (split_on (CHR ''@'') f) = 2" using assms by (auto simp: fixed_ok_def)
  then have "CHR ''@'' \<notin> set (fixed_iface f)"
    unfolding fixed_iface_def by (intro split_on_parts [where xs = f] nth_mem) simp
  with i fixed_okD [OF assms] show "f = i @ ''@'' @ a \<and> CHR ''@'' \<notin> set i \<and> parse_ip a = Some ip"
    by simp
qed

lemma map_names_zip:
  "length R = length ps \<Longrightarrow> (\<And>m. m < length ps \<Longrightarrow> f (R ! m) = g (ps ! m)) \<Longrightarrow>
     map f (map snd (filter (\<lambda>(p, r). P p) (zip ps R))) = map g (filter P ps)"
proof (induction ps arbitrary: R)
  case (Cons p ps)
  then obtain r R' where R: "R = r # R'" by (cases R) auto
  have "map f (map snd (filter (\<lambda>(p, r). P p) (zip ps R'))) = map g (filter P ps)"
    using Cons.prems(1) Cons.prems(2) [of "Suc m" for m] R by (intro Cons.IH) auto
  with Cons.prems(2) [of 0] R show ?case by simp
qed simp

lemma mesh_names:
  assumes "setup_parts cli L states ps R s" and i: "i < length L"
  shows "map rv_Iname (routes_of (su_pipelines s ! i)) = filter (\<lambda>j. L ! i \<noteq> j) L"
proof -
  from assms(1) have n: "map is_name states = L" "map is_pipeline states = [0..<length L]"
    and R: "length R = length (cross_pairs states)"
      "\<forall>m<length R. route_for cli (snd (cross_pairs states ! m)) m (R ! m)"
    by (simp_all add: setup_parts_def)
  have len: "length states = length L" using n(1) by (metis length_map)
  from setup_parts_routes(3) [OF assms]
  have "map rv_Iname (routes_of (su_pipelines s ! i)) = map rv_Iname (map snd
      (filter (\<lambda>(p, r). is_pipeline (fst p) = i) (zip (cross_pairs states) R)))" by simp
  also have "\<dots> = map (\<lambda>p. is_name (snd p)) (filter (\<lambda>p. is_pipeline (fst p) = i) (cross_pairs states))"
    using R by (intro map_names_zip) (auto simp: route_for_def)
  also have "\<dots> = map is_name (filter (\<lambda>dst. is_name (states ! i) \<noteq> is_name dst) states)"
    using cross_pairs_of [of states i] n(2) len i by (simp add: o_def)
  also have "\<dots> = filter (\<lambda>j. is_name (states ! i) \<noteq> j) (map is_name states)"
    by (simp add: filter_map o_def)
  also have "\<dots> = filter (\<lambda>j. L ! i \<noteq> j) L"
    using i len n(1) by (metis nth_map)
  finally show ?thesis .
qed

lemma setup_route:
  assumes parts: "setup_parts cli L states ps R s"
    and "i < length L" and "r \<in> set (routes_of (su_pipelines s ! i))"
  shows "\<exists>dst k. dst \<in> set states \<and> route_for cli dst k r \<and>
    (\<forall>j<length L. \<forall>r'\<in>set (routes_of (su_pipelines s ! j)).
       \<forall>n. STransmitter k n \<in> set (rv_Sinks r') \<longrightarrow> j = i \<and> r' = r)"
proof -
  from parts have R: "length R = length (cross_pairs states)"
      "\<forall>m<length R. route_for cli (snd (cross_pairs states ! m)) m (R ! m)"
    by (simp_all add: setup_parts_def)
  have row: "\<exists>m<length R. q = R ! m \<and> is_pipeline (fst (cross_pairs states ! m)) = j"
    if "j < length L" "q \<in> set (routes_of (su_pipelines s ! j))" for j q
  proof -
    from that setup_parts_routes(3) [OF parts that(1)]
    have "\<exists>p. (p, q) \<in> set (zip (cross_pairs states) R) \<and> is_pipeline (fst p) = j" by force
    then obtain p where "(p, q) \<in> set (zip (cross_pairs states) R)" "is_pipeline (fst p) = j" by blast
    then obtain m where "p = cross_pairs states ! m" "q = R ! m" "m < length R"
      using R(1) unfolding in_set_zip by auto
    with \<open>is_pipeline (fst p) = j\<close> show ?thesis by blast
  qed
  from row [OF assms(2,3)] obtain m where m: "m < length R" "r = R ! m"
    "is_pipeline (fst (cross_pairs states ! m)) = i" by auto
  have rf: "route_for cli (snd (cross_pairs states ! m)) m r" using R(2) m by blast
  moreover have "snd (cross_pairs states ! m) \<in> set states"
    using nth_mem [of m "cross_pairs states"] m(1) R(1) by (auto simp: cross_pairs_def)
  moreover have "j = i \<and> q = r" if "j < length L"
    "q \<in> set (routes_of (su_pipelines s ! j))" "STransmitter m n \<in> set (rv_Sinks q)" for j q n
  proof -
    from row [of j q] that(1,2) obtain m' where m': "m' < length R" "q = R ! m'"
      "is_pipeline (fst (cross_pairs states ! m')) = j" by auto
    with R(2) have "route_for cli (snd (cross_pairs states ! m')) m' q" by blast
    with that(3) have "m' = m" by (auto simp: route_for_def)
    with m m' show ?thesis by simp
  qed
  ultimately show ?thesis by blast
qed

lemma setup_routes_distinct:
  assumes "setup_parts cli L states ps R s" and "i < length L"
  shows "distinct (routes_of (su_pipelines s ! i))"
proof -
  from assms(1) have len: "length R = length (cross_pairs states)"
    and R: "\<And>m. m < length R \<Longrightarrow> \<exists>dst. route_for cli dst m (R ! m)"
    by (auto simp: setup_parts_def)
  have inj: "k = k'" if "route_for cli dst k r" "route_for cli dst' k' r" for dst dst' k k' r
    using that by (auto simp: route_for_def)
  have "distinct R"
    unfolding distinct_conv_nth
  proof (intro allI impI notI)
    fix m m'
    assume m: "m < length R" "m' < length R" "m \<noteq> m'" "R ! m = R ! m'"
    from R [OF m(1)] R [OF m(2)] m(4) obtain dst dst' where
      "route_for cli dst m (R ! m)" "route_for cli dst' m' (R ! m)" by auto
    with inj m(3) show False by blast
  qed
  moreover have "map snd (zip (cross_pairs states) R) = R" using len by simp
  ultimately have "distinct (map snd (filter (\<lambda>(p, r). is_pipeline (fst p) = i) (zip (cross_pairs states) R)))"
    by (intro distinct_map_filter) (simp only:)
  then show ?thesis by (simp only: setup_parts_routes(3) [OF assms])
qed

lemma all_less_two: "(\<forall>i<2. P i) \<longleftrightarrow> P 0 \<and> P (1 :: nat)"
  by (auto simp: less_2_cases_iff)

text \<open>How often an interface is among the active ones.\<close>

lemma count_list_filter: "P x \<Longrightarrow> count_list (filter P xs) x = count_list xs x"
  by (induction xs) auto

lemma count_list_distinct: "distinct xs \<Longrightarrow> x \<in> set xs \<Longrightarrow> count_list xs x = 1"
  by (induction xs) (auto simp: count_notin)

lemma active_interfaces_Inr:
  "active_interfaces env cli dm = Inr L \<Longrightarrow> L = c_Interface cli @
     (if c_DeliverLocal cli then [GetLoopback (en_order env AtSetup) dm] else [])"
  by (auto simp: active_interfaces_def Let_def split: if_splits)

lemma active_count:
  assumes "active_interfaces env cli dm = Inr L" and "distinct (c_Interface cli)" and "j \<in> set L"
  shows "count_list L j = (if c_DeliverLocal cli \<and> j = GetLoopback (en_order env AtSetup) dm \<and>
    j \<in> set (c_Interface cli) then 2 else 1)"
  using assms(2,3) count_list_distinct [OF assms(2), of j]
  by (auto simp: active_interfaces_Inr [OF assms(1)] count_notin)

section \<open>Properties\<close>

text \<open>
  C5. The set-up builds a full mesh: one pipeline per active interface, in order, which
  reads it, filters, prints if asked to and learns its clients; the active interfaces are
  the given ones, which are distinct, and the loopback last with \<^verbatim>\<open>--deliver-local\<close>.  A
  pipeline has no route to its own interface, so nothing is sent back where it came from,
  and exactly one to every other, except that it has two to a loopback which was given with
  \<^verbatim>\<open>--interface\<close> and is added again; all of them share one registry.
\<close>

theorem setupPipelines_mesh:
  assumes "setupPipelines env cli dm timeout ttl = (Inr registries, s)"
  shows "\<exists>L registry. registries = [registry] \<and> active_interfaces env cli (fst dm) = Inr L \<and>
    distinct (c_Interface cli) \<and> length (su_pipelines s) = length L \<and> map so_iname (su_sources s) = L \<and>
    L = c_Interface cli @ (if c_DeliverLocal cli then [GetLoopback (en_order env AtSetup) (fst dm)] else []) \<and>
    (\<forall>i<length L. pv_Source (su_pipelines s ! i) = L ! i \<and>
       pv_Processors (su_pipelines s ! i) = base_processors cli (L ! i) \<and>
       map rv_Iname (routes_of (su_pipelines s ! i)) = filter (\<lambda>j. L ! i \<noteq> j) L \<and>
       (\<forall>j\<in>set L. count_list (map rv_Iname (routes_of (su_pipelines s ! i))) j =
          (if j = L ! i then 0
           else if c_DeliverLocal cli \<and> j = GetLoopback (en_order env AtSetup) (fst dm) \<and>
             j \<in> set (c_Interface cli) then 2 else 1)))"
proof -
  from setupPipelines_Inr [OF assms] obtain L fixedIPs states ps R where
    d: "distinct (c_Interface cli)" and l: "active_interfaces env cli (fst dm) = Inr L"
    and b: "buildSharedRegistries env ttl fixedIPs = Inr registries"
    and parts: "setup_parts cli L states ps R s" by blast
  from b obtain registry where "registries = [registry]"
    by (auto simp: buildSharedRegistries_def split: sum.splits)
  moreover from parts have "length (su_pipelines s) = length L" "map so_iname (su_sources s) = L"
    by (simp_all add: setup_parts_def)
  moreover have "count_list (map rv_Iname (routes_of (su_pipelines s ! i))) j =
      (if j = L ! i then 0 else if c_DeliverLocal cli \<and> j = GetLoopback (en_order env AtSetup) (fst dm) \<and>
         j \<in> set (c_Interface cli) then 2 else 1)" if "i < length L" "j \<in> set L" for i j
    unfolding mesh_names [OF parts that(1)] using active_count [OF l d that(2)]
    by (cases "j = L ! i") (simp_all add: count_list_filter count_notin)
  ultimately show ?thesis
    using d l active_interfaces_Inr [OF l] setup_parts_routes(1,2) [OF parts] mesh_names [OF parts]
    by (intro exI [of _ L] exI [of _ registry] conjI allI impI ballI) simp_all
qed

text \<open>Two Ethernet interfaces with one address each, to evaluate on.\<close>

definition lab_cli :: cli where
  "lab_cli = \<lparr>c_Interface = [''eth0'', ''eth1''], c_FixedIp = [], c_Port = [9003], c_Timeout = 250,
     c_CacheTTL = 180, c_DeliverLocal = False, c_Level = ''info'', c_LogLines = False,
     c_Logfile = ''stderr'', c_NoListen = False, c_Decode = False, c_Pcap = False,
     c_PcapPath = ''/root'', c_GraphPipeline = '''', c_ListInterfaces = False, c_Version = False\<rparr>"

definition lab_env :: os_env where
  "lab_env = \<lparr>en_goos = ''linux'', en_link_string = (\<lambda>lt. ''link''),
     en_InterfaceByName = (\<lambda>i. Inr \<lparr>ni_Flags = 2, ni_HardwareAddr = [2, 0, 0, 0, 0, 7]\<rparr>),
     en_reader = (\<lambda>i. all_well (if i = ''eth0'' then 1 else 2) LinkTypeEthernet),
     en_writer = (\<lambda>i j. all_well (if j = ''eth0'' then 3 else 4) LinkTypeEthernet),
     en_SetBPFFilter = (\<lambda>i f. None), en_Create = (\<lambda>p. None), en_WriteFileHeader = (\<lambda>p. None),
     en_order = (\<lambda>c. []), en_fixed_order = (\<lambda>m. [])\<rparr>"

definition lab_iface :: "string \<Rightarrow> byte \<Rightarrow> pcap_interface" where
  "lab_iface name n = \<lparr>if_Name = name, if_Addresses = [\<lparr>ia_IP = [10, 0, n, 1],
     ia_Netmask = [255, 255, 255, 0], ia_Broadaddr = [10, 0, n, 255], ia_P2P = []\<rparr>]\<rparr>"

definition lab_dm :: device_manager where
  "lab_dm = empty_dm\<lparr>dm_interfaces :=
     [''eth0'' \<mapsto> lab_iface ''eth0'' 0, ''eth1'' \<mapsto> lab_iface ''eth1'' 1]\<rparr>"

definition lab_setup :: "(failure + registry list) \<times> setup_state" where
  "lab_setup = setupPipelines lab_env lab_cli (lab_dm, no_pcap) 250000000 60000000000"

lemmas lab_defs = lab_cli_def lab_env_def lab_iface_def lab_dm_def

lemmas lab_run = lab_setup_def setupPipelines_def lab_defs checkDuplicateInterfaces_def
  active_interfaces_def getFixedIPs_def buildSharedRegistries_def NewRegistryProcessorByInterface_def
  attachCrossInterfaceSinks_def setupInterfacePipeline_def setup_base_def NewPcapSource_def
  CreateReaderHandle_def activate_reader_def pcap_ops pcap_examples isValidLinkType_def
  startInterfaceMonitor_def GetAddresses_def discoverBroadcastAddress_def has_broadcast_def
  FlagBroadcast_def set_filter_def deviceManagerKey_def
  setupCrossInterfaceSink_def CreateIsolatedWriterHandle_def newWriterHandle_def NewTransmitterSink_def
  handle_LinkType_def base_processors_def route_processors_def

lemma lab_setup_ok: "\<exists>reg s. lab_setup = (Inr [reg], s)"
  by (simp add: lab_run)

lemma lab_active: "active_interfaces lab_env lab_cli dm = Inr [''eth0'', ''eth1'']"
  by (simp add: active_interfaces_def lab_cli_def)

theorem setupPipelines_mesh_witness:
  "\<exists>reg s. lab_setup = (Inr [reg], s) \<and> length (su_pipelines s) = 2 \<and>
     map rv_Iname (routes_of (su_pipelines s ! 0)) = [''eth1''] \<and>
     map rv_Iname (routes_of (su_pipelines s ! 1)) = [''eth0'']"
proof -
  from lab_setup_ok obtain reg s where s: "lab_setup = (Inr [reg], s)" by blast
  from setupPipelines_mesh [OF s [unfolded lab_setup_def]] obtain L where
    "active_interfaces lab_env lab_cli lab_dm = Inr L" "length (su_pipelines s) = length L"
    "\<forall>i<length L. map rv_Iname (routes_of (su_pipelines s ! i)) = filter (\<lambda>j. L ! i \<noteq> j) L"
    unfolding fst_conv by metis
  then have "length (su_pipelines s) = 2"
    "\<forall>i<2. map rv_Iname (routes_of (su_pipelines s ! i)) =
       filter (\<lambda>j. [''eth0'', ''eth1''] ! i \<noteq> j) [''eth0'', ''eth1'']"
    by (auto simp: lab_active)
  then have "length (su_pipelines s) = 2 \<and> map rv_Iname (routes_of (su_pipelines s ! 0)) = [''eth1''] \<and>
     map rv_Iname (routes_of (su_pipelines s ! 1)) = [''eth0'']"
    unfolding all_less_two by simp
  with s show ?thesis by (intro exI [of _ reg] exI [of _ s] conjI) simp_all
qed

text \<open>
  C6. Every route of a successful set-up ends in a transmitter of its own, open on its
  egress interface: no two routes, of the same or of different pipelines, share one.  A
  route to an interface that broadcasts has a broadcast address.
\<close>

theorem setupPipelines_transmitters:
  assumes "setupPipelines env cli dm timeout ttl = (Inr registries, s)"
    and "i < length (su_pipelines s)" and "r \<in> set (routes_of (su_pipelines s ! i))"
  shows "(rv_Broadcast r \<longrightarrow> rv_BroadcastAddress r \<noteq> []) \<and>
    (\<exists>files k. rv_Sinks r = files @ [STransmitter k (rv_Iname r)] \<and>
       (\<forall>x\<in>set files. \<exists>f. x = SPcapFile f) \<and>
       (\<forall>j<length (su_pipelines s). \<forall>r'\<in>set (routes_of (su_pipelines s ! j)).
          \<forall>n. STransmitter k n \<in> set (rv_Sinks r') \<longrightarrow> j = i \<and> r' = r))"
proof -
  from setupPipelines_Inr [OF assms(1)] obtain L states ps R where
    parts: "setup_parts cli L states ps R s" by blast
  then have len: "length (su_pipelines s) = length L" and ok: "list_all iface_ok states"
    by (simp_all add: setup_parts_def)
  from setup_route [OF parts _ assms(3)] assms(2) len obtain dst k where
    d: "dst \<in> set states" "route_for cli dst k r"
    and x: "\<forall>j<length L. \<forall>r'\<in>set (routes_of (su_pipelines s ! j)).
       \<forall>n. STransmitter k n \<in> set (rv_Sinks r') \<longrightarrow> j = i \<and> r' = r" by auto
  from d(2) obtain files where "rv_Sinks r = files @ [STransmitter k (rv_Iname r)]"
    "\<forall>x\<in>set files. \<exists>f. x = SPcapFile f" by (auto simp: route_for_def)
  moreover have "rv_Broadcast r \<longrightarrow> rv_BroadcastAddress r \<noteq> []"
    using ok d by (auto simp: list_all_iff iface_ok_def route_for_def)
  ultimately show ?thesis using x unfolding len by blast
qed

theorem setupPipelines_transmitters_witness:
  "\<exists>s r k. snd lab_setup = s \<and> routes_of (su_pipelines s ! 0) = [r] \<and>
     STransmitter k ''eth1'' \<in> set (rv_Sinks r)"
proof -
  from lab_setup_ok obtain reg s where s: "lab_setup = (Inr [reg], s)" by blast
  from setupPipelines_Inr [OF s [unfolded lab_setup_def]] obtain L states ps R where
    L: "active_interfaces lab_env lab_cli lab_dm = Inr L" and parts: "setup_parts lab_cli L states ps R s"
    by auto
  have len: "length (su_pipelines s) = 2" and names: "map is_name states = [''eth0'', ''eth1'']"
    using L parts by (auto simp: lab_active setup_parts_def)
  obtain r where r: "routes_of (su_pipelines s ! 0) = [r]" "rv_Iname r = ''eth1''"
  proof -
    have "map rv_Iname (routes_of (su_pipelines s ! 0)) = [''eth1'']"
      using mesh_names [OF parts, of 0] L lab_active [of lab_dm] by auto
    with that show ?thesis by (cases "routes_of (su_pipelines s ! 0)") auto
  qed
  from setupPipelines_transmitters [OF s [unfolded lab_setup_def], of 0 r] len r
  obtain files k where "rv_Sinks r = files @ [STransmitter k ''eth1'']" by auto
  then have "STransmitter k ''eth1'' \<in> set (rv_Sinks r)" by simp
  moreover have "snd lab_setup = s" by (subst s) simp
  ultimately show ?thesis using r by (intro exI [of _ s] exI [of _ r] exI [of _ k] conjI)
qed

text \<open>The map that \<^verbatim>\<open>getFixedIPs\<close> returns for acceptable addresses.\<close>

definition fixed_map :: "string list \<Rightarrow> string \<rightharpoonup> string list" where
  "fixed_map fs = (\<lambda>i. let new = map fixed_addr (filter (\<lambda>f. fixed_iface f = i) fs) in
     if new = [] then None else Some new)"

lemma getFixedIPs_result:
  "getFixedIPs env cli dm =
     (if \<forall>f\<in>set (c_FixedIp cli). fixed_ok (\<lambda>f. GetLoopback (en_order env (AtFixedIp f)) dm) cli f
      then Inr (fixed_map (c_FixedIp cli)) else Inl (Exit 1))"
  unfolding getFixedIPs_def fixed_ips_result
  by (simp add: Let_def fixed_map_def cong: if_cong option.case_cong)

lemma fixed_map_members:
  "s \<in> set (the (fixed_map fs i)) \<and> i \<in> dom (fixed_map fs) \<longleftrightarrow>
     (\<exists>f\<in>set fs. fixed_iface f = i \<and> fixed_addr f = s)"
  by (auto simp: fixed_map_def Let_def dom_def filter_empty_conv)

lemma fixed_registry_built:
  assumes "\<forall>f\<in>set fs. fixed_ok lo cli f" and "enumerates ks (fixed_map fs)"
  shows "\<exists>r. NewRegistryProcessorByInterface ttl (fixed_map fs) ks = Inr r"
proof -
  have "\<forall>i\<in>set ks. \<forall>s\<in>set (the (fixed_map fs i)). parse_ip s \<noteq> None"
  proof (intro ballI)
    fix i s
    assume "i \<in> set ks" and "s \<in> set (the (fixed_map fs i))"
    with assms(2) fixed_map_members [of s fs i] obtain f where "f \<in> set fs" "fixed_addr f = s"
      by (auto simp: enumerates_def)
    with assms(1) fixed_okD show "parse_ip s \<noteq> None" by fastforce
  qed
  then obtain m' where "add_fixed_interfaces (fixed_map fs) ks Map.empty = Inr m'"
    using add_fixed_interfaces_ok by blast
  then show ?thesis by (simp add: NewRegistryProcessorByInterface_def)
qed

lemma fixed_registry_clients:
  assumes "\<forall>f\<in>set fs. fixed_ok lo cli f" and "enumerates ks (fixed_map fs)"
    and "NewRegistryProcessorByInterface ttl (fixed_map fs) ks = Inr r"
  shows "clients_of r k = Some c \<longleftrightarrow> (\<exists>f\<in>set fs. \<exists>i a ip.
    f = i @ ''@'' @ a \<and> CHR ''@'' \<notin> set i \<and> parse_ip a = Some ip \<and>
    k = keyForClient i a \<and> c = fixed_client i ip)"
proof -
  have "clients_of r k = Some c \<longleftrightarrow> (\<exists>i\<in>dom (fixed_map fs). fixed_entry (fixed_map fs) i k c)"
    by (rule NewRegistryProcessorByInterface_Inr(3) [OF assms(3,2)])
  also have "\<dots> \<longleftrightarrow> (\<exists>i a. (a \<in> set (the (fixed_map fs i)) \<and> i \<in> dom (fixed_map fs)) \<and>
      (\<exists>ip. parse_ip a = Some ip \<and> k = keyForClient i a \<and> c = fixed_client i ip))"
    unfolding fixed_entry_def by blast
  also have "\<dots> \<longleftrightarrow> (\<exists>f\<in>set fs. \<exists>i a ip. (i = fixed_iface f \<and> a = fixed_addr f \<and>
      parse_ip (fixed_addr f) = Some ip) \<and> k = keyForClient i a \<and> c = fixed_client i ip)"
    unfolding fixed_map_members by blast
  also have "\<dots> \<longleftrightarrow> (\<exists>f\<in>set fs. \<exists>i a ip. (f = i @ ''@'' @ a \<and> CHR ''@'' \<notin> set i \<and>
      parse_ip a = Some ip) \<and> k = keyForClient i a \<and> c = fixed_client i ip)"
  proof (rule bex_cong [OF refl])
    fix f
    assume "f \<in> set fs"
    with assms(1) have ok: "fixed_ok lo cli f" by blast
    show "(\<exists>i a ip. (i = fixed_iface f \<and> a = fixed_addr f \<and> parse_ip (fixed_addr f) = Some ip) \<and>
        k = keyForClient i a \<and> c = fixed_client i ip) \<longleftrightarrow>
      (\<exists>i a ip. (f = i @ ''@'' @ a \<and> CHR ''@'' \<notin> set i \<and> parse_ip a = Some ip) \<and>
        k = keyForClient i a \<and> c = fixed_client i ip)"
      unfolding fixed_parts [OF ok] ..
  qed
  finally show ?thesis by (simp only: conj_assoc)
qed

lemma fixed_ok_iff:
  "fixed_ok loopback cli f \<longleftrightarrow> (\<exists>i a. f = i @ ''@'' @ a \<and> CHR ''@'' \<notin> set i \<and> parse_ip a \<noteq> None \<and>
     (i \<in> set (c_Interface cli) \<or> c_DeliverLocal cli \<and> i = loopback f))"
proof
  assume ok: "fixed_ok loopback cli f"
  then have "fixed_iface f \<in> set (c_Interface cli) \<or> c_DeliverLocal cli \<and> fixed_iface f = loopback f"
    by (auto simp: fixed_ok_def fixed_iface_def)
  moreover obtain ip where ip: "parse_ip (fixed_addr f) = Some ip" using fixed_okD [OF ok] by blast
  moreover have "f = fixed_iface f @ ''@'' @ fixed_addr f \<and> CHR ''@'' \<notin> set (fixed_iface f) \<and>
      parse_ip (fixed_addr f) = Some ip"
    by (rule fixed_parts [OF ok, THEN iffD2]) (use ip in simp)
  ultimately show "\<exists>i a. f = i @ ''@'' @ a \<and> CHR ''@'' \<notin> set i \<and> parse_ip a \<noteq> None \<and>
      (i \<in> set (c_Interface cli) \<or> c_DeliverLocal cli \<and> i = loopback f)"
    by (intro exI [of _ "fixed_iface f"] exI [of _ "fixed_addr f"]) (simp only: option.distinct simp_thms)
next
  assume "\<exists>i a. f = i @ ''@'' @ a \<and> CHR ''@'' \<notin> set i \<and> parse_ip a \<noteq> None \<and>
      (i \<in> set (c_Interface cli) \<or> c_DeliverLocal cli \<and> i = loopback f)"
  then obtain i a ip where f: "f = i @ ''@'' @ a" "CHR ''@'' \<notin> set i" "parse_ip a = Some ip"
    and act: "i \<in> set (c_Interface cli) \<or> c_DeliverLocal cli \<and> i = loopback f" by blast
  from parse_ip_notin [OF f(3), of "CHR ''@''"] have "CHR ''@'' \<notin> set a" by simp
  with f have "split_on (CHR ''@'') f = [i, a]" by (simp add: split_on_append split_on_notin)
  with f(3) act show "fixed_ok loopback cli f" by (auto simp: fixed_ok_def)
qed

lemma fixed_clients_built:
  assumes "\<forall>f\<in>set (c_FixedIp cli). fixed_ok (\<lambda>f. GetLoopback (en_order env (AtFixedIp f)) dm) cli f"
    and "\<And>m. getFixedIPs env cli dm = Inr m \<Longrightarrow> enumerates (en_fixed_order env m) m"
  shows "\<exists>m r. getFixedIPs env cli dm = Inr m \<and> buildSharedRegistries env ttl m = Inr [r] \<and> rg_TTL r = ttl \<and>
    (\<forall>k c. clients_of r k = Some c \<longleftrightarrow> (\<exists>f\<in>set (c_FixedIp cli). \<exists>i a ip.
       f = i @ ''@'' @ a \<and> CHR ''@'' \<notin> set i \<and> parse_ip a = Some ip \<and>
       k = keyForClient i a \<and> c = fixed_client i ip))"
proof -
  from assms(1) have m: "getFixedIPs env cli dm = Inr (fixed_map (c_FixedIp cli))"
    unfolding getFixedIPs_result by (rule if_P)
  note ord = assms(2) [OF m]
  from fixed_registry_built [OF assms(1) ord] obtain r where
    r: "NewRegistryProcessorByInterface ttl (fixed_map (c_FixedIp cli))
      (en_fixed_order env (fixed_map (c_FixedIp cli))) = Inr r" by blast
  then have "buildSharedRegistries env ttl (fixed_map (c_FixedIp cli)) = Inr [r]"
    by (simp add: buildSharedRegistries_def)
  with m fixed_registry_clients [OF assms(1) ord r] NewRegistryProcessorByInterface_Inr(1) [OF r ord]
  show ?thesis by (intro exI [of _ "fixed_map (c_FixedIp cli)"] exI [of _ r] conjI allI)
qed

text \<open>
  C32. Fixed clients: the configured addresses are accepted exactly when each has the form
  \<open>interface@address\<close> with a valid address and an active interface, which is one given with
  \<^verbatim>\<open>--interface\<close>, or the loopback with \<^verbatim>\<open>--deliver-local\<close>; otherwise the program exits with
  code 1.  From accepted addresses the registry is built without error, and holds exactly a
  client that never expires for each of them.
\<close>

theorem fixed_clients_configured:
  assumes "\<And>m. getFixedIPs env cli dm = Inr m \<Longrightarrow> enumerates (en_fixed_order env m) m"
  shows "if \<forall>f\<in>set (c_FixedIp cli). \<exists>i a. f = i @ ''@'' @ a \<and> CHR ''@'' \<notin> set i \<and> parse_ip a \<noteq> None \<and>
       (i \<in> set (c_Interface cli) \<or> c_DeliverLocal cli \<and> i = GetLoopback (en_order env (AtFixedIp f)) dm)
    then \<exists>m r. getFixedIPs env cli dm = Inr m \<and> buildSharedRegistries env ttl m = Inr [r] \<and> rg_TTL r = ttl \<and>
      (\<forall>k c. clients_of r k = Some c \<longleftrightarrow> (\<exists>f\<in>set (c_FixedIp cli). \<exists>i a ip.
         f = i @ ''@'' @ a \<and> CHR ''@'' \<notin> set i \<and> parse_ip a = Some ip \<and>
         k = keyForClient i a \<and> c = fixed_client i ip))
    else getFixedIPs env cli dm = Inl (Exit 1)"
    (is "if ?accepted then ?built else ?exits")
proof -
  let ?ok = "\<forall>f\<in>set (c_FixedIp cli). fixed_ok (\<lambda>f. GetLoopback (en_order env (AtFixedIp f)) dm) cli f"
  have iff: "?accepted \<longleftrightarrow> ?ok" by (simp only: fixed_ok_iff)
  have "\<not> ?ok \<Longrightarrow> ?exits" by (simp only: getFixedIPs_result if_False)
  moreover have "?ok \<Longrightarrow> ?built" by (erule fixed_clients_built [OF _ assms])
  ultimately show ?thesis unfolding iff if_bool_eq_conj by blast
qed

definition fixed_cli :: cli where
  "fixed_cli = lab_cli\<lparr>c_FixedIp := [''eth1@10.0.1.9'']\<rparr>"

definition fixed_env :: os_env where
  "fixed_env = lab_env\<lparr>en_fixed_order := (\<lambda>m. [''eth1''])\<rparr>"

theorem fixed_clients_configured_witness:
  "\<exists>m r. getFixedIPs fixed_env fixed_cli lab_dm = Inr m \<and> buildSharedRegistries fixed_env 5 m = Inr [r] \<and>
     clients_of r (keyForClient ''eth1'' ''10.0.1.9'') =
       Some (fixed_client ''eth1'' [0, 0, 0, 0, 0, 0, 0, 0, 0, 0, 255, 255, 10, 0, 1, 9])"
proof -
  have ip: "parse_ip ''10.0.1.9'' = Some [0, 0, 0, 0, 0, 0, 0, 0, 0, 0, 255, 255, 10, 0, 1, 9]" by code_simp
  have fs: "c_FixedIp fixed_cli = [''eth1'' @ ''@'' @ ''10.0.1.9'']" "''eth1'' \<in> set (c_Interface fixed_cli)"
    by (simp_all add: fixed_cli_def lab_cli_def)
  have "getFixedIPs fixed_env fixed_cli lab_dm = Inr [''eth1'' \<mapsto> [''10.0.1.9'']]"
    by (simp add: getFixedIPs_def fixed_cli_def lab_cli_def ip)
  then have ord: "enumerates (en_fixed_order fixed_env m) m"
    if "getFixedIPs fixed_env fixed_cli lab_dm = Inr m" for m
    using that by (auto simp: fixed_env_def enumerates_def split: if_splits)
  have accepted: "\<forall>f\<in>set (c_FixedIp fixed_cli). \<exists>i a. f = i @ ''@'' @ a \<and> CHR ''@'' \<notin> set i \<and> parse_ip a \<noteq> None \<and>
       (i \<in> set (c_Interface fixed_cli) \<or> c_DeliverLocal fixed_cli \<and>
        i = GetLoopback (en_order fixed_env (AtFixedIp f)) lab_dm)"
    unfolding fs using ip fs(2) by (intro ballI exI [of _ "''eth1''"] exI [of _ "''10.0.1.9''"]) simp
  from fixed_clients_configured [where env = fixed_env and cli = fixed_cli and dm = lab_dm and ttl = 5, OF ord]
  obtain m r where
    m: "getFixedIPs fixed_env fixed_cli lab_dm = Inr m" "buildSharedRegistries fixed_env 5 m = Inr [r]"
    and r: "\<And>k c. clients_of r k = Some c \<longleftrightarrow> (\<exists>f\<in>set (c_FixedIp fixed_cli). \<exists>i a ip.
         f = i @ ''@'' @ a \<and> CHR ''@'' \<notin> set i \<and> parse_ip a = Some ip \<and>
         k = keyForClient i a \<and> c = fixed_client i ip)"
    unfolding if_P [OF accepted] by blast
  have "clients_of r (keyForClient ''eth1'' ''10.0.1.9'') =
       Some (fixed_client ''eth1'' [0, 0, 0, 0, 0, 0, 0, 0, 0, 0, 255, 255, 10, 0, 1, 9])"
    unfolding r fs using ip by (intro bexI [of _ "''eth1'' @ ''@'' @ ''10.0.1.9''"]
      exI [of _ "''eth1''"] exI [of _ "''10.0.1.9''"] exI) simp_all
  with m show ?thesis by blast
qed

text \<open>
  The broadcast address of an interface is 127.0.0.1 for the loopback when packets are
  delivered locally, and otherwise that of its first IPv4 address that has one; an interface
  that broadcasts and has none is refused.
\<close>

theorem discoverBroadcastAddress_correct:
  "discoverBroadcastAddress env dm netif addrs cli iname =
     (let candidates = filter (\<lambda>a. to4 (ia_IP a) \<noteq> [] \<and> ia_Broadaddr a \<noteq> []) addrs in
      if c_DeliverLocal cli \<and> iname = GetLoopback (en_order env (AtInterface iname)) dm
        then Inr (IPv4 127 0 0 1)
      else if candidates \<noteq> [] then Inr (ia_Broadaddr (hd candidates))
      else if has_broadcast netif
        then Inl (Errorf (''failed to discover broadcast address for interface: '' @ iname))
      else Inr [])"
proof -
  let ?cs = "filter (\<lambda>a. to4 (ia_IP a) \<noteq> [] \<and> ia_Broadaddr a \<noteq> []) addrs"
  have "ia_Broadaddr a \<noteq> []" if "?cs = a # as" for a as
  proof -
    have "a \<in> set ?cs" unfolding that by simp
    then show ?thesis by simp
  qed
  moreover have "IPv4 127 0 0 1 \<noteq> []" by (simp add: IPv4_def)
  ultimately show ?thesis
    by (cases ?cs) (simp_all add: discoverBroadcastAddress_def first_broadcast_eq Let_def)
qed


text \<open>
  Duplicates on the command line are refused with exit code 1, and nothing else is;
  but the loopback that \<^verbatim>\<open>--deliver-local\<close> adds is not checked, so when it was also given
  as an interface every other pipeline has two routes to it.
\<close>

theorem duplicate_interfaces:
  assumes "setupPipelines env cli dm timeout ttl = (Inr registries, s)" and "c_DeliverLocal cli"
    and "GetLoopback (en_order env AtSetup) (fst dm) \<in> set (c_Interface cli)"
  shows "distinct (c_Interface cli) \<and> length (su_pipelines s) = Suc (length (c_Interface cli)) \<and>
    (\<forall>i<length (c_Interface cli).
       c_Interface cli ! i = GetLoopback (en_order env AtSetup) (fst dm) \<or>
       count_list (map rv_Iname (routes_of (su_pipelines s ! i)))
         (GetLoopback (en_order env AtSetup) (fst dm)) = 2)"
proof -
  let ?lb = "GetLoopback (en_order env AtSetup) (fst dm)"
  from setupPipelines_Inr [OF assms(1)] obtain L states ps R where
    d: "distinct (c_Interface cli)" and l: "active_interfaces env cli (fst dm) = Inr L"
    and parts: "setup_parts cli L states ps R s" by blast
  from l assms(2) have L: "L = c_Interface cli @ [?lb]"
    by (auto simp: active_interfaces_def Let_def split: if_splits)
  have "count_list (map rv_Iname (routes_of (su_pipelines s ! i))) ?lb = 2"
    if "i < length (c_Interface cli)" "c_Interface cli ! i \<noteq> ?lb" for i
  proof -
    have "map rv_Iname (routes_of (su_pipelines s ! i)) = filter (\<lambda>j. L ! i \<noteq> j) L"
      using mesh_names [OF parts] that(1) L by simp
    moreover have "count_list (filter (\<lambda>j. L ! i \<noteq> j) L) ?lb = count_list L ?lb"
      using that L by (simp add: count_list_filter nth_append)
    moreover have "count_list (c_Interface cli) ?lb = 1"
      using d assms(3) by (simp add: count_list_distinct)
    ultimately show ?thesis by (simp add: L)
  qed
  moreover have "length (su_pipelines s) = length L" using parts by (simp add: setup_parts_def)
  ultimately show ?thesis using d L by auto
qed

definition lb_cli :: cli where
  "lb_cli = lab_cli\<lparr>c_Interface := [''lo'', ''eth0''], c_DeliverLocal := True\<rparr>"

definition lb_env :: os_env where
  "lb_env = lab_env\<lparr>en_order := (\<lambda>c. [''lo''])\<rparr>"

definition lb_dm :: device_manager where
  "lb_dm = empty_dm\<lparr>dm_interfaces := [''eth0'' \<mapsto> lab_iface ''eth0'' 0,
     ''lo'' \<mapsto> \<lparr>if_Name = ''lo'', if_Addresses = [\<lparr>ia_IP = [127, 0, 0, 1],
       ia_Netmask = [255, 0, 0, 0], ia_Broadaddr = [], ia_P2P = []\<rparr>]\<rparr>]\<rparr>"

lemma lb_loopback: "GetLoopback (en_order lb_env c) lb_dm = ''lo''"
  by (simp add: lb_env_def lb_dm_def is_loopback_def)

lemma lb_setup_ok: "\<exists>reg s. setupPipelines lb_env lb_cli (lb_dm, no_pcap) 1 1 = (Inr [reg], s)"
  by (simp add: setupPipelines_def lb_env_def lb_cli_def lb_dm_def lab_defs checkDuplicateInterfaces_def
      active_interfaces_def getFixedIPs_def buildSharedRegistries_def NewRegistryProcessorByInterface_def
      attachCrossInterfaceSinks_def setupInterfacePipeline_def setup_base_def NewPcapSource_def
      CreateReaderHandle_def activate_reader_def pcap_ops pcap_examples isValidLinkType_def
      startInterfaceMonitor_def GetAddresses_def discoverBroadcastAddress_def has_broadcast_def
      FlagBroadcast_def set_filter_def deviceManagerKey_def is_loopback_def
      setupCrossInterfaceSink_def CreateIsolatedWriterHandle_def newWriterHandle_def NewTransmitterSink_def
      handle_LinkType_def IPv4_def)

theorem duplicate_interfaces_witness:
  "\<exists>reg s. setupPipelines lb_env lb_cli (lb_dm, no_pcap) 1 1 = (Inr [reg], s) \<and>
     count_list (map rv_Iname (routes_of (su_pipelines s ! 1))) ''lo'' = 2"
proof -
  from lb_setup_ok obtain reg s where
    s: "setupPipelines lb_env lb_cli (lb_dm, no_pcap) 1 1 = (Inr [reg], s)" by blast
  have "c_DeliverLocal lb_cli" "c_Interface lb_cli = [''lo'', ''eth0'']"
    by (simp_all add: lb_cli_def)
  with duplicate_interfaces [OF s] have "count_list (map rv_Iname (routes_of (su_pipelines s ! 1))) ''lo'' = 2"
    by (auto simp: lb_loopback All_less_Suc2 numeral_2_eq_2)
  with s show ?thesis by (intro exI [of _ reg] exI [of _ s] conjI)
qed

end
