(* ===== verification/System.thy ===== *)
theory System
  imports Setup
begin

text \<open>
  The running program: the values that the set-up builds get their meaning as stages over
  one state, the shared registry, device manager and transmitters with the sources, files
  and output.  A pipeline runs in its own goroutine; what is stated here holds for each
  packet it handles, from any state that the other goroutines may have left.
\<close>

section \<open>The shared state\<close>

record world =
  w_now :: int
  w_registry :: registry
  w_dm :: dm_state
  w_sources :: "pcap_source list"
  w_events :: "source_event list list"     \<comment> \<open>what will happen to each source\<close>
  w_tx :: "transmitter list"
  w_bus :: bus
  w_files :: "(string \<times> capture_info \<times> byte list) list"
  w_out :: "string list"

text \<open>
  What answers the program: gopacket, and the operating system, whose answers may depend
  on how often it was asked.  The last two are the orders in which maps are ranged over.
\<close>

record io_env =
  io_lib :: gopacket_lib
  io_goos :: string
  io_println :: "string \<Rightarrow> nat \<Rightarrow> go_error option"
  io_refused :: "nat \<Rightarrow> nat \<Rightarrow> packet \<Rightarrow> bool"
  io_write_file :: "string \<Rightarrow> nat \<Rightarrow> go_error option"
  io_close_file :: "string \<Rightarrow> go_error option"
  io_client_order :: "registry \<Rightarrow> string list"
  io_bus_order :: "bus \<Rightarrow> string list"

section \<open>Processors\<close>

definition println :: "io_env \<Rightarrow> string \<Rightarrow> world \<Rightarrow> go_error option \<times> world" where
  "println env line w = (case io_println env line (length (w_out w)) of
       Some err \<Rightarrow> (Some err, w)
     | None \<Rightarrow> (None, w\<lparr>w_out := w_out w @ [line]\<rparr>))"

definition learner_as_processor :: "learner \<Rightarrow> world processor" where
  "learner_as_processor l =
     \<lparr>pr_Process = (\<lambda>p w.
        case LearnerProcess (w_now w) (Some l) (Some (w_registry w)) (Some p) of
          ((keep, err), r) \<Rightarrow> Inr (keep, err, p, w\<lparr>w_registry := the r\<rparr>)),
      pr_Name = LearnerName l\<rparr>"

fun processor_of :: "io_env \<Rightarrow> processor_value \<Rightarrow> world processor" where
  "processor_of env (PFilter iname) = filter_processor iname"
| "processor_of env (PDecode d) = decode_as_processor (io_lib env) (println env) d"
| "processor_of env (PLearner l) = learner_as_processor l"
| "processor_of env (PTransform ip) = transform_processor (io_lib env) ip"

section \<open>Sinks\<close>

definition write_file :: "io_env \<Rightarrow> string \<Rightarrow> capture_info \<Rightarrow> byte list \<Rightarrow> world \<Rightarrow>
    go_error option \<times> world" where
  "write_file env path ci raw w = (case io_write_file env path (length (w_files w)) of
       Some err \<Rightarrow> (Some err, w)
     | None \<Rightarrow> (None, w\<lparr>w_files := w_files w @ [(path, ci, raw)]\<rparr>))"

definition pcap_as_sink :: "io_env \<Rightarrow> pcap_file_sink \<Rightarrow> world sink" where
  "pcap_as_sink env f =
     \<lparr>sk_Write = (\<lambda>p. PcapFileWrite (write_file env (the (ps_File f))) f (Some p)),
      sk_Close = PcapFileClose (\<lambda>w. (io_close_file env (the (ps_File f)), w)) f,
      sk_Name = PcapFileName f\<rparr>"

definition forwarding_as_sink :: "io_env \<Rightarrow> forwarding_sink \<Rightarrow> world sink" where
  "forwarding_as_sink env f =
     \<lparr>sk_Write = (\<lambda>p w. bind_panic (ForwardingWrite (Publish (io_bus_order env (w_bus w))) f (Some p) (w_bus w))
        (\<lambda>(err, b). Inr (err, w\<lparr>w_bus := b\<rparr>))),
      sk_Close = (\<lambda>w. (ForwardingClose f, w)),
      sk_Name = ForwardingName f\<rparr>"

fun leaf_of :: "io_env \<Rightarrow> sink_value \<Rightarrow> world sink" where
  "leaf_of env (SPcapFile f) = pcap_as_sink env f"
| "leaf_of env (STransmitter k iname) =
     transmitter_as_sink (\<lambda>p w. io_refused env k (length (tx_sent (w_tx w ! k))) p)
       (\<lambda>w. w_tx w ! k) (\<lambda>t w. w\<lparr>w_tx := (w_tx w)[k := t]\<rparr>) iname"
| "leaf_of env (SForwarding f) = forwarding_as_sink env f"

definition route_of :: "io_env \<Rightarrow> route_value \<Rightarrow> world route_sink" where
  "route_of env r =
     \<lparr>rs_Iname = rv_Iname r, rs_Broadcast = rv_Broadcast r,
      rs_BroadcastAddress = rv_BroadcastAddress r, rs_HardwareAddr = rv_HardwareAddr r,
      rs_Registry = Some w_registry, rs_LinkType = rv_LinkType r,
      rs_Processors = map (processor_of env) (rv_Processors r),
      rs_Sinks = map (leaf_of env) (rv_Sinks r)\<rparr>"

fun sink_of :: "io_env \<Rightarrow> pipeline_sink \<Rightarrow> world sink" where
  "sink_of env (Leaf l) = leaf_of env l"
| "sink_of env (Route r) =
     route_as_sink (io_lib env) (\<lambda>w. io_client_order env (w_registry w)) (route_of env r)"

section \<open>Sources and pipelines\<close>

definition source_of :: "io_env \<Rightarrow> nat \<Rightarrow> string \<Rightarrow> world source" where
  "source_of env i iname =
     \<lparr>sr_Read = (\<lambda>w. Option.bind
        (Read (io_goos env) (gl_link_type_string (io_lib env)) (w_events w ! i) (w_sources w ! i, w_dm w))
        (\<lambda>(pkt, err, (src, dm), rest). Some (pkt, err,
           w\<lparr>w_sources := (w_sources w)[i := src], w_dm := dm, w_events := (w_events w)[i := rest]\<rparr>))),
      sr_Close = (\<lambda>w. case PcapSourceClose (w_sources w ! i, w_dm w) of
        (err, src, dm) \<Rightarrow> (err, w\<lparr>w_sources := (w_sources w)[i := src], w_dm := dm\<rparr>)),
      sr_Name = ''PcapSource:'' @ iname\<rparr>"

definition pipeline_of :: "io_env \<Rightarrow> nat \<Rightarrow> pipeline_value \<Rightarrow> world pipeline" where
  "pipeline_of env i pv =
     foldl (\<lambda>p s. AddSink (sink_of env s) p)
       (foldl (\<lambda>p x. AddProcessor (processor_of env x) p)
         (NewPipeline (source_of env i (pv_Source pv))) (pv_Processors pv))
       (pv_Sinks pv)"

lemma pipeline_of_eq:
  "pipeline_of env i pv = \<lparr>pl_Source = source_of env i (pv_Source pv),
     pl_Processors = map (processor_of env) (pv_Processors pv),
     pl_Sinks = map (sink_of env) (pv_Sinks pv)\<rparr>"
proof -
  have p: "foldl (\<lambda>p x. AddProcessor (processor_of env x) p) q xs =
      q\<lparr>pl_Processors := pl_Processors q @ map (processor_of env) xs\<rparr>" for q xs
    by (induction xs arbitrary: q) (simp_all add: AddProcessor_def)
  have s: "foldl (\<lambda>p x. AddSink (sink_of env x) p) q xs =
      q\<lparr>pl_Sinks := pl_Sinks q @ map (sink_of env) xs\<rparr>" for q xs
    by (induction xs arbitrary: q) (simp_all add: AddSink_def)
  show ?thesis by (simp add: pipeline_of_def p s NewPipeline_def)
qed

section \<open>Safety\<close>

text \<open>The invariants of the registry and of every transmitter.\<close>

definition sys_ok :: "world \<Rightarrow> bool" where
  "sys_ok w \<longleftrightarrow> registry_inv (w_registry w) \<and> (\<forall>t\<in>set (w_tx w). tx_inv t)"

text \<open>The bus has no closed channel: a forwarding sink needs that, since a send on one panics.\<close>

definition bus_open :: "world \<Rightarrow> bool" where
  "bus_open w \<longleftrightarrow> (\<forall>c. \<not> ch_closed (pb_chans (w_bus w) c))"

text \<open>
  The same, when the sources, what happens to them and the number of transmitters are given,
  and with \<open>B\<close> that the bus is open.
\<close>

definition sys_at :: "bool \<Rightarrow> source_event list list \<Rightarrow> pcap_source list \<Rightarrow> nat \<Rightarrow> world \<Rightarrow> bool" where
  "sys_at B E S N w \<longleftrightarrow> sys_ok w \<and> w_events w = E \<and> w_sources w = S \<and> length (w_tx w) = N \<and>
     (B \<longrightarrow> bus_open w)"

text \<open>The sinks of a pipeline with those of its routes, in the order in which they are closed.\<close>

definition all_leaves :: "pipeline_sink list \<Rightarrow> sink_value list" where
  "all_leaves ss = concat (map (\<lambda>s. case s of Leaf l \<Rightarrow> [l] | Route r \<Rightarrow> rv_Sinks r) ss)"

lemma all_leaves_simps [simp]:
  "all_leaves [] = []"
  "all_leaves (Leaf l # ss) = l # all_leaves ss"
  "all_leaves (Route r # ss) = rv_Sinks r @ all_leaves ss"
  by (simp_all add: all_leaves_def)

text \<open>Whether some sink of a pipeline publishes on the bus.\<close>

fun publishes :: "sink_value \<Rightarrow> bool" where
  "publishes (SForwarding f) = True"
| "publishes _ = False"

definition forwards :: "pipeline_sink list \<Rightarrow> bool" where
  "forwards ss \<longleftrightarrow> list_ex publishes (all_leaves ss)"

lemma learner_processes:
  "pr_Process (learner_as_processor l) p w =
     Inr (True, None, p, w\<lparr>w_registry := learn (w_now w) (lr_Iname l, p) (w_registry w)\<rparr>)"
  by (simp add: learner_as_processor_def LearnerProcess_def ProcessForInterface_learn)

interpretation learner_stage: safe_processor "learner_as_processor l" decoded "sys_at B E S N" for l B E S N
  by unfold_locales (auto simp: learner_processes sys_at_def sys_ok_def bus_open_def registry_inv_learn)

lemma processor_safe:
  assumes "decodes_typed (io_lib env)"
  shows "safe_processor (processor_of env x) decoded (sys_at B E S N)"
proof (cases x)
  case (PFilter iname)
  show ?thesis
    using filter_stage.process_safe [of _ _ iname]
    unfolding PFilter processor_of.simps safe_processor_def filter_processor_def
    by (fastforce simp: decoded_def FilterProcess_eq)
next
  case (PDecode d)
  show ?thesis
    by (unfold_locales) (auto simp: PDecode decode_as_processor_def DecodeProcess_eq println_def sys_at_def sys_ok_def bus_open_def
        split: option.splits)
next
  case (PLearner l)
  then show ?thesis using learner_stage.safe_processor_axioms by simp
next
  case (PTransform ip)
  show ?thesis
    using TransformProcess_safe [OF assms, of _ ip]
    by unfold_locales (fastforce simp: PTransform transform_processor_def bind_panic_def)
qed

lemma Publish_open:
  assumes "bm_Packet m = Some p" and "\<forall>c. \<not> ch_closed (pb_chans b c)"
  shows "\<exists>b'. Publish ks m b = Inr b' \<and> (\<forall>c. \<not> ch_closed (pb_chans b' c))"
proof -
  have "\<forall>c. \<not> ch_closed (chans c) \<Longrightarrow>
      \<exists>chans'. publish_loop ks m senders chans = Inr chans' \<and> (\<forall>c. \<not> ch_closed (chans' c))" for senders chans
    using assms(1) by (induction ks arbitrary: chans) (auto simp: try_send_def split: option.splits)
  from this [of "pb_chans b" "pb_senders b"] assms(2) show ?thesis by (auto simp: Publish_def)
qed

lemma sys_ok_update:
  assumes "sys_at B E S N w" and "tx_inv (w_tx w ! k) \<Longrightarrow> tx_inv t"
  shows "sys_at B E S N (w\<lparr>w_tx := (w_tx w)[k := t]\<rparr>)"
proof (cases "k < length (w_tx w)")
  case True
  with assms set_update_subset_insert [of "w_tx w" k t] show ?thesis
    by (auto simp: sys_at_def sys_ok_def bus_open_def)
next
  case False
  with assms(1) show ?thesis by (simp add: sys_at_def sys_ok_def bus_open_def list_update_beyond not_less)
qed

lemma leaf_safe:
  assumes "publishes l \<Longrightarrow> B"
  shows "safe_sink (leaf_of env l) decoded (sys_at B E S N)"
proof (cases l)
  case (SPcapFile f)
  show ?thesis
    by unfold_locales (simp_all add: SPcapFile pcap_as_sink_def PcapFileWrite_def PcapFileClose_def
        write_file_def sys_at_def sys_ok_def bus_open_def split: option.splits)
next
  case (STransmitter k iname)
  show ?thesis
    by unfold_locales (simp_all add: STransmitter transmitter_as_sink_def split_beta sys_ok_update
        tx_inv_write tx_inv_close)
next
  case (SForwarding f)
  show ?thesis
  proof unfold_locales
    fix p w
    assume w: "sys_at B E S N w"
    let ?m = "\<lparr>bm_Packet = Some p, bm_LinkType = fs_LinkType f\<rparr>"
    from w assms have "\<forall>c. \<not> ch_closed (pb_chans (w_bus w) c)"
      by (simp add: SForwarding sys_at_def bus_open_def)
    from Publish_open [of ?m p, OF _ this] obtain b where
      "Publish (io_bus_order env (w_bus w)) ?m (w_bus w) = Inr b" "\<forall>c. \<not> ch_closed (pb_chans b c)" by auto
    with w show "\<exists>err w'. sk_Write (leaf_of env l) p w = Inr (err, w') \<and> sys_at B E S N w'"
      by (simp add: SForwarding forwarding_as_sink_def ForwardingWrite_def sys_at_def sys_ok_def bus_open_def)
  qed (simp add: SForwarding forwarding_as_sink_def sys_at_def sys_ok_def)
qed

lemma sink_safe:
  assumes "decodes_typed (io_lib env)" and "forwards [s] \<Longrightarrow> B"
  shows "safe_sink (sink_of env s) decoded (sys_at B E S N)"
proof (cases s)
  case (Leaf l)
  with assms(2) show ?thesis by (simp add: leaf_safe forwards_def)
next
  case (Route r)
  with assms(2) have "publishes l \<Longrightarrow> l \<in> set (rv_Sinks r) \<Longrightarrow> B" for l
    by (auto simp: forwards_def list_ex_iff)
  then have "safe_sink (route_as_sink (io_lib env) (\<lambda>w. io_client_order env (w_registry w)) (route_of env r))
      decoded (sys_at B E S N)"
    using assms(1) by (intro route_safe_sink) (auto simp: route_of_def processor_safe leaf_safe)
  with Route show ?thesis by simp
qed

lemma forwards_member: "s \<in> set ss \<Longrightarrow> forwards [s] \<Longrightarrow> forwards ss"
  by (auto simp: forwards_def all_leaves_def list_ex_iff)

lemma pipeline_safe:
  assumes "decodes_typed (io_lib env)" and "decoded p" and "sys_at B E S N w"
    and "forwards (pv_Sinks pv) \<Longrightarrow> B"
  shows "\<exists>w'. handle_packet (pipeline_of env i pv) p w = Inr w' \<and> sys_at B E S N w'"
proof -
  have "safe_sink (sink_of env s) decoded (sys_at B E S N)" if "s \<in> set (pv_Sinks pv)" for s
    using assms(4) forwards_member [OF that] by (intro sink_safe [OF assms(1)]) simp
  with assms(2,3) show ?thesis
    by (intro handle_packet_safe [where good = decoded])
      (auto simp: pipeline_of_eq processor_safe [OF assms(1)])
qed

section \<open>What a packet does to the transmitters\<close>

text \<open>
  \<open>sends P w w'\<close>: from \<open>w\<close> to \<open>w'\<close> the transmitters only sent frames that \<open>P\<close> allows, after
  what they had sent before, one that \<open>P\<close> allows nothing is as it was, and the registry did
  not change.
\<close>

definition sends :: "(nat \<Rightarrow> byte list \<Rightarrow> bool) \<Rightarrow> world \<Rightarrow> world \<Rightarrow> bool" where
  "sends P w w' \<longleftrightarrow> length (w_tx w') = length (w_tx w) \<and> w_registry w' = w_registry w \<and>
     (\<forall>k<length (w_tx w). \<exists>new. tx_sent (w_tx w' ! k) = tx_sent (w_tx w ! k) @ new \<and>
        (\<forall>x\<in>set new. P k (snd x))) \<and>
     (\<forall>k<length (w_tx w). (\<forall>raw. \<not> P k raw) \<longrightarrow> w_tx w' ! k = w_tx w ! k)"

lemma sends_refl [simp]: "sends P w w"
  by (simp add: sends_def)

lemma sends_trans:
  assumes "sends P w w1" and "sends P w1 w2"
  shows "sends P w w2"
proof -
  have "\<exists>new. tx_sent (w_tx w2 ! k) = tx_sent (w_tx w ! k) @ new \<and> (\<forall>x\<in>set new. P k (snd x))"
    if k: "k < length (w_tx w)" for k
  proof -
    from assms(1) k obtain n1 where "tx_sent (w_tx w1 ! k) = tx_sent (w_tx w ! k) @ n1"
      "\<forall>x\<in>set n1. P k (snd x)" unfolding sends_def by blast
    moreover from assms k obtain n2 where "tx_sent (w_tx w2 ! k) = tx_sent (w_tx w1 ! k) @ n2"
      "\<forall>x\<in>set n2. P k (snd x)" unfolding sends_def by metis
    ultimately show ?thesis by (intro exI [of _ "n1 @ n2"]) auto
  qed
  with assms show ?thesis by (simp add: sends_def)
qed

lemma sends_mono: "sends P w w' \<Longrightarrow> (\<And>k raw. P k raw \<Longrightarrow> Q k raw) \<Longrightarrow> sends Q w w'"
  unfolding sends_def by blast

lemma sends_frame: "w_tx w' = w_tx w \<Longrightarrow> w_registry w' = w_registry w \<Longrightarrow> sends P w w'"
  by (simp add: sends_def)

lemma TransmitterWrite_sent:
  "\<exists>new. tx_sent (snd (TransmitterWrite failed (Some p) s)) = tx_sent s @ new \<and> (\<forall>x\<in>set new. snd x = pk_Raw p)"
  by (auto simp: tx_ops split: option.splits)

lemma leaf_sends:
  assumes "sk_Write (leaf_of env l) q w = Inr (err, w')"
  shows "sends (\<lambda>k raw. raw = pk_Raw q \<and> (\<exists>iname. l = STransmitter k iname)) w w'"
proof (cases l)
  case (SPcapFile f)
  with assms show ?thesis
    by (auto simp: pcap_as_sink_def PcapFileWrite_def write_file_def intro!: sends_frame
        split: option.splits if_splits)
next
  case (STransmitter k iname)
  let ?failed = "io_refused env k (length (tx_sent (w_tx w ! k))) q"
  from assms have w': "w' = w\<lparr>w_tx := (w_tx w)[k := snd (TransmitterWrite ?failed (Some q) (w_tx w ! k))]\<rparr>"
    by (simp add: STransmitter transmitter_as_sink_def split_beta)
  show ?thesis
    unfolding sends_def w' STransmitter
  proof (intro conjI allI impI)
    fix j
    assume j: "j < length (w_tx w)"
    show "\<exists>new. tx_sent (w_tx (w\<lparr>w_tx := (w_tx w)[k := snd (TransmitterWrite ?failed (Some q) (w_tx w ! k))]\<rparr>) ! j) =
        tx_sent (w_tx w ! j) @ new \<and>
        (\<forall>x\<in>set new. snd x = pk_Raw q \<and> (\<exists>i. STransmitter k iname = STransmitter j i))"
      using j TransmitterWrite_sent [of ?failed q "w_tx w ! k"] by (cases "j = k") auto
  qed simp_all
next
  case (SForwarding f)
  with assms show ?thesis
    by (auto simp: forwarding_as_sink_def bind_panic_Inr split_beta intro!: sends_frame)
qed

lemma leaves_send:
  "write_all (map (leaf_of env) ls) q w = Inr w' \<Longrightarrow>
     sends (\<lambda>k raw. raw = pk_Raw q \<and> (\<exists>iname. STransmitter k iname \<in> set ls)) w w'"
proof (induction ls arbitrary: w)
  case (Cons l ls)
  then obtain err w1 where l: "sk_Write (leaf_of env l) q w = Inr (err, w1)"
    and ls: "write_all (map (leaf_of env) ls) q w1 = Inr w'" by (auto simp: bind_panic_Inr)
  from sends_mono [OF leaf_sends [OF l], of "\<lambda>k raw. raw = pk_Raw q \<and> (\<exists>iname. STransmitter k iname \<in> set (l # ls))"]
    sends_mono [OF Cons.IH [OF ls], of "\<lambda>k raw. raw = pk_Raw q \<and> (\<exists>iname. STransmitter k iname \<in> set (l # ls))"]
  show ?case by (auto intro: sends_trans)
qed simp

text \<open>Processors that only look at the packet.\<close>

fun observes :: "processor_value \<Rightarrow> bool" where
  "observes (PFilter iname) = True"
| "observes (PDecode d) = True"
| "observes _ = False"

lemma observer_process:
  assumes "observes x" and "pr_Process (processor_of env x) q w = Inr (keep, err, q', w')"
  shows "q' = q \<and> w_tx w' = w_tx w \<and> w_registry w' = w_registry w \<and> w_now w' = w_now w"
  using assms
  by (cases x) (auto simp: filter_processor_def decode_as_processor_def DecodeProcess_eq println_def
      bind_panic_Inr split: option.splits if_splits)

lemma observers_process:
  "list_all observes xs \<Longrightarrow> process_all (map (processor_of env) xs) q w = Inr (c, q', w') \<Longrightarrow>
     q' = q \<and> w_tx w' = w_tx w \<and> w_registry w' = w_registry w \<and> w_now w' = w_now w"
proof (induction xs arbitrary: w)
  case (Cons x xs)
  then obtain keep err q1 w1 where
    x: "pr_Process (processor_of env x) q w = Inr (keep, err, q1, w1)"
    by (auto simp: bind_panic_Inr)
  with observer_process [OF _ x] Cons.prems Cons.IH [of w1] show ?case
    by (auto split: if_splits)
qed simp

text \<open>The targets of a route when the registry is \<open>reg\<close>, and the packets for them.\<close>

definition route_targets :: "io_env \<Rightarrow> route_value \<Rightarrow> registry \<Rightarrow> route_target list" where
  "route_targets env r reg = targets_from (route_of env r)
     (GetClientsForInterface (io_client_order env reg) reg (rv_Iname r))"

definition egress :: "io_env \<Rightarrow> route_value \<Rightarrow> packet \<Rightarrow> route_target \<Rightarrow> go_error + packet" where
  "egress env r p t = PacketForEgress (io_lib env) (Some p) (target_options (route_of env r) t)"

lemma route_targets_eq:
  "targetsForPacket (io_client_order env (w_registry w)) (route_of env r) w = route_targets env r (w_registry w)"
proof -
  have "rs_Registry (route_of env r) = Some w_registry" "rs_Iname (route_of env r) = rv_Iname r"
    by (simp_all add: route_of_def)
  then show ?thesis by (simp add: targetsForPacket_from route_targets_def)
qed

lemma target_sends:
  assumes "list_all observes (rv_Processors r)"
    and "writeToTarget (io_lib env) (route_of env r) p t w = Inr w'"
  shows "sends (\<lambda>k raw. (\<exists>q. egress env r p t = Inr q \<and> raw = pk_Raw q) \<and>
    (\<exists>i. STransmitter k i \<in> set (rv_Sinks r))) w w'"
proof (cases "egress env r p t")
  case (Inl e)
  with assms(2) show ?thesis by (simp add: writeToTarget_def egress_def)
next
  case (Inr q)
  with assms(2) obtain c q1 w1 where
    a: "process_all (map (processor_of env) (rv_Processors r)) q w = Inr (c, q1, w1)"
    and b: "w' = w1 \<or> write_all (map (leaf_of env) (rv_Sinks r)) q1 w1 = Inr w'"
    by (auto simp: writeToTarget_def egress_def route_of_def bind_panic_Inr split: if_splits)
  from observers_process [OF assms(1) a] have q1: "q1 = q" and w1: "sends P w w1" for P
    by (auto intro: sends_frame)
  from b show ?thesis
  proof
    assume "w' = w1"
    with w1 show ?thesis by simp
  next
    assume "write_all (map (leaf_of env) (rv_Sinks r)) q1 w1 = Inr w'"
    from leaves_send [OF this] Inr q1
    have "sends (\<lambda>k raw. (\<exists>q. egress env r p t = Inr q \<and> raw = pk_Raw q) \<and>
        (\<exists>i. STransmitter k i \<in> set (rv_Sinks r))) w1 w'"
      by (auto elim: sends_mono)
    with w1 show ?thesis by (rule sends_trans)
  qed
qed

definition frame_of :: "io_env \<Rightarrow> route_value \<Rightarrow> packet \<Rightarrow> route_target set \<Rightarrow> nat \<Rightarrow> byte list \<Rightarrow> bool" where
  "frame_of env r p ts k raw \<longleftrightarrow> (\<exists>t\<in>ts. \<exists>q. egress env r p t = Inr q \<and> raw = pk_Raw q) \<and>
     (\<exists>i. STransmitter k i \<in> set (rv_Sinks r))"

lemma targets_send:
  "list_all observes (rv_Processors r) \<Longrightarrow>
   write_targets (io_lib env) (route_of env r) p ts w = Inr w' \<Longrightarrow>
     sends (frame_of env r p (set ts)) w w'"
proof (induction ts arbitrary: w)
  case (Cons t ts)
  then obtain w1 where t: "writeToTarget (io_lib env) (route_of env r) p t w = Inr w1"
    and ts: "write_targets (io_lib env) (route_of env r) p ts w1 = Inr w'"
    by (auto simp: bind_panic_Inr)
  have "sends (frame_of env r p (set (t # ts))) w w1"
    by (rule sends_mono [OF target_sends [OF Cons.prems(1) t]]) (auto simp: frame_of_def)
  moreover have "sends (frame_of env r p (set (t # ts))) w1 w'"
    by (rule sends_mono [OF Cons.IH [OF Cons.prems(1) ts]]) (auto simp: frame_of_def)
  ultimately show ?case by (rule sends_trans)
qed simp

lemma route_sends:
  assumes "list_all observes (rv_Processors r)"
    and "sk_Write (sink_of env (Route r)) p w = Inr (err, w')"
  shows "sends (frame_of env r p (set (route_targets env r (w_registry w)))) w w'"
proof -
  from assms(2) have "w' = w \<or>
      write_targets (io_lib env) (route_of env r) p (route_targets env r (w_registry w)) w = Inr w'"
    by (auto simp: route_as_sink_def RouteWrite_def route_targets_eq bind_panic_Inr Let_def
        split: if_splits)
  then show ?thesis using targets_send [OF assms(1)] by auto
qed

text \<open>A pipeline's own sinks: files, and routes whose processors only look.\<close>

definition plain_sink :: "pipeline_sink \<Rightarrow> bool" where
  "plain_sink s = (case s of Leaf l \<Rightarrow> (\<exists>f. l = SPcapFile f)
     | Route r \<Rightarrow> list_all observes (rv_Processors r))"

lemma sinks_send:
  "list_all plain_sink ss \<Longrightarrow> write_all (map (sink_of env) ss) p w = Inr w' \<Longrightarrow>
     sends (\<lambda>k raw. \<exists>r. Route r \<in> set ss \<and>
       frame_of env r p (set (route_targets env r (w_registry w))) k raw) w w'"
proof (induction ss arbitrary: w)
  case (Cons s ss)
  let ?P = "\<lambda>k raw. \<exists>r. Route r \<in> set (s # ss) \<and>
    frame_of env r p (set (route_targets env r (w_registry w))) k raw"
  from Cons.prems obtain err w1 where s: "sk_Write (sink_of env s) p w = Inr (err, w1)"
    and ss: "write_all (map (sink_of env) ss) p w1 = Inr w'" by (auto simp: bind_panic_Inr)
  have "sends ?P w w1"
  proof (cases s)
    case (Leaf l)
    with Cons.prems(1) obtain f where "l = SPcapFile f" by (auto simp: plain_sink_def)
    with s Leaf sends_mono [OF leaf_sends [of env l p w err w1], of ?P] show ?thesis by auto
  next
    case (Route r)
    with Cons.prems(1) have "list_all observes (rv_Processors r)" by (simp add: plain_sink_def)
    from sends_mono [OF route_sends [OF this s [unfolded Route]], of ?P] Route show ?thesis by auto
  qed
  moreover from this have reg: "w_registry w1 = w_registry w" by (simp add: sends_def)
  have "sends ?P w1 w'"
    by (rule sends_mono [OF Cons.IH [OF _ ss]]) (use Cons.prems(1) reg in auto)
  ultimately show ?case by (rule sends_trans)
qed simp

end
