(* ===== verification/Running.thy ===== *)
theory Running
  imports System
begin

text \<open>
  The program from its set-up on: the state that \<^verbatim>\<open>main\<close> starts with, the steps of its
  goroutines, and what they guarantee together: no goroutine panics, a packet is repeated on
  the right interfaces and on no other, and a cancelled pipeline closes what it opened.
\<close>

section \<open>The start\<close>

text \<open>There is no packet bus in \<^verbatim>\<open>main\<close>; an empty one stands for it.\<close>

definition no_channel :: "bus_message channel" where
  "no_channel = \<lparr>ch_cap = 0, ch_buf = [], ch_waiting = 0, ch_handed = [], ch_closed = False\<rparr>"

definition start :: "setup_state \<Rightarrow> registry \<Rightarrow> int \<Rightarrow> source_event list list \<Rightarrow> world" where
  "start s reg now events =
     \<lparr>w_now = now, w_registry = reg, w_dm = su_dm s, w_sources = su_sources s, w_events = events,
      w_tx = su_transmitters s, w_bus = NewPacketBus (\<lambda>n. no_channel), w_files = [], w_out = []\<rparr>"

text \<open>
  The steps: a pipeline reads, or handles a packet; the goroutine of \<^verbatim>\<open>main\<close> cleans the
  registry up; a goroutine of a transmitter makes a step; time passes.
\<close>

inductive sys_step :: "io_env \<Rightarrow> pipeline_value list \<Rightarrow> world \<Rightarrow> world \<Rightarrow> bool"
  for env ps where
  reads: "i < length ps \<Longrightarrow> sr_Read (source_of env i (pv_Source (ps ! i))) w = Some (pkt, err, w') \<Longrightarrow>
    sys_step env ps w w'"
| handles: "i < length ps \<Longrightarrow> decoded p \<Longrightarrow> handle_packet (pipeline_of env i (ps ! i)) p w = Inr w' \<Longrightarrow>
    sys_step env ps w w'"
| cleans: "enumerates ks (clients_of (w_registry w)) \<Longrightarrow>
    sys_step env ps w (w\<lparr>w_registry := Cleanup ks (w_now w) (w_registry w)\<rparr>)"
| transmits: "k < length (w_tx w) \<Longrightarrow> tx_step (w_tx w ! k) t \<Longrightarrow>
    sys_step env ps w (w\<lparr>w_tx := (w_tx w)[k := t]\<rparr>)"
| ticks: "w_now w \<le> now \<Longrightarrow> sys_step env ps w (w\<lparr>w_now := now\<rparr>)"

inductive_cases sys_stepE: "sys_step env ps w w'"

lemma source_frame:
  assumes "sr_Read (source_of env i iname) w = Some (pkt, err, w')"
  shows "w_registry w' = w_registry w \<and> w_tx w' = w_tx w \<and> w_now w' = w_now w"
  using assms by (auto simp: source_of_def bind_eq_Some_conv)

lemma sys_at_ok: "sys_ok w \<Longrightarrow> sys_at (bus_open w) (w_events w) (w_sources w) (length (w_tx w)) w"
  by (simp add: sys_at_def)

lemma sys_at_plain: "sys_ok w \<Longrightarrow> sys_at False (w_events w) (w_sources w) (length (w_tx w)) w"
  by (simp add: sys_at_def)

lemma sys_ok_step:
  assumes "decodes_typed (io_lib env)" and "sys_step env ps w w'" and "sys_ok w"
    and "list_all (\<lambda>pv. \<not> forwards (pv_Sinks pv)) ps"
  shows "sys_ok w'"
  using assms(2)
proof (cases rule: sys_step.cases)
  case (reads i pkt err)
  from source_frame [OF reads(2)] assms(3) show ?thesis by (simp add: sys_ok_def)
next
  case (handles i p)
  from assms(4) handles(1) have "\<not> forwards (pv_Sinks (ps ! i))" by (simp add: list_all_length)
  with pipeline_safe [OF assms(1) handles(2) sys_at_plain [OF assms(3)], of "ps ! i" i] handles(3)
  show ?thesis by (auto simp: sys_at_def)
next
  case (cleans ks)
  with assms(3) registry_inv_Cleanup show ?thesis by (simp add: sys_ok_def)
next
  case (transmits k t)
  then have "tx_inv t" using assms(3) tx_step_inv by (auto simp: sys_ok_def)
  with sys_ok_update [OF sys_at_plain [OF assms(3)], of k t] transmits(1) show ?thesis
    by (simp add: sys_at_def)
qed (use assms(3) in \<open>simp add: sys_ok_def\<close>)

lemma sys_ok_reachable:
  "(sys_step env ps)\<^sup>*\<^sup>* w w' \<Longrightarrow> decodes_typed (io_lib env) \<Longrightarrow>
     list_all (\<lambda>pv. \<not> forwards (pv_Sinks pv)) ps \<Longrightarrow> sys_ok w \<Longrightarrow> sys_ok w'"
  by (induction rule: rtranclp_induct) (auto intro: sys_ok_step)

text \<open>The set-up hands over transmitters and a registry that satisfy their invariants.\<close>

lemma run_pairs_transmitters:
  "run_pairs (setupCrossInterfaceSink env cli) ps s = (Inr u, s') \<Longrightarrow>
     \<exists>ts. su_transmitters s' = su_transmitters s @ ts \<and> length ts = length ps \<and> list_all tx_inv ts"
proof (induction ps arbitrary: s)
  case (Cons p ps)
  then obtain s1 where f: "setupCrossInterfaceSink env cli (fst p) (snd p) s = (Inr (), s1)"
    and g: "run_pairs (setupCrossInterfaceSink env cli) ps s1 = (Inr u, s')"
    by (auto simp: bind_setup_Inr)
  from setupCrossInterfaceSink_Inr [OF f] obtain t where
    "su_transmitters s1 = su_transmitters s @ [t]" "tx_inv t" by blast
  moreover from Cons.IH [OF g] obtain ts where
    "su_transmitters s' = su_transmitters s1 @ ts" "length ts = length ps" "list_all tx_inv ts" by blast
  ultimately show ?case by (intro exI [of _ "t # ts"]) simp
qed simp

lemma setup_transmitters:
  assumes "setupPipelines env cli dm timeout ttl = (Inr registries, s)"
  shows "list_all tx_inv (su_transmitters s)"
proof -
  let ?s = "\<lparr>su_dm = dm, su_sources = [], su_pipelines = [], su_transmitters = [], su_files = []\<rparr>"
  from assms obtain L states s1 u where
    i: "setup_interfaces env cli timeout L [] ?s = (Inr states, s1)"
    and c: "attachCrossInterfaceSinks (setupCrossInterfaceSink env cli) states s1 = (Inr u, s)"
    by (auto simp: setupPipelines_def bind_setup_Inr Let_def split: sum.splits)
  from setup_interfaces_Inr [OF i] run_pairs_transmitters [OF c [unfolded attach_pairs]]
  show ?thesis by auto
qed

lemma setup_registry:
  assumes "setupPipelines env cli dm timeout ttl = (Inr registries, s)"
    and "\<And>m. getFixedIPs env cli (fst dm) = Inr m \<Longrightarrow> enumerates (en_fixed_order env m) m"
  shows "\<exists>reg. registries = [reg] \<and> registry_inv reg"
proof -
  from setupPipelines_Inr [OF assms(1)] obtain m where m: "getFixedIPs env cli (fst dm) = Inr m"
    and "buildSharedRegistries env ttl m = Inr registries" by blast
  then obtain reg where "NewRegistryProcessorByInterface ttl m (en_fixed_order env m) = Inr reg"
    and "registries = [reg]" by (auto simp: buildSharedRegistries_def split: sum.splits)
  with registry_inv_New [OF _ assms(2) [OF m]] show ?thesis by blast
qed

lemma start_ok:
  assumes "setupPipelines env cli dm timeout ttl = (Inr [reg], s)"
    and "\<And>m. getFixedIPs env cli (fst dm) = Inr m \<Longrightarrow> enumerates (en_fixed_order env m) m"
  shows "sys_ok (start s reg now events)"
  using setup_transmitters [OF assms(1)] setup_registry [OF assms]
  by (simp add: start_def sys_ok_def list_all_iff)

section \<open>Where a packet goes\<close>

lemma process_all_append:
  "process_all (xs @ ys) p w = bind_panic (process_all xs p w) (\<lambda>(c, p', w').
     if c then process_all ys p' w' else Inr (False, p', w'))"
proof (induction xs arbitrary: p w)
  case (Cons x xs)
  show ?case
    by (cases "pr_Process x p w") (auto simp: Cons.IH bind_panic_def)
qed simp

lemma base_processors_split:
  "\<exists>xs. base_processors cli iname = PFilter iname # xs @ [PLearner \<lparr>lr_Iname = iname\<rparr>] \<and>
     list_all observes xs"
  by (auto simp: base_processors_def)

text \<open>A pipeline's processors let a packet of the interface pass, and learn its sender.\<close>

lemma base_process:
  assumes "process_all (map (processor_of env) (base_processors cli iname)) p w = Inr (c, p', w')"
  shows "p' = p \<and> w_tx w' = w_tx w \<and> (c \<longrightarrow> FilterProcess (Some p) = Inr (True, None) \<and>
    w_registry w' = learn (w_now w) (iname, p) (w_registry w))"
proof -
  obtain xs where xs: "base_processors cli iname = PFilter iname # xs @ [PLearner \<lparr>lr_Iname = iname\<rparr>]"
    "list_all observes xs" using base_processors_split by blast
  obtain keep err p1 w1 where f: "pr_Process (filter_processor iname) p w = Inr (keep, err, p1, w1)"
    using assms by (auto simp: xs bind_panic_Inr)
  then have f': "p1 = p" "w1 = w" "keep \<Longrightarrow> err = None \<Longrightarrow> FilterProcess (Some p) = Inr (True, None)"
    by (auto simp: filter_processor_def FilterProcess_eq bind_panic_Inr split: option.splits if_splits)
  show ?thesis
  proof (cases "keep \<and> err = None")
    case False
    with assms f f' show ?thesis by (auto simp: xs split: if_splits)
  next
    case True
    with assms f f' have r: "process_all (map (processor_of env) xs @ [learner_as_processor \<lparr>lr_Iname = iname\<rparr>]) p w = Inr (c, p', w')"
      by (simp add: xs)
    then obtain c2 p2 w2 where o: "process_all (map (processor_of env) xs) p w = Inr (c2, p2, w2)"
      by (auto simp: process_all_append bind_panic_Inr)
    from observers_process [OF xs(2) o] r o True f'(3) show ?thesis
      by (auto simp: process_all_append learner_processes split: if_splits)
  qed
qed

lemma sinks_plain:
  assumes "setup_parts cli L states ps R s" and "i < length L"
  shows "list_all plain_sink (pv_Sinks (su_pipelines s ! i))"
proof -
  have "plain_sink k" if k: "k \<in> set (pv_Sinks (su_pipelines s ! i))" for k
  proof (cases k)
    case (Leaf l)
    with k have "l \<in> set (leaves_of (su_pipelines s ! i))" by (force simp: leaves_of_def)
    with setup_parts_routes(4) [OF assms] Leaf show ?thesis by (simp add: plain_sink_def)
  next
    case (Route r)
    with k have "r \<in> set (routes_of (su_pipelines s ! i))" by (force simp: routes_of_def)
    from setup_route [OF assms this] Route show ?thesis
      by (auto simp: plain_sink_def route_for_def route_processors_def)
  qed
  then show ?thesis by (simp add: list_all_iff)
qed

lemma routes_of_iff: "r \<in> set (routes_of p) \<longleftrightarrow> Route r \<in> set (pv_Sinks p)"
  by (force simp: routes_of_def split: pipeline_sink.splits)

text \<open>The set-up gives no pipeline a forwarding sink, so no channel of a bus matters to them.\<close>

lemma setup_forwards_none:
  assumes "setup_parts cli L states ps R s" and "i < length L"
  shows "\<not> forwards (pv_Sinks (su_pipelines s ! i))"
proof -
  have "\<not> publishes l" if l: "l \<in> set (all_leaves (pv_Sinks (su_pipelines s ! i)))" for l
  proof -
    from l obtain k where k: "k \<in> set (pv_Sinks (su_pipelines s ! i))"
      "l \<in> set (case k of Leaf l \<Rightarrow> [l] | Route r \<Rightarrow> rv_Sinks r)" by (auto simp: all_leaves_def)
    show ?thesis
    proof (cases k)
      case (Leaf l')
      with k(1) sinks_plain [OF assms] have "plain_sink (Leaf l')" by (simp add: list_all_iff)
      with k(2) Leaf show ?thesis by (auto simp: plain_sink_def)
    next
      case (Route r)
      with k(1) have "r \<in> set (routes_of (su_pipelines s ! i))" by (simp add: routes_of_iff)
      from setup_route [OF assms this] k(2) Route show ?thesis
        by (auto simp: route_for_def elim!: publishes.elims)
    qed
  qed
  then show ?thesis by (auto simp: forwards_def list_ex_iff)
qed

lemma setup_pipelines_forward_none:
  assumes "setupPipelines env cli dm timeout ttl = (Inr registries, s)"
  shows "list_all (\<lambda>pv. \<not> forwards (pv_Sinks pv)) (su_pipelines s)"
proof -
  from setupPipelines_Inr [OF assms] obtain L states ps R where
    parts: "setup_parts cli L states ps R s" by blast
  then have "length (su_pipelines s) = length L" by (simp add: setup_parts_def)
  with setup_forwards_none [OF parts] show ?thesis by (simp add: list_all_length)
qed

lemma pipeline_sends:
  assumes "setup_parts cli L states ps R s" and "n < length L"
    and "handle_packet (pipeline_of env i (su_pipelines s ! n)) p w = Inr w'" and "k < length (w_tx w)"
  shows "\<exists>new. tx_sent (w_tx w' ! k) = tx_sent (w_tx w ! k) @ new \<and> (\<forall>x\<in>set new.
    \<exists>r\<in>set (routes_of (su_pipelines s ! n)). FilterProcess (Some p) = Inr (True, None) \<and>
      frame_of env r p (set (route_targets env r (learn (w_now w) (L ! n, p) (w_registry w)))) k (snd x))"
proof -
  from assms(3) obtain c p1 w1 where
    a: "process_all (map (processor_of env) (base_processors cli (L ! n))) p w = Inr (c, p1, w1)"
    and b: "if c then write_all (map (sink_of env) (pv_Sinks (su_pipelines s ! n))) p1 w1 = Inr w' else w' = w1"
    by (auto simp: handle_packet_def pipeline_of_eq setup_parts_routes(2) [OF assms(1,2)] bind_panic_Inr
        split: if_splits)
  note base = base_process [OF a]
  show ?thesis
  proof (cases c)
    case False
    with b base show ?thesis by simp
  next
    case True
    with b base have "write_all (map (sink_of env) (pv_Sinks (su_pipelines s ! n))) p w1 = Inr w'" by simp
    from sinks_send [OF sinks_plain [OF assms(1,2)] this] assms(4) base True show ?thesis
      unfolding sends_def by (fastforce simp: routes_of_iff)
  qed
qed

section \<open>That it gets there\<close>

text \<open>Output that never fails, and drivers that take every frame.\<close>

definition reliable :: "io_env \<Rightarrow> bool" where
  "reliable io \<longleftrightarrow> (\<forall>line n. io_println io line n = None) \<and> (\<forall>k n p. \<not> io_refused io k n p)"

fun prints :: "processor_value \<Rightarrow> bool" where
  "prints (PDecode d) = True"
| "prints _ = False"

lemma prints_observes: "list_all prints xs \<Longrightarrow> list_all observes xs"
  by (induction xs) (auto elim!: prints.elims)

lemma printers_pass:
  "reliable io \<Longrightarrow> list_all prints xs \<Longrightarrow> \<exists>w'. process_all (map (processor_of io) xs) q w = Inr (True, q, w')"
proof (induction xs arbitrary: w)
  case (Cons x xs)
  then obtain d where x: "x = PDecode d" by (cases x) auto
  obtain w1 where "pr_Process (processor_of io x) q w = Inr (True, None, q, w1)"
    using Cons.prems(1)
    by (cases "pk_Packet q") (auto simp: x decode_as_processor_def DecodeProcess_eq println_def reliable_def)
  with Cons show ?case by simp
qed simp

text \<open>A transmitter with an open handle after it has sent some frames.\<close>

definition sent_more :: "nat \<Rightarrow> byte list list \<Rightarrow> transmitter \<Rightarrow> transmitter" where
  "sent_more h raws t = t\<lparr>tx_sent := tx_sent t @ map (Pair h) raws\<rparr>"

lemma sent_more_simps [simp]:
  "sent_more h [] t = t" "sent_more h ys (sent_more h xs t) = sent_more h (xs @ ys) t"
  "tx_Writer (sent_more h xs t) = tx_Writer t"
  by (simp_all add: sent_more_def)

lemma transmitter_delivers:
  assumes "reliable io" and "tx_Writer (w_tx w ! k) = Some h"
  shows "sk_Write (leaf_of io (STransmitter k n)) q w =
    Inr (None, w\<lparr>w_tx := (w_tx w)[k := sent_more h [pk_Raw q] (w_tx w ! k)]\<rparr>)"
  using assms by (simp add: transmitter_as_sink_def TransmitterWrite_def reliable_def sent_more_def Let_def)

definition frames :: "io_env \<Rightarrow> route_value \<Rightarrow> packet \<Rightarrow> route_target list \<Rightarrow> byte list list" where
  "frames io r p ts = concat (map (\<lambda>t. case egress io r p t of Inl e \<Rightarrow> [] | Inr q \<Rightarrow> [pk_Raw q]) ts)"

text \<open>A route that prints, writes files and ends in transmitter \<open>k\<close>, open as \<open>h\<close>.\<close>

definition ends_in :: "route_value \<Rightarrow> nat \<Rightarrow> bool" where
  "ends_in r k \<longleftrightarrow> list_all prints (rv_Processors r) \<and>
     (\<exists>files n. rv_Sinks r = files @ [STransmitter k n] \<and> (\<forall>x\<in>set files. \<exists>f. x = SPcapFile f))"

lemma write_all_append: "write_all (xs @ ys) q w = bind_panic (write_all xs q w) (write_all ys q)"
  by (induction xs arbitrary: w) (auto simp: bind_panic_def split: sum.splits)

lemma target_delivers:
  assumes "reliable io" and "ends_in r k" and "k < length (w_tx w)" and "tx_Writer (w_tx w ! k) = Some h"
    and "writeToTarget (io_lib io) (route_of io r) p t w = Inr w'"
  shows "w_tx w' ! k = sent_more h (frames io r p [t]) (w_tx w ! k) \<and> length (w_tx w') = length (w_tx w)"
proof (cases "egress io r p t")
  case (Inl e)
  with assms(5) show ?thesis by (simp add: writeToTarget_def egress_def frames_def)
next
  case (Inr q)
  from assms(2) obtain files n where pr: "list_all prints (rv_Processors r)"
    and s: "rv_Sinks r = files @ [STransmitter k n]" "\<forall>x\<in>set files. \<exists>f. x = SPcapFile f"
    by (auto simp: ends_in_def)
  from printers_pass [OF assms(1) pr] obtain w1 where
    w1: "process_all (map (processor_of io) (rv_Processors r)) q w = Inr (True, q, w1)" by blast
  from observers_process [OF prints_observes [OF pr] w1] have tx1: "w_tx w1 = w_tx w" by simp
  from assms(5) Inr w1 have "write_all (map (leaf_of io) (rv_Sinks r)) q w1 = Inr w'"
    by (simp add: writeToTarget_def egress_def route_of_def)
  then obtain w2 where w2: "write_all (map (leaf_of io) files) q w1 = Inr w2"
    and "write_all [leaf_of io (STransmitter k n)] q w2 = Inr w'"
    by (auto simp: s write_all_append bind_panic_Inr)
  moreover have "w_tx w2 ! k = w_tx w1 ! k \<and> length (w_tx w2) = length (w_tx w1)"
    using leaves_send [OF w2] s(2) assms(3) tx1 unfolding sends_def by auto
  ultimately show ?thesis
    using transmitter_delivers [OF assms(1), of w2 k h n q] assms(3,4) tx1 Inr
    by (auto simp: frames_def simp del: leaf_of.simps)
qed

lemma targets_deliver:
  assumes "reliable io" and "ends_in r k"
  shows "k < length (w_tx w) \<Longrightarrow> tx_Writer (w_tx w ! k) = Some h \<Longrightarrow>
    write_targets (io_lib io) (route_of io r) p ts w = Inr w' \<Longrightarrow>
      w_tx w' ! k = sent_more h (frames io r p ts) (w_tx w ! k)"
proof (induction ts arbitrary: w)
  case (Cons t ts)
  then obtain w1 where t: "writeToTarget (io_lib io) (route_of io r) p t w = Inr w1"
    and ts: "write_targets (io_lib io) (route_of io r) p ts w1 = Inr w'"
    by (auto simp: bind_panic_Inr)
  from target_delivers [OF assms Cons.prems(1,2) t] Cons.IH [OF _ _ ts] Cons.prems(1,2)
  show ?case by (simp add: frames_def)
qed (simp add: frames_def)

lemma route_delivers:
  assumes "reliable io" and "ends_in r k" and "k < length (w_tx w)" and "tx_Writer (w_tx w ! k) = Some h"
    and "sk_Write (sink_of io (Route r)) p w = Inr (err, w')"
  shows "w_tx w' ! k = sent_more h (frames io r p (route_targets io r (w_registry w))) (w_tx w ! k)"
proof -
  from assms(5) have "route_targets io r (w_registry w) = [] \<and> w' = w \<or>
      write_targets (io_lib io) (route_of io r) p (route_targets io r (w_registry w)) w = Inr w'"
    by (auto simp: route_as_sink_def RouteWrite_def route_targets_eq bind_panic_Inr Let_def
        split: if_splits)
  with targets_deliver [OF assms(1-4)] show ?thesis by (auto simp: frames_def)
qed

text \<open>The other sinks of the pipeline leave the transmitter alone.\<close>

lemma others_leave_alone:
  assumes "list_all plain_sink ss" and "write_all (map (sink_of io) ss) p w = Inr w'"
    and "k < length (w_tx w)"
    and "\<And>r n. Route r \<in> set ss \<Longrightarrow> STransmitter k n \<notin> set (rv_Sinks r)"
  shows "w_tx w' ! k = w_tx w ! k \<and> length (w_tx w') = length (w_tx w) \<and> w_registry w' = w_registry w"
proof -
  have none: "\<forall>raw. \<not> (\<exists>r. Route r \<in> set ss \<and>
      frame_of io r p (set (route_targets io r (w_registry w))) k raw)"
    using assms(4) unfolding frame_of_def by blast
  from sinks_send [OF assms(1,2)] show ?thesis
    unfolding sends_def using assms(3) none by blast
qed

lemma sinks_deliver:
  assumes "reliable io" and "ends_in r k" and "k < length (w_tx w)" and "tx_Writer (w_tx w ! k) = Some h"
    and "list_all plain_sink (xs @ Route r # ys)"
    and "write_all (map (sink_of io) (xs @ Route r # ys)) p w = Inr w'"
    and "\<And>r' n. Route r' \<in> set (xs @ ys) \<Longrightarrow> STransmitter k n \<notin> set (rv_Sinks r')"
  shows "w_tx w' ! k = sent_more h (frames io r p (route_targets io r (w_registry w))) (w_tx w ! k)"
proof -
  from assms(6) obtain w1 err w2 where x: "write_all (map (sink_of io) xs) p w = Inr w1"
    and r: "sk_Write (sink_of io (Route r)) p w1 = Inr (err, w2)"
    and y: "write_all (map (sink_of io) ys) p w2 = Inr w'"
    by (auto simp: write_all_append bind_panic_Inr simp del: sink_of.simps)
  have p: "list_all plain_sink xs" "list_all plain_sink ys" "list_all observes (rv_Processors r)"
    using assms(5) by (simp_all add: plain_sink_def)
  note 1 = others_leave_alone [OF p(1) x assms(3)]
  from route_sends [OF p(3) r] have len: "length (w_tx w2) = length (w_tx w1)" by (simp add: sends_def)
  from 1 assms(3,4,7) have w1: "w_tx w1 ! k = w_tx w ! k" "k < length (w_tx w1)" "w_registry w1 = w_registry w"
    by auto
  note 2 = route_delivers [OF assms(1,2) w1(2) _ r, of h]
  have "w_tx w' ! k = w_tx w2 ! k"
    using others_leave_alone [OF p(2) y, of k] len w1(2) assms(7) by auto
  with 2 w1 assms(4) show ?thesis by simp
qed

lemma base_passes:
  assumes "reliable io" and "FilterProcess (Some p) = Inr (True, None)"
  shows "\<exists>w'. process_all (map (processor_of io) (base_processors cli iname)) p w = Inr (True, p, w')"
proof -
  have "\<exists>w'. process_all (map (processor_of io) xs @ [learner_as_processor l]) p w = Inr (True, p, w')"
    if pr: "list_all prints xs" for xs l
  proof -
    from printers_pass [OF assms(1) pr] obtain w1 where
      "process_all (map (processor_of io) xs) p w = Inr (True, p, w1)" by blast
    then show ?thesis by (simp add: process_all_append learner_processes)
  qed
  from this [of "if c_Decode cli then [PDecode (NewDecodeProcessor iname DirectionInbound)] else []"]
  show ?thesis using assms(2)
    by (auto simp: base_processors_def filter_processor_def split: if_splits)
qed

text \<open>A route that was set up ends in a transmitter that no other sink of its pipeline has.\<close>

lemma own_transmitter:
  assumes "setup_parts cli L states ps R s" and "n < length L"
    and "r \<in> set (routes_of (su_pipelines s ! n))" and "STransmitter k (rv_Iname r) \<in> set (rv_Sinks r)"
  shows "ends_in r k"
    and "pv_Sinks (su_pipelines s ! n) = xs @ Route r # ys \<Longrightarrow> Route r' \<in> set (xs @ ys) \<Longrightarrow>
      STransmitter k m \<notin> set (rv_Sinks r')"
proof -
  from setup_route [OF assms(1-3)] obtain dst k' where rf: "route_for cli dst k' r"
    and ex: "\<forall>r'\<in>set (routes_of (su_pipelines s ! n)). \<forall>m. STransmitter k' m \<in> set (rv_Sinks r') \<longrightarrow> r' = r"
    using assms(2) by blast
  from rf assms(4) have k: "k' = k" and "ends_in r k"
    by (auto simp: route_for_def ends_in_def route_processors_def)
  then show "ends_in r k" by simp
  assume sinks: "pv_Sinks (su_pipelines s ! n) = xs @ Route r # ys" and r': "Route r' \<in> set (xs @ ys)"
  show "STransmitter k m \<notin> set (rv_Sinks r')"
  proof
    assume "STransmitter k m \<in> set (rv_Sinks r')"
    moreover have "r' \<in> set (routes_of (su_pipelines s ! n))" using r' by (auto simp: routes_of_iff sinks)
    ultimately have "r' = r" using ex k by blast
    with setup_routes_distinct [OF assms(1,2)] r' show False
      by (auto simp: routes_of_def sinks dest!: split_list)
  qed
qed

section \<open>An example\<close>

text \<open>The two Ethernet interfaces of theory \<open>Setup\<close>, with drivers that accept everything.\<close>

definition lab_io :: io_env where
  "lab_io = \<lparr>io_lib = toy_lib, io_goos = ''linux'', io_println = (\<lambda>line n. None),
     io_refused = (\<lambda>k n p. False), io_write_file = (\<lambda>path n. None), io_close_file = (\<lambda>path. None),
     io_client_order = (\<lambda>reg. []), io_bus_order = (\<lambda>b. [])\<rparr>"

definition lab_registry :: registry where
  "lab_registry = \<lparr>rg_clients = Some Map.empty, rg_TTL = 60000000000\<rparr>"

definition lab_route :: "string \<Rightarrow> byte \<Rightarrow> nat \<Rightarrow> route_value" where
  "lab_route iname n k = \<lparr>rv_Iname = iname, rv_Broadcast = True, rv_BroadcastAddress = [10, 0, n, 255],
     rv_HardwareAddr = [2, 0, 0, 0, 0, 7], rv_LinkType = LinkTypeEthernet, rv_Processors = [],
     rv_Sinks = [STransmitter k iname]\<rparr>"

definition lab_transmitter :: "string \<Rightarrow> nat \<Rightarrow> transmitter" where
  "lab_transmitter iname h = \<lparr>tx_Iname = iname, tx_Writer = Some h, tx_reconnecting = False,
     tx_ctx = True, tx_cancelled = False, tx_createWriter = True, tx_loops = [], tx_closers = [],
     tx_opened = [h], tx_closed = [], tx_sent = [], tx_done = False\<rparr>"

lemma lab_result:
  "fst lab_setup = Inr [lab_registry]"
  "su_pipelines (snd lab_setup) =
     [\<lparr>pv_Source = ''eth0'', pv_Processors = [PFilter ''eth0'', PLearner \<lparr>lr_Iname = ''eth0''\<rparr>],
       pv_Sinks = [Route (lab_route ''eth1'' 1 0)]\<rparr>,
      \<lparr>pv_Source = ''eth1'', pv_Processors = [PFilter ''eth1'', PLearner \<lparr>lr_Iname = ''eth1''\<rparr>],
       pv_Sinks = [Route (lab_route ''eth0'' 0 1)]\<rparr>]"
  "su_transmitters (snd lab_setup) = [lab_transmitter ''eth1'' 4, lab_transmitter ''eth0'' 3]"
  by (simp_all add: lab_run lab_registry_def lab_route_def lab_transmitter_def)

lemma lab_setup_eq: "setupPipelines lab_env lab_cli (lab_dm, no_pcap) 250000000 60000000000 =
    (Inr [lab_registry], snd lab_setup)"
  using lab_result(1) by (metis lab_setup_def prod.collapse)

lemma lab_fixed: "getFixedIPs lab_env lab_cli (fst (lab_dm, no_pcap)) = Inr m \<Longrightarrow>
    enumerates (en_fixed_order lab_env m) m"
  by (auto simp: getFixedIPs_def lab_cli_def lab_env_def)

lemma lab_typed: "decodes_typed (io_lib lab_io)"
  by (simp add: lab_io_def decodes_typed_def toy_lib_def typed_layers_def example_gopacket_def)

lemma example_decoded: "decoded (example_packet i src)"
  by (simp add: decoded_def example_packet_def example_gopacket_def typed_layers_def)

definition lab_world :: world where
  "lab_world = start (snd lab_setup) lab_registry 7 []"

section \<open>Properties\<close>

text \<open>
  C3. Nothing that happens makes a goroutine panic: from the state that the set-up builds,
  whatever the pipelines read and handle, however the registry is cleaned up and the
  transmitters reconnect in between, every pipeline handles every packet that gopacket
  decoded without a panic, and the registry and the transmitters keep their invariants.
\<close>

theorem running_never_panics:
  assumes "setupPipelines env cli dm timeout ttl = (Inr [reg], s)"
    and "\<And>m. getFixedIPs env cli (fst dm) = Inr m \<Longrightarrow> enumerates (en_fixed_order env m) m"
    and "decodes_typed (io_lib io)"
    and "(sys_step io (su_pipelines s))\<^sup>*\<^sup>* (start s reg now events) w"
    and "i < length (su_pipelines s)" and "decoded p"
  shows "\<exists>w'. handle_packet (pipeline_of io i (su_pipelines s ! i)) p w = Inr w' \<and>
    registry_inv (w_registry w') \<and> (\<forall>t\<in>set (w_tx w'). tx_inv t)"
proof -
  note quiet = setup_pipelines_forward_none [OF assms(1)]
  from sys_ok_reachable [OF assms(4,3) quiet start_ok [OF assms(1,2)]] have "sys_ok w" .
  from pipeline_safe [OF assms(3,6) sys_at_plain [OF this], of "su_pipelines s ! i" i] quiet assms(5)
  show ?thesis by (auto simp: sys_at_def sys_ok_def list_all_length)
qed

theorem running_never_panics_witness:
  "\<exists>w'. handle_packet (pipeline_of lab_io 1 (su_pipelines (snd lab_setup) ! 1))
      (example_packet ''eth1'' [10, 0, 1, 5]) lab_world = Inr w'"
  using running_never_panics [where env = lab_env and cli = lab_cli and dm = "(lab_dm, no_pcap)"
      and io = lab_io and now = 7 and events = "[]" and i = 1,
      OF lab_setup_eq lab_fixed lab_typed rtranclp.rtrancl_refl _ example_decoded]
  by (simp add: lab_world_def lab_result) blast

text \<open>
  C2. Nothing is reflected and nothing leaks to another interface: handling a packet makes
  a transmitter send only when a route of the packet's own pipeline ends in it, which is a
  route to another interface; the packet was UDP over IPv4, and each frame is the rewriting
  of this packet for a target that the route has once the sender has been learned.
\<close>

theorem no_reflection:
  assumes "setupPipelines env cli dm timeout ttl = (Inr registries, s)" and "n < length (su_pipelines s)"
    and "handle_packet (pipeline_of io i (su_pipelines s ! n)) p w = Inr w'" and "k < length (w_tx w)"
  shows "\<exists>new. tx_sent (w_tx w' ! k) = tx_sent (w_tx w ! k) @ new \<and> (\<forall>x\<in>set new.
    \<exists>r\<in>set (routes_of (su_pipelines s ! n)). STransmitter k (rv_Iname r) \<in> set (rv_Sinks r) \<and>
      rv_Iname r \<noteq> pv_Source (su_pipelines s ! n) \<and> FilterProcess (Some p) = Inr (True, None) \<and>
      (\<exists>t\<in>set (route_targets io r (learn (w_now w) (pv_Source (su_pipelines s ! n), p) (w_registry w))).
         \<exists>q. PacketForEgress (io_lib io) (Some p) (target_options (route_of io r) t) = Inr q \<and>
           snd x = pk_Raw q))"
proof -
  from setupPipelines_Inr [OF assms(1)] obtain L states ps R where
    parts: "setup_parts cli L states ps R s" by blast
  with assms(2) have n: "n < length L" by (simp add: setup_parts_def)
  note src = setup_parts_routes(1) [OF parts n]
  have r: "rv_Iname r \<noteq> L ! n \<and> (\<forall>j. STransmitter k j \<in> set (rv_Sinks r) \<longrightarrow> j = rv_Iname r)"
    if "r \<in> set (routes_of (su_pipelines s ! n))" for r
  proof -
    from that have "rv_Iname r \<in> set (map rv_Iname (routes_of (su_pipelines s ! n)))" by simp
    with mesh_names [OF parts n] have "rv_Iname r \<noteq> L ! n" by auto
    with setup_route [OF parts n that] show ?thesis by (auto simp: route_for_def)
  qed
  from pipeline_sends [OF parts n assms(3,4)] show ?thesis
    unfolding src frame_of_def egress_def using r by (elim ex_forward) blast
qed


lemma lab_handles: "\<exists>w'. handle_packet (pipeline_of lab_io 0 (su_pipelines (snd lab_setup) ! 0))
    (example_packet ''eth0'' [10, 0, 0, 5]) lab_world = Inr w'"
proof -
  have "sys_ok lab_world" unfolding lab_world_def by (rule start_ok [OF lab_setup_eq lab_fixed])
  moreover have "\<not> forwards (pv_Sinks (su_pipelines (snd lab_setup) ! 0))"
    using setup_pipelines_forward_none [OF lab_setup_eq] by (simp add: lab_result)
  ultimately show ?thesis
    using pipeline_safe [OF lab_typed example_decoded sys_at_plain] by blast
qed

theorem no_reflection_witness:
  "\<exists>w'. handle_packet (pipeline_of lab_io 0 (su_pipelines (snd lab_setup) ! 0))
      (example_packet ''eth0'' [10, 0, 0, 5]) lab_world = Inr w' \<and> tx_sent (w_tx w' ! 1) = []"
proof -
  obtain w' where w': "handle_packet (pipeline_of lab_io 0 (su_pipelines (snd lab_setup) ! 0))
      (example_packet ''eth0'' [10, 0, 0, 5]) lab_world = Inr w'" using lab_handles by blast
  have "1 < length (w_tx lab_world)" "0 < length (su_pipelines (snd lab_setup))"
    and tx: "tx_sent (w_tx lab_world ! 1) = []"
    by (simp_all add: lab_world_def start_def lab_result lab_transmitter_def)
  from no_reflection [OF lab_setup_eq this(2) w' this(1)] obtain new where
    new: "tx_sent (w_tx w' ! 1) = new"
    and r: "\<forall>x\<in>set new. \<exists>r\<in>set (routes_of (su_pipelines (snd lab_setup) ! 0)).
      STransmitter 1 (rv_Iname r) \<in> set (rv_Sinks r)" unfolding tx by auto
  have "routes_of (su_pipelines (snd lab_setup) ! 0) = [lab_route ''eth1'' 1 0]"
    by (simp add: lab_result routes_of_def)
  with r have "new = []" by (cases new) (auto simp: lab_route_def)
  with w' new show ?thesis by blast
qed

text \<open>
  C1. Delivery: when the output and the drivers accept everything, a UDP packet that a
  pipeline handles is sent on every one of its routes whose transmitter is open: after what
  it had sent before, the transmitter has sent, on its handle and in order, exactly the
  rewriting of the packet for each target of the route for which there is one, the targets
  being those that the registry gives once the sender has been learned.
\<close>

theorem delivers:
  assumes "setupPipelines env cli dm timeout ttl = (Inr registries, s)" and "n < length (su_pipelines s)"
    and "r \<in> set (routes_of (su_pipelines s ! n))" and "STransmitter k (rv_Iname r) \<in> set (rv_Sinks r)"
    and "decodes_typed (io_lib io)" and "decoded p" and "sys_ok w"
    and "FilterProcess (Some p) = Inr (True, None)" and "reliable io"
    and "k < length (w_tx w)" and "tx_Writer (w_tx w ! k) = Some h"
  shows "\<exists>w'. handle_packet (pipeline_of io i (su_pipelines s ! n)) p w = Inr w' \<and>
    tx_Writer (w_tx w' ! k) = Some h \<and>
    tx_sent (w_tx w' ! k) = tx_sent (w_tx w ! k) @ map (Pair h) (concat (map
      (\<lambda>t. case PacketForEgress (io_lib io) (Some p) (target_options (route_of io r) t) of
         Inl e \<Rightarrow> [] | Inr q \<Rightarrow> [pk_Raw q])
      (route_targets io r (learn (w_now w) (pv_Source (su_pipelines s ! n), p) (w_registry w)))))"
proof -
  from setupPipelines_Inr [OF assms(1)] obtain L states ps R where
    parts: "setup_parts cli L states ps R s" by blast
  with assms(2) have n: "n < length L" by (simp add: setup_parts_def)
  note src = setup_parts_routes(1,2) [OF parts n]
  from pipeline_safe [OF assms(5,6) sys_at_plain [OF assms(7)]] setup_forwards_none [OF parts n] obtain w' where
    w': "handle_packet (pipeline_of io i (su_pipelines s ! n)) p w = Inr w'" by blast
  from base_passes [OF assms(9,8)] obtain w1 where
    w1: "process_all (map (processor_of io) (base_processors cli (L ! n))) p w = Inr (True, p, w1)" by blast
  from base_process [OF w1] have b: "w_tx w1 = w_tx w"
    "w_registry w1 = learn (w_now w) (L ! n, p) (w_registry w)" by simp_all
  from assms(3) obtain xs ys where
    sinks: "pv_Sinks (su_pipelines s ! n) = xs @ Route r # ys"
    by (auto simp: routes_of_iff dest: split_list)
  from w' w1 have wr: "write_all (map (sink_of io) (xs @ Route r # ys)) p w1 = Inr w'"
    by (simp add: handle_packet_def pipeline_of_eq src sinks [symmetric])
  note only = own_transmitter [OF parts n assms(3,4)]
  have "w_tx w' ! k = sent_more h (frames io r p (route_targets io r (w_registry w1))) (w_tx w1 ! k)"
    by (rule sinks_deliver [OF assms(9) only(1) _ _ sinks_plain [OF parts n, unfolded sinks] wr only(2) [OF sinks]])
      (use assms(10,11) b in simp_all)
  with w' b assms(11) show ?thesis
    by (simp add: sent_more_def frames_def egress_def src)
qed

theorem delivers_witness:
  "\<exists>w'. handle_packet (pipeline_of lab_io 0 (su_pipelines (snd lab_setup) ! 0))
      (example_packet ''eth0'' [10, 0, 0, 5]) lab_world = Inr w' \<and>
     tx_sent (w_tx w' ! 0) = [(4, [255, 255, 255, 255, 255, 255, 2, 0, 0, 0, 0, 7,
       10, 0, 0, 5, 10, 0, 1, 255, 1, 2, 3, 4])]"
proof -
  have "sys_ok lab_world" unfolding lab_world_def by (rule start_ok [OF lab_setup_eq lab_fixed])
  moreover have "FilterProcess (Some (example_packet ''eth0'' [10, 0, 0, 5])) = Inr (True, None)"
    by (simp add: FilterProcess_def example_defs)
  moreover have "reliable lab_io" by (simp add: reliable_def lab_io_def)
  moreover have "tx_Writer (w_tx lab_world ! 0) = Some 4" "0 < length (w_tx lab_world)"
    "tx_sent (w_tx lab_world ! 0) = []"
    by (simp_all add: lab_world_def start_def lab_result lab_transmitter_def)
  moreover have "lab_route ''eth1'' 1 0 \<in> set (routes_of (su_pipelines (snd lab_setup) ! 0))"
    "STransmitter 0 (rv_Iname (lab_route ''eth1'' 1 0)) \<in> set (rv_Sinks (lab_route ''eth1'' 1 0))"
    "0 < length (su_pipelines (snd lab_setup))"
    by (simp_all add: lab_result routes_of_def lab_route_def)
  moreover have "route_targets lab_io (lab_route ''eth1'' 1 0) reg =
      [\<lparr>rt_IP = [10, 0, 1, 255], rt_MAC = [], rt_BroadcastDestMAC = True, rt_AllowBroadcastMAC = False\<rparr>]" for reg
    by (simp add: route_targets_def targets_from_def lab_io_def GetClientsForInterface_def route_of_def
        lab_route_def broadcast_target_def split: option.splits)
  moreover have "map_sum id pk_Raw (PacketForEgress (io_lib lab_io) (Some (example_packet ''eth0'' [10, 0, 0, 5]))
      (target_options (route_of lab_io (lab_route ''eth1'' 1 0))
        \<lparr>rt_IP = [10, 0, 1, 255], rt_MAC = [], rt_BroadcastDestMAC = True, rt_AllowBroadcastMAC = False\<rparr>)) =
      Inr [255, 255, 255, 255, 255, 255, 2, 0, 0, 0, 0, 7, 10, 0, 0, 5, 10, 0, 1, 255, 1, 2, 3, 4]"
    by (simp add: PacketForEgress_def lab_io_def toy_lib_def example_defs target_options_def route_of_def
        lab_route_def link_layers_def egress_payload_def egress_ipv4_def broadcastMAC_def Let_def)
  ultimately show ?thesis
    using delivers [OF lab_setup_eq _ _ _ lab_typed example_decoded, of 0 "lab_route ''eth1'' 1 0" 0 lab_world
        "''eth0''" "[10, 0, 0, 5]" 4 0]
    by (auto split: sum.splits)
qed

end
