(* ===== verification/Shutdown.thy ===== *)
theory Shutdown
  imports Running
begin

text \<open>
  The end of a pipeline: when its context is cancelled, \<^verbatim>\<open>Run\<close> returns, whatever its source
  and its other goroutines did before, and has closed the source and every sink.
\<close>

section \<open>Closing the sinks\<close>


lemma close_sinks_append: "close_sinks (xs @ ys) w = close_sinks ys (close_sinks xs w)"
  by (induction xs arbitrary: w) simp_all

lemma close_all_leaves:
  "close_sinks (map (sink_of io) ss) w = close_sinks (map (leaf_of io) (all_leaves ss)) w"
proof (induction ss arbitrary: w)
  case (Cons s ss)
  then show ?case
    by (cases s) (simp_all add: close_sinks_append route_as_sink_def RouteClose_def
        close_route_sinks_state route_of_def)
qed simp

lemma leaf_close:
  "snd (sk_Close (leaf_of io l) w) = (case l of
     STransmitter k n \<Rightarrow> w\<lparr>w_tx := (w_tx w)[k := snd (TransmitterClose (w_tx w ! k))]\<rparr> | _ \<Rightarrow> w)"
  by (cases l) (simp_all add: pcap_as_sink_def PcapFileClose_def forwarding_as_sink_def
      transmitter_as_sink_def split_beta)

lemma TransmitterClose_done: "tx_done (snd (TransmitterClose s))"
  by (simp add: TransmitterClose_def close_take_def closePacketWriter_def split: option.splits)

lemma leaves_close:
  assumes "k < length (w_tx w)" and "tx_done (w_tx w ! k) \<or> (\<exists>n. STransmitter k n \<in> set ls)"
  shows "tx_done (w_tx (close_sinks (map (leaf_of io) ls) w) ! k)"
  using assms
proof (induction ls arbitrary: w)
  case (Cons l ls)
  let ?w = "snd (sk_Close (leaf_of io l) w)"
  have len: "length (w_tx ?w) = length (w_tx w)" by (simp add: leaf_close split: sink_value.split)
  have upd: "xs[j := x] ! k = (if j = k then x else xs ! k)" if "k < length xs" for xs and x :: transmitter and j
    using that by (cases "j = k") simp_all
  have keep: "tx_done (w_tx w ! k) \<or> (\<exists>n. l = STransmitter k n) \<Longrightarrow> tx_done (w_tx ?w ! k)"
    unfolding leaf_close using Cons.prems(1) TransmitterClose_done
    by (cases l) (auto simp: upd)
  from Cons.prems(2) keep have "tx_done (w_tx ?w ! k) \<or> (\<exists>n. STransmitter k n \<in> set ls)" by auto
  with Cons.IH [of ?w] Cons.prems(1) len show ?case by simp
qed simp

lemma leaves_close_frame:
  "w_sources (close_sinks (map (leaf_of io) ls) w) = w_sources w \<and>
   length (w_tx (close_sinks (map (leaf_of io) ls) w)) = length (w_tx w)"
proof (induction ls arbitrary: w)
  case (Cons l ls)
  from Cons.IH [of "snd (sk_Close (leaf_of io l) w)"] show ?case
    by (simp add: leaf_close split: sink_value.splits)
qed simp

lemma leaves_close_ok: "sys_ok w \<Longrightarrow> sys_ok (close_sinks (map (leaf_of io) ls) w)"
proof (induction ls arbitrary: w)
  case (Cons l ls)
  have "sys_ok (snd (sk_Close (leaf_of io l) w))"
  proof (cases l)
    case (STransmitter k n)
    with sys_ok_update [OF sys_at_plain [OF Cons.prems], of k] tx_inv_close show ?thesis
      unfolding leaf_close by (simp add: sys_at_def)
  qed (use Cons.prems leaf_close [of io l w] in simp_all)
  with Cons.IH show ?case by simp
qed simp

section \<open>Runs that are cancelled\<close>

text \<open>
  Events that end with the cancellation of the context; gopacket types its layers, and what
  the context reports stops a run.
\<close>

definition cancels :: "source_event list \<Rightarrow> bool" where
  "cancels es \<longleftrightarrow> es \<noteq> [] \<and> (\<exists>err. last es = CtxDone err) \<and>
     (\<forall>err. CtxDone err \<in> set es \<longrightarrow> stops_run err) \<and>
     (\<forall>g ci. Deliver g ci \<in> set es \<longrightarrow> typed_layers g)"

definition run_ready :: "bool \<Rightarrow> nat \<Rightarrow> nat \<Rightarrow> world \<Rightarrow> bool" where
  "run_ready B i N w \<longleftrightarrow> sys_ok w \<and> i < length (w_sources w) \<and> i < length (w_events w) \<and>
     length (w_tx w) = N \<and> so_monitorCancel (w_sources w ! i) \<and> cancels (w_events w ! i) \<and>
     (B \<longrightarrow> bus_open w)"

definition run_ended :: "nat \<Rightarrow> nat \<Rightarrow> world \<Rightarrow> bool" where
  "run_ended i N w \<longleftrightarrow> sys_ok w \<and> i < length (w_sources w) \<and> length (w_tx w) = N \<and>
     so_monitorCancel (w_sources w ! i)"

lemma source_step_monitorCancel:
  "source_step goos show_lt e (src, s) = Some (src', s') \<Longrightarrow> so_monitorCancel src' = so_monitorCancel src"
  by (cases e) (auto simp: reconnect_def reconnect_attempt_def monitor_tick_def
      split: read_pc.splits if_splits prod.splits sum.splits option.splits)

lemma read_events_monitorCancel:
  "read_events goos show_lt es (src, s) = Some (pkt, err, (src', s'), rest) \<Longrightarrow>
     so_monitorCancel src' = so_monitorCancel src"
proof (induction es arbitrary: src s)
  case (Cons e es)
  show ?case
  proof (cases "source_step goos show_lt e (src, s)")
    case None
    with Cons show ?thesis by simp
  next
    case (Some st1)
    obtain src1 s1 where st1: "st1 = (src1, s1)" by (cases st1)
    with Some Cons.prems Cons.IH [of src1 s1] source_step_monitorCancel [of goos show_lt e src s src1 s1]
    show ?thesis by (cases "so_pc src1") auto
  qed
qed simp

lemma cancelled_read:
  assumes "cancels es"
  shows "\<exists>pkt err src' s' rest. Read goos show_lt es (src, s) = Some (pkt, err, (src', s'), rest) \<and>
    so_monitorCancel src' = so_monitorCancel src \<and>
    (case err of Some e \<Rightarrow> stops_run e
     | None \<Rightarrow> cancels rest \<and> length rest < length es \<and> (\<forall>q. pkt = Some q \<longrightarrow> decoded q))"
proof -
  let ?src = "src\<lparr>so_pc := Selecting\<rparr>"
  have R: "Read goos show_lt es (src, s) = read_events goos show_lt es (?src, s)" by (simp add: Read_def)
  from assms obtain x where x: "es \<noteq> []" "last es = CtxDone x" unfolding cancels_def by blast
  then have "CtxDone x \<in> set es" by (metis last_in_set)
  from read_events_cancelled [OF this, of ?src goos show_lt s] obtain pkt err src' s' rest where
    r: "read_events goos show_lt es (?src, s) = Some (pkt, err, (src', s'), rest)" by auto
  from read_events_result [OF r] obtain seen e where
    e: "es = seen @ e # rest" "returns_as (so_iname src) e pkt err" by auto
  have "case err of Some e \<Rightarrow> stops_run e
      | None \<Rightarrow> cancels rest \<and> length rest < length es \<and> (\<forall>q. pkt = Some q \<longrightarrow> decoded q)"
  proof (cases err)
    case (Some y)
    with e assms show ?thesis by (auto simp: returns_as_def cancels_def)
  next
    case None
    with e(2) obtain g ci where d: "e = Deliver g ci" "pkt = Some \<lparr>pk_Raw = gp_data g, pk_Metadata = ci,
        pk_Packet = Some g, pk_ArrivalInterface = so_iname src\<rparr>" by (auto simp: returns_as_def)
    with e(1) x have "rest \<noteq> []" by auto
    then have "last rest = CtxDone x" using x(2) e(1) by simp
    with \<open>rest \<noteq> []\<close> e(1) assms d have "cancels rest" "typed_layers g" by (auto simp: cancels_def)
    with None d e(1) show ?thesis by (simp add: decoded_def)
  qed
  with r read_events_monitorCancel [OF r] show ?thesis unfolding R by auto
qed

text \<open>A run of a pipeline that publishes on the bus needs an open bus.\<close>

interpretation cancelled_run: ending_run "pipeline_of io i pv" decoded
    "\<lambda>w. decodes_typed (io_lib io) \<and> run_ready (forwards (pv_Sinks pv)) i N w"
    "\<lambda>w. length (w_events w ! i)" "run_ended i N" for io i pv N
proof unfold_locales
  fix w
  let ?B = "forwards (pv_Sinks pv)"
  assume w: "decodes_typed (io_lib io) \<and> run_ready ?B i N w"
  then have "cancels (w_events w ! i)" by (simp add: run_ready_def)
  from cancelled_read [OF this, of "io_goos io" "gl_link_type_string (io_lib io)" "w_sources w ! i" "w_dm w"]
  obtain pkt err src' s' rest where
    r: "Read (io_goos io) (gl_link_type_string (io_lib io)) (w_events w ! i) (w_sources w ! i, w_dm w) =
      Some (pkt, err, (src', s'), rest)" "so_monitorCancel src' = so_monitorCancel (w_sources w ! i)"
    and c: "case err of Some e \<Rightarrow> stops_run e
     | None \<Rightarrow> cancels rest \<and> length rest < length (w_events w ! i) \<and> (\<forall>q. pkt = Some q \<longrightarrow> decoded q)"
    by blast
  let ?w = "w\<lparr>w_sources := (w_sources w)[i := src'], w_dm := s', w_events := (w_events w)[i := rest]\<rparr>"
  have "sr_Read (pl_Source (pipeline_of io i pv)) w = Some (pkt, err, ?w)"
    using r(1) by (simp add: pipeline_of_eq source_of_def)
  moreover have "case err of Some e \<Rightarrow> stops_run e \<and> run_ended i N ?w
     | None \<Rightarrow> (decodes_typed (io_lib io) \<and> run_ready ?B i N ?w) \<and>
         length (w_events ?w ! i) < length (w_events w ! i) \<and> (\<forall>q. pkt = Some q \<longrightarrow> decoded q)"
    using c w r(2) by (auto simp: run_ready_def run_ended_def sys_ok_def bus_open_def split: option.splits)
  ultimately show "\<exists>pkt err w'. sr_Read (pl_Source (pipeline_of io i pv)) w = Some (pkt, err, w') \<and>
      (case err of Some e \<Rightarrow> stops_run e \<and> run_ended i N w'
       | None \<Rightarrow> (decodes_typed (io_lib io) \<and> run_ready ?B i N w') \<and>
           length (w_events w' ! i) < length (w_events w ! i) \<and> (\<forall>q. pkt = Some q \<longrightarrow> decoded q))"
    by blast
next
  fix w q
  let ?B = "forwards (pv_Sinks pv)"
  assume w: "decodes_typed (io_lib io) \<and> run_ready ?B i N w" and "decoded q"
  from w have "sys_at ?B (w_events w) (w_sources w) N w" by (simp add: run_ready_def sys_at_def)
  from pipeline_safe [OF _ \<open>decoded q\<close> this, where env = io and pv = pv] w obtain w' where
    "handle_packet (pipeline_of io i pv) q w = Inr w'" "sys_at ?B (w_events w) (w_sources w) N w'" by blast
  with w show "\<exists>w'. handle_packet (pipeline_of io i pv) q w = Inr w' \<and>
      (decodes_typed (io_lib io) \<and> run_ready ?B i N w') \<and> length (w_events w' ! i) = length (w_events w ! i)"
    by (intro exI [of _ w']) (simp add: run_ready_def sys_at_def)
qed

section \<open>Properties\<close>

text \<open>
  C4. A pipeline whose context is cancelled returns without an error, after whatever
  packets, errors of its interface, reconnects and cancellations during a reconnect came
  before; then the monitor of its source has been stopped, and every transmitter of its
  routes is cancelled and has no \<^verbatim>\<open>Writer\<close> installed (a reconnect loop that still runs may
  hold a handle).  A pipeline that publishes on a bus, which the set-up never builds,
  needs one with no closed channel.
\<close>

theorem pipeline_returns_on_cancel:
  assumes "decodes_typed (io_lib io)" and "sys_ok w"
    and "i < length (w_sources w)" and "i < length (w_events w)" and "so_monitorCancel (w_sources w ! i)"
    and "cancels (w_events w ! i)"
    and "(\<exists>f. SForwarding f \<in> set (all_leaves (pv_Sinks pv))) \<longrightarrow> (\<forall>c. \<not> ch_closed (pb_chans (w_bus w) c))"
  shows "\<exists>w'. Run (pipeline_of io i pv) w = Some (Inr (None, w')) \<and> \<not> so_monitoring (w_sources w' ! i) \<and>
    length (w_tx w') = length (w_tx w) \<and>
    (\<forall>r\<in>set (routes_of pv). \<forall>k<length (w_tx w). \<forall>n. STransmitter k n \<in> set (rv_Sinks r) \<longrightarrow>
       tx_cancelled (w_tx w' ! k) \<and> tx_Writer (w_tx w' ! k) = None)"
proof -
  have "forwards (pv_Sinks pv) \<longrightarrow> bus_open w"
    using assms(7) by (auto simp: forwards_def list_ex_iff bus_open_def elim: publishes.elims)
  then have "run_ready (forwards (pv_Sinks pv)) i (length (w_tx w)) w" using assms by (simp add: run_ready_def)
  with assms(1) cancelled_run.run_returns [where io = io and i = i and N = "length (w_tx w)" and w = w and pv = pv] obtain w1 where
    e: "run_ended i (length (w_tx w)) w1"
    and run: "Run (pipeline_of io i pv) w = Some (Inr (None, closeAll (pipeline_of io i pv) w1))" by blast
  let ?ls = "all_leaves (pv_Sinks pv)"
  obtain err src s where c: "PcapSourceClose (w_sources w1 ! i, w_dm w1) = (err, src, s)"
    by (cases "PcapSourceClose (w_sources w1 ! i, w_dm w1)") auto
  let ?w2 = "w1\<lparr>w_sources := (w_sources w1)[i := src], w_dm := s\<rparr>"
  let ?w3 = "close_sinks (map (leaf_of io) ?ls) ?w2"
  have close: "closeAll (pipeline_of io i pv) w1 = ?w3"
    using c by (simp add: closeAll_def pipeline_of_eq source_of_def close_all_leaves)
  have "\<not> so_monitoring src"
    using c e by (auto simp: PcapSourceClose_def run_ended_def Let_def split: prod.splits)
  with e leaves_close_frame [of io ?ls ?w2] have m: "\<not> so_monitoring (w_sources ?w3 ! i)"
    and len: "length (w_tx ?w3) = length (w_tx w)" by (simp_all add: run_ended_def)
  have "sys_ok ?w2" using e by (simp add: run_ended_def sys_ok_def)
  then have ok: "sys_ok ?w3" by (rule leaves_close_ok)
  have "tx_cancelled (w_tx ?w3 ! k) \<and> tx_Writer (w_tx ?w3 ! k) = None"
    if r: "r \<in> set (routes_of pv)" "k < length (w_tx w)" "STransmitter k n \<in> set (rv_Sinks r)" for r k n
  proof -
    have "STransmitter k n \<in> set ?ls" using r(1,3) by (force simp: routes_of_iff all_leaves_def)
    with leaves_close [of k ?w2 ?ls io] r(2) e have "tx_done (w_tx ?w3 ! k)" by (auto simp: run_ended_def)
    moreover have "tx_inv (w_tx ?w3 ! k)" using ok len r(2) by (auto simp: sys_ok_def)
    ultimately show ?thesis by (auto simp: tx_inv_def)
  qed
  with run close m len show ?thesis by auto
qed

definition lab_cancelled :: world where
  "lab_cancelled = start (snd lab_setup) lab_registry 7
     [[Deliver (example_gopacket [10, 0, 0, 5] [10, 0, 0, 255] [2, 0, 0, 0, 0, 5])
         \<lparr>ci_zero = True, ci_tod_us = 0, ci_CaptureLength = 0, ci_Length = 0\<rparr>,
       ChannelClosed, TimerFires no_device, CtxDone ErrCanceled], []]"

theorem pipeline_returns_on_cancel_witness:
  "\<exists>w'. Run (pipeline_of lab_io 0 (su_pipelines (snd lab_setup) ! 0)) lab_cancelled = Some (Inr (None, w')) \<and>
     tx_Writer (w_tx w' ! 0) = None"
proof -
  have "sys_ok lab_cancelled" unfolding lab_cancelled_def by (rule start_ok [OF lab_setup_eq lab_fixed])
  moreover have "0 < length (w_sources lab_cancelled)" "0 < length (w_events lab_cancelled)"
    "so_monitorCancel (w_sources lab_cancelled ! 0)"
    by (simp_all add: lab_cancelled_def start_def lab_run)
  moreover have "cancels (w_events lab_cancelled ! 0)"
    by (auto simp: cancels_def lab_cancelled_def start_def stops_run_def typed_layers_def example_gopacket_def)
  moreover have "(\<exists>f. SForwarding f \<in> set (all_leaves (pv_Sinks (su_pipelines (snd lab_setup) ! 0)))) \<longrightarrow>
      (\<forall>c. \<not> ch_closed (pb_chans (w_bus lab_cancelled) c))"
    by (simp add: lab_cancelled_def start_def NewPacketBus_def no_channel_def)
  ultimately obtain w' where
    "Run (pipeline_of lab_io 0 (su_pipelines (snd lab_setup) ! 0)) lab_cancelled = Some (Inr (None, w'))"
    "\<forall>r\<in>set (routes_of (su_pipelines (snd lab_setup) ! 0)). \<forall>k<length (w_tx lab_cancelled). \<forall>n.
       STransmitter k n \<in> set (rv_Sinks r) \<longrightarrow> tx_cancelled (w_tx w' ! k) \<and> tx_Writer (w_tx w' ! k) = None"
    using pipeline_returns_on_cancel [OF lab_typed, of lab_cancelled 0 "su_pipelines (snd lab_setup) ! 0"]
    by blast
  moreover have "routes_of (su_pipelines (snd lab_setup) ! 0) = [lab_route ''eth1'' 1 0]"
    "0 < length (w_tx lab_cancelled)"
    by (simp_all add: lab_result routes_of_def lab_cancelled_def start_def)
  ultimately show ?thesis by (auto simp: lab_route_def)
qed

end
