(* ===== verification/Graphviz.thy ===== *)
theory Graphviz
  imports Setup
begin

text \<open>
  \<^verbatim>\<open>cmd/udp-proxy-2020/graphviz.go\<close>: the drawing of the pipelines as a Graphviz file.  The
  buffer and the flags of what the drawing uses are one state; a line of the file is put
  together from a node identifier and its attributes, character for character as in the code.
\<close>

section \<open>Names\<close>

fun processor_name :: "processor_value \<Rightarrow> string" where
  "processor_name (PFilter iname) = FilterName iname"
| "processor_name (PDecode d) = DecodeName d"
| "processor_name (PLearner l) = LearnerName l"
| "processor_name (PTransform ip) = TransformName ip"

fun sink_name :: "sink_value \<Rightarrow> string" where
  "sink_name (SPcapFile f) = PcapFileName f"
| "sink_name (STransmitter k iname) = ''TransmitterSink('' @ iname @ '')''"
| "sink_name (SForwarding f) = ForwardingName f"

definition source_name :: "pipeline_value \<Rightarrow> string" where
  "source_name p = ''PcapSource:'' @ pv_Source p"

definition isForwardingSink :: "sink_value \<Rightarrow> bool" where
  "isForwardingSink l = (case l of SForwarding f \<Rightarrow> True | _ \<Rightarrow> False)"

text \<open>What stands between the first parentheses.\<close>

definition parenthesized :: "string \<Rightarrow> string option" where
  "parenthesized name = (case (index_of (CHR ''('') name, index_of (CHR '')'') name) of
       (Some open_at, Some end_at) \<Rightarrow>
         let start = Suc open_at in
         if end_at > start then Some (take (end_at - start) (drop start name)) else None
     | _ \<Rightarrow> None)"

definition sourceInterfaceName :: "string \<Rightarrow> string \<times> bool" where
  "sourceInterfaceName sourceName =
     (let fallback = (case parenthesized sourceName of Some iface \<Rightarrow> (iface, True) | None \<Rightarrow> ('''', False)) in
      case index_of (CHR '':'') sourceName of
        None \<Rightarrow> fallback
      | Some n \<Rightarrow>
          let after = drop (Suc n) sourceName in
          if after \<noteq> '''' then (after, True) else fallback)"

section \<open>Lines\<close>

definition quote :: "string \<Rightarrow> string" where
  "quote s = [CHR 0x22] @ s @ [CHR 0x22]"

definition dot_node :: "string \<Rightarrow> string \<Rightarrow> string list \<Rightarrow> string" where
  "dot_node indent node attrs = indent @ node @ '' ['' @ join '', '' attrs @ ''];'' @ newline"

definition dot_edge :: "string \<Rightarrow> string \<Rightarrow> string \<Rightarrow> string" where
  "dot_edge indent a b = indent @ a @ '' -> '' @ b @ '';'' @ newline"

definition dot_attr :: "string \<Rightarrow> string \<Rightarrow> string \<Rightarrow> string" where
  "dot_attr indent key val = indent @ key @ ''='' @ quote val @ '';'' @ newline"

definition pipeline_id :: "nat \<Rightarrow> string" where
  "pipeline_id i = ''pipeline_'' @ dec_nat i"

definition source_id :: "nat \<Rightarrow> string" where
  "source_id i = pipeline_id i @ ''_source''"

definition sink_id :: "string \<Rightarrow> nat \<Rightarrow> string" where
  "sink_id parent j = parent @ ''_sink_'' @ dec_nat j"

definition proc_id :: "string \<Rightarrow> nat \<Rightarrow> string" where
  "proc_id parent j = parent @ ''_proc_'' @ dec_nat j"

text \<open>The attributes of the kinds of nodes; the first line of a loop's label is the sign U+27F3.\<close>

definition source_attrs :: "string \<Rightarrow> string list" where
  "source_attrs label = [''label='' @ quote label, ''shape=oval'', ''style='' @ quote ''filled,bold'',
     ''fillcolor='' @ quote ''lightskyblue'', ''color='' @ quote ''steelblue4'']"

definition proc_attrs :: "string \<Rightarrow> string list" where
  "proc_attrs label = [''label='' @ quote label, ''shape=box'', ''style='' @ quote ''rounded,filled'',
     ''fillcolor='' @ quote ''khaki1'']"

definition loop_attrs :: "string \<Rightarrow> string \<Rightarrow> string \<Rightarrow> string list" where
  "loop_attrs diameter color fontsize =
     [''label='' @ quote ([CHR 0xE2, CHR 0x9F, CHR 0xB3, CHR 0x5C] @ ''nper target''), ''shape=circle'',
      ''width='' @ diameter, ''height='' @ diameter, ''fixedsize=true'', ''style='' @ quote ''filled,bold'',
      ''fillcolor=gray90'', ''color='' @ color, ''fontcolor=black'', ''fontsize='' @ fontsize]"

definition rewrite_attrs :: "string list" where
  "rewrite_attrs = [''label='' @ quote (''Rewrite'' @ [CHR 0x5C] @ ''nPacket''), ''shape=component'',
     ''fillcolor='' @ quote ''thistle1'', ''style='' @ quote ''filled'']"

definition nested_sink_attrs :: "string \<Rightarrow> string list" where
  "nested_sink_attrs label = [''label='' @ quote label, ''shape=oval'',
     ''fillcolor='' @ quote ''mediumseagreen'', ''fontcolor='' @ quote ''white'',
     ''style='' @ quote ''filled,bold'']"

definition leaf_attrs :: "sink_value \<Rightarrow> string list" where
  "leaf_attrs l =
     (let (fillColor, fontColor, shape, extraStyle) =
        (if isForwardingSink l then (''lightsalmon'', ''black'', ''hexagon'', ''filled'')
         else (''mediumseagreen'', ''white'', ''oval'', ''filled,bold'')) in
      [''label='' @ quote (sink_name l), ''shape='' @ shape, ''style='' @ quote extraStyle,
       ''fillcolor='' @ quote fillColor, ''fontcolor='' @ quote fontColor])"

section \<open>The drawing\<close>

record dot =
  dt_buf :: string
  dt_Rewrite :: bool
  dt_Loop :: bool
  dt_Processor :: bool
  dt_Sink :: bool
  dt_RouteCluster :: bool
  dt_ForwardSink :: bool

definition out :: "string \<Rightarrow> dot \<Rightarrow> dot" where
  "out s d = d\<lparr>dt_buf := dt_buf d @ s\<rparr>"

text \<open>A chain of processors, and the identifier of its last node.\<close>

fun dot_processors :: "string \<Rightarrow> string \<Rightarrow> string \<Rightarrow> nat \<Rightarrow> processor_value list \<Rightarrow> dot \<Rightarrow> string \<times> dot" where
  "dot_processors indent parent prev j [] d = (prev, d)"
| "dot_processors indent parent prev j (x # xs) d =
     (let node = proc_id parent j in
      dot_processors indent parent node (Suc j) xs
        (out (dot_node indent node (proc_attrs (processor_name x)) @ dot_edge indent prev node)
          (d\<lparr>dt_Processor := True\<rparr>)))"

fun dot_nested_sinks :: "string \<Rightarrow> string \<Rightarrow> nat \<Rightarrow> sink_value list \<Rightarrow> dot \<Rightarrow> dot" where
  "dot_nested_sinks parent prev k [] d = d"
| "dot_nested_sinks parent prev k (l # ls) d =
     (let node = sink_id parent k in
      dot_nested_sinks parent prev (Suc k) ls
        (out (dot_node ''    '' node (nested_sink_attrs (sink_name l)) @ dot_edge ''    '' prev node) d))"

definition route_name :: "route_value \<Rightarrow> string" where
  "route_name r = ''RouteSink('' @ rv_Iname r @ '')''"

definition dot_route :: "string \<Rightarrow> string \<Rightarrow> nat \<Rightarrow> route_value \<Rightarrow> dot \<Rightarrow> dot" where
  "dot_route pipelineID prev j r d =
     (let baseID = sink_id pipelineID j;
          clusterID = ''cluster_'' @ baseID;
          loopID = baseID @ ''_loop'';
          rewriteID = baseID @ ''_rewrite'';
          d1 = out (''  subgraph '' @ clusterID @ '' {'' @ newline @
                 dot_attr ''    '' ''label'' (route_name r) @
                 dot_attr ''    '' ''style'' ''filled,bold'' @
                 dot_attr ''    '' ''fillcolor'' ''honeydew'' @
                 dot_attr ''    '' ''color'' ''darkgreen'' @ newline @
                 dot_node ''    '' loopID (loop_attrs ''1.15'' ''gray20'' ''13'') @
                 dot_node ''    '' rewriteID rewrite_attrs @
                 dot_edge ''    '' loopID rewriteID)
               (d\<lparr>dt_RouteCluster := True, dt_Loop := True, dt_Rewrite := True, dt_Sink := True\<rparr>);
          (procNodeID, d2) = dot_processors ''    '' baseID rewriteID 0 (rv_Processors r) d1;
          d3 = dot_nested_sinks baseID procNodeID 0 (rv_Sinks r) d2
      in out (''  }'' @ newline @ newline @
           ''  '' @ prev @ '' -> '' @ loopID @ '' [lhead='' @ clusterID @ ''];'' @ newline) d3)"

definition dot_leaf :: "string \<Rightarrow> string \<Rightarrow> nat \<Rightarrow> sink_value \<Rightarrow> dot \<Rightarrow> dot" where
  "dot_leaf pipelineID prev j l d =
     (let node = sink_id pipelineID j;
          d1 = d\<lparr>dt_Sink := True, dt_ForwardSink := dt_ForwardSink d \<or> isForwardingSink l\<rparr>
      in out (dot_node ''  '' node (leaf_attrs l) @ dot_edge ''  '' prev node) d1)"

fun dot_sinks :: "string \<Rightarrow> string \<Rightarrow> nat \<Rightarrow> pipeline_sink list \<Rightarrow> dot \<Rightarrow> dot" where
  "dot_sinks pipelineID prev j [] d = d"
| "dot_sinks pipelineID prev j (s # ss) d =
     dot_sinks pipelineID prev (Suc j) ss
       (case s of Route r \<Rightarrow> dot_route pipelineID prev j r d | Leaf l \<Rightarrow> dot_leaf pipelineID prev j l d)"

fun dot_pipelines :: "nat \<Rightarrow> pipeline_value list \<Rightarrow> dot \<Rightarrow> dot" where
  "dot_pipelines i [] d = d"
| "dot_pipelines i (p # ps) d =
     (let d1 = out (dot_node ''  '' (source_id i) (source_attrs (source_name p))) d;
          (prev, d2) = dot_processors ''  '' (pipeline_id i) (source_id i) 0 (pv_Processors p) d1;
          d3 = dot_sinks (pipeline_id i) prev 0 (pv_Sinks p) d2
      in dot_pipelines (Suc i) ps (out newline d3))"

section \<open>Edges between pipelines\<close>

fun interface_index :: "nat \<Rightarrow> pipeline_value list \<Rightarrow> (string \<rightharpoonup> nat) \<Rightarrow> (string \<rightharpoonup> nat)" where
  "interface_index i [] m = m"
| "interface_index i (p # ps) m =
     (case sourceInterfaceName (source_name p) of
        (iface, True) \<Rightarrow> interface_index (Suc i) ps (m(iface \<mapsto> i))
      | (iface, False) \<Rightarrow> interface_index (Suc i) ps m)"

definition forward_edge :: "(string \<rightharpoonup> nat) \<Rightarrow> nat \<Rightarrow> nat \<Rightarrow> pipeline_sink \<Rightarrow> string" where
  "forward_edge index i j s = (case s of
       Leaf (SForwarding f) \<Rightarrow>
         (case Option.bind (parenthesized (ForwardingName f)) index of
            None \<Rightarrow> ''''
          | Some destIdx \<Rightarrow> ''  '' @ sink_id (pipeline_id i) j @ '' -> '' @ source_id destIdx @
              '' [style=dashed, color=red, label='' @ quote ''forward'' @ ''];'' @ newline)
     | _ \<Rightarrow> '''')"

fun forward_sinks :: "(string \<rightharpoonup> nat) \<Rightarrow> nat \<Rightarrow> nat \<Rightarrow> pipeline_sink list \<Rightarrow> dot \<Rightarrow> dot" where
  "forward_sinks index i j [] d = d"
| "forward_sinks index i j (s # ss) d =
     forward_sinks index i (Suc j) ss (out (forward_edge index i j s) d)"

fun forward_pipelines :: "(string \<rightharpoonup> nat) \<Rightarrow> nat \<Rightarrow> pipeline_value list \<Rightarrow> dot \<Rightarrow> dot" where
  "forward_pipelines index i [] d = d"
| "forward_pipelines index i (p # ps) d =
     forward_pipelines index (Suc i) ps (forward_sinks index i 0 (pv_Sinks p) d)"

definition addCrossPipelineEdges :: "pipeline_value list \<Rightarrow> dot \<Rightarrow> dot" where
  "addCrossPipelineEdges pipelines d =
     forward_pipelines (interface_index 0 pipelines Map.empty) 0 pipelines d"

section \<open>The legend and the file\<close>

text \<open>The entries of the legend, in order: whether it is used, its identifier and attributes.\<close>

definition legend_entries :: "bool \<Rightarrow> dot \<Rightarrow> (bool \<times> string \<times> string list) list" where
  "legend_entries usedSource d =
     [(usedSource, ''legend_source'', source_attrs ''Source''),
      (dt_Processor d, ''legend_proc'', proc_attrs ''Processor''),
      (dt_RouteCluster d, ''legend_route'', [''label='' @ quote ''RouteSink Cluster'', ''shape=folder'',
         ''fillcolor='' @ quote ''honeydew'', ''style='' @ quote ''filled,bold'', ''color='' @ quote ''darkgreen'']),
      (dt_Loop d, ''legend_loop'', loop_attrs ''1.0'' ''gray30'' ''12''),
      (dt_Rewrite d, ''legend_rewrite'', rewrite_attrs),
      (dt_Sink d, ''legend_sink'', nested_sink_attrs ''Sink''),
      (dt_ForwardSink d, ''legend_forward'', [''label='' @ quote ''ForwardingSink'', ''shape=hexagon'',
         ''fillcolor='' @ quote ''lightsalmon'', ''style='' @ quote ''filled''])]"

definition spacer :: "string \<Rightarrow> string" where
  "spacer name = ''{ rank = sink; '' @ name @ '' [style=invis, height=0.2, width=0.0, label='' @ quote '''' @ '']; }'' @ newline"

definition legend :: "bool \<Rightarrow> dot \<Rightarrow> string" where
  "legend usedSource d =
     (let entries = filter fst (legend_entries usedSource d);
          legendNodeIDs = map (\<lambda>(used, node, attrs). node) entries in
      newline @ ''// Legend section'' @ newline @
      spacer ''dummy_legend_spacer'' @ spacer ''dummy_legend_spacer2'' @
      ''  subgraph cluster_legend {'' @ newline @
      dot_attr ''    '' ''label'' ''Legend'' @
      dot_attr ''    '' ''style'' ''filled,dashed'' @
      dot_attr ''    '' ''color'' ''gray'' @
      concat (map (\<lambda>(used, node, attrs). dot_node ''    '' node attrs) entries) @
      (if length legendNodeIDs > 1
       then ''    '' @ join '' -> '' legendNodeIDs @ '' [style=invis];'' @ newline else '''') @
      ''  }'' @ newline)"

definition dot_header :: string where
  "dot_header = ''digraph Pipelines {'' @ newline @ ''  rankdir=LR;'' @ newline @
     ''  compound=true;'' @ newline @ ''  node [shape=box, style=rounded];'' @ newline @ newline"

definition dot_start :: dot where
  "dot_start = \<lparr>dt_buf = dot_header, dt_Rewrite = False, dt_Loop = False, dt_Processor = False,
     dt_Sink = False, dt_RouteCluster = False, dt_ForwardSink = False\<rparr>"

definition dot_text :: "pipeline_value list \<Rightarrow> string" where
  "dot_text pipelines =
     (let usedSource = length pipelines > 0;
          d = addCrossPipelineEdges pipelines (dot_pipelines 0 pipelines dot_start);
          includeLegend = usedSource \<or> dt_Rewrite d \<or> dt_Loop d \<or> dt_Processor d \<or> dt_Sink d \<or>
            dt_RouteCluster d \<or> dt_ForwardSink d
      in dt_buf d @ (if includeLegend then legend usedSource d else '''') @ ''}'' @ newline)"

text \<open>\<open>write_file path text\<close> is \<^verbatim>\<open>os.WriteFile\<close>.\<close>

definition GenerateDotFile :: "(string \<Rightarrow> string \<Rightarrow> go_error option) \<Rightarrow> pipeline_value list \<Rightarrow> string \<Rightarrow>
    go_error option" where
  "GenerateDotFile write_file pipelines filepath =
     (case write_file filepath (dot_text pipelines) of
        Some err \<Rightarrow> Some (Wrapf ''failed to write dot file: '' err)
      | None \<Rightarrow> None)"

section \<open>Lemmas on names\<close>

lemma sourceInterfaceName_source:
  assumes "pv_Source p \<noteq> ''''"
  shows "sourceInterfaceName (source_name p) = (pv_Source p, True)"
proof -
  have "index_of (CHR '':'') (''PcapSource'' @ CHR '':'' # pv_Source p) = Some (length ''PcapSource'')"
    by (rule index_of_append) simp
  with assms show ?thesis by (simp add: sourceInterfaceName_def source_name_def)
qed

text \<open>The name is read up to its first closing parenthesis; nothing is found where that is empty.\<close>

lemma parenthesized_name:
  assumes "CHR ''('' \<notin> set kind" and "CHR '')'' \<notin> set kind"
  shows "parenthesized (kind @ ''('' @ iname @ '')'') =
    (let read = takeWhile (\<lambda>c. c \<noteq> CHR '')'') iname in if read = '''' then None else Some read)"
proof -
  let ?read = "takeWhile (\<lambda>c. c \<noteq> CHR '')'') iname"
  obtain rest where rest: "iname @ '')'' = ?read @ CHR '')'' # rest"
  proof (cases "dropWhile (\<lambda>c. c \<noteq> CHR '')'') iname")
    case Nil
    then have "?read = iname" by (metis append_Nil2 takeWhile_dropWhile_id)
    with that [of "''''"] show ?thesis by simp
  next
    case (Cons c cs)
    then have "c = CHR '')''" by (metis (mono_tags) hd_dropWhile list.discI list.sel(1))
    with Cons that [of "cs @ '')''"] show ?thesis
      by (metis (no_types) append_Cons append_assoc takeWhile_dropWhile_id)
  qed
  have 1: "index_of (CHR ''('') (kind @ CHR ''('' # iname @ '')'') = Some (length kind)"
    using assms(1) by (rule index_of_append)
  have "CHR '')'' \<notin> set ?read" by (auto dest: set_takeWhileD)
  then have "index_of (CHR '')'') ((kind @ ''('' @ ?read) @ CHR '')'' # rest) = Some (length (kind @ ''('' @ ?read))"
    using assms(2) by (intro index_of_append) simp
  then have 2: "index_of (CHR '')'') (kind @ CHR ''('' # iname @ '')'') = Some (Suc (length kind + length ?read))"
    using rest by simp
  have "take (length ?read) (iname @ '')'') = ?read" using rest by (metis append_eq_conv_conj)
  with 1 2 show ?thesis by (simp add: parenthesized_def Let_def)
qed

lemma interface_index_eq:
  assumes "distinct (map pv_Source ps)" and "\<forall>p\<in>set ps. pv_Source p \<noteq> ''''"
  shows "interface_index i ps m iface = Some n \<longleftrightarrow>
    (if iface \<in> pv_Source ` set ps then i \<le> n \<and> n < i + length ps \<and> pv_Source (ps ! (n - i)) = iface
     else m iface = Some n)"
  using assms
proof (induction ps arbitrary: i m)
  case (Cons p ps)
  have src: "sourceInterfaceName (source_name p) = (pv_Source p, True)"
    using Cons.prems(2) by (intro sourceInterfaceName_source) simp
  have nth: "(p # ps) ! (n - i) = (if n = i then p else ps ! (n - Suc i))" if "i \<le> n"
    using that by (cases "n - i") (auto simp: diff_Suc split: nat.splits)
  show ?case
  proof (cases "iface \<in> pv_Source ` set ps")
    case True
    then have "pv_Source p \<noteq> iface" using Cons.prems(1) by auto
    with True Cons show ?thesis by (auto simp: src nth split: if_splits)
  next
    case False
    have "pv_Source (ps ! (n - Suc i)) \<noteq> iface" if "n < i + Suc (length ps)" "i < n"
      using False that by (auto intro!: nth_mem)
    with False Cons show ?thesis by (auto simp: src nth)
  qed
qed simp

section \<open>Properties of the names\<close>

text \<open>
  C38. The drawing finds its way back from names to interfaces.  For pipelines of interfaces with
  different, non-empty names, the interface of a pipeline is read back from the name of its
  source, and the edge of a forwarding sink leads to the source of the pipeline of the
  interface that is read back from the name of the sink, and is left out exactly when there is
  no such pipeline.  That is the interface of the sink, cut at its first closing parenthesis
  where it has one: a sink to \<^verbatim>\<open>a)b\<close> is drawn to \<^verbatim>\<open>a\<close>.
\<close>

theorem forward_edge_correct:
  assumes "distinct (map pv_Source pipelines)" and "\<forall>p\<in>set pipelines. pv_Source p \<noteq> ''''"
    and "read = takeWhile (\<lambda>c. c \<noteq> CHR '')'') (fs_Iname f)"
  shows "(\<forall>p\<in>set pipelines. sourceInterfaceName (source_name p) = (pv_Source p, True)) \<and>
    (case find (\<lambda>n. pv_Source (pipelines ! n) = read) [0..<length pipelines] of
       None \<Rightarrow> forward_edge (interface_index 0 pipelines Map.empty) i j (Leaf (SForwarding f)) = ''''
     | Some n \<Rightarrow> forward_edge (interface_index 0 pipelines Map.empty) i j (Leaf (SForwarding f)) =
         ''  '' @ sink_id (pipeline_id i) j @ '' -> '' @ source_id n @
         '' [style=dashed, color=red, label='' @ quote ''forward'' @ ''];'' @ newline)"
proof -
  have p: "parenthesized (ForwardingName f) = (if read = '''' then None else Some read)"
    using parenthesized_name [of "''ForwardingSink''" "fs_Iname f"] by (simp add: ForwardingName_def assms(3) Let_def)
  have idx: "interface_index 0 pipelines Map.empty read =
      find (\<lambda>n. pv_Source (pipelines ! n) = read) [0..<length pipelines]" (is "?idx = ?find")
  proof (cases ?find)
    case None
    then have "read \<notin> pv_Source ` set pipelines"
      by (auto simp: find_None_iff in_set_conv_nth)
    with interface_index_eq [OF assms(1,2), of 0 Map.empty read] None show ?thesis
      by (cases ?idx) auto
  next
    case (Some n)
    then have "n < length pipelines" "pv_Source (pipelines ! n) = read"
      by (auto simp: find_Some_iff)
    then have "read \<in> pv_Source ` set pipelines" by (metis image_eqI nth_mem)
    with interface_index_eq [OF assms(1,2), of 0 Map.empty read n] Some \<open>n < length pipelines\<close>
      \<open>pv_Source (pipelines ! n) = read\<close> show ?thesis by simp
  qed
  have "read \<noteq> ''''" if "find (\<lambda>n. pv_Source (pipelines ! n) = read) [0..<length pipelines] = Some n" for n
    using that assms(2) by (auto simp: find_Some_iff)
  then show ?thesis
    using assms(2) sourceInterfaceName_source
    by (auto simp: forward_edge_def p idx split: option.splits)
qed

definition relay :: "string \<Rightarrow> pipeline_sink list \<Rightarrow> pipeline_value" where
  "relay iname sinks = \<lparr>pv_Source = iname, pv_Processors = [PFilter iname], pv_Sinks = sinks\<rparr>"

definition to_eth1 :: forwarding_sink where
  "to_eth1 = \<lparr>fs_Iname = ''eth1'', fs_LinkType = LinkTypeEthernet\<rparr>"

definition relays :: "pipeline_value list" where
  "relays = [relay ''eth0'' [Leaf (SForwarding to_eth1)], relay ''eth1'' []]"

theorem forward_edge_correct_witness:
  "forward_edge (interface_index 0 relays Map.empty) 0 0 (Leaf (SForwarding to_eth1)) =
     ''  pipeline_0_sink_0 -> pipeline_1_source [style=dashed, color=red, label='' @ quote ''forward'' @ ''];'' @ newline"
proof -
  have "distinct (map pv_Source relays)" "\<forall>p\<in>set relays. pv_Source p \<noteq> ''''"
    "''eth1'' = takeWhile (\<lambda>c. c \<noteq> CHR '')'') (fs_Iname to_eth1)"
    by (simp_all add: relays_def relay_def to_eth1_def)
  from forward_edge_correct [OF this, of 0 0] have
    "case find (\<lambda>n. pv_Source (relays ! n) = ''eth1'') [0..<length relays] of
       None \<Rightarrow> True
     | Some n \<Rightarrow> forward_edge (interface_index 0 relays Map.empty) 0 0 (Leaf (SForwarding to_eth1)) =
         ''  '' @ sink_id (pipeline_id 0) 0 @ '' -> '' @ source_id n @
         '' [style=dashed, color=red, label='' @ quote ''forward'' @ ''];'' @ newline"
    by (auto split: option.splits)
  moreover have "find (\<lambda>n. pv_Source (relays ! n) = ''eth1'') [0..<length relays] = Some 1"
    by (simp add: relays_def relay_def to_eth1_def upt_rec)
  ultimately show ?thesis
    by (simp add: sink_id_def pipeline_id_def source_id_def number_printing)
qed

section \<open>Lemmas on the drawing\<close>

text \<open>The pieces of text that a step adds are balanced: braces in pairs, and quotes closed.\<close>

definition excess :: "string \<Rightarrow> int" where
  "excess s = int (count_list s (CHR ''{'')) - int (count_list s (CHR ''}''))"

definition quotes :: "string \<Rightarrow> nat" where
  "quotes s = count_list s (CHR 0x22)"

definition clean :: "string \<Rightarrow> bool" where
  "clean s \<longleftrightarrow> CHR ''{'' \<notin> set s \<and> CHR ''}'' \<notin> set s \<and> CHR 0x22 \<notin> set s"

definition balanced :: "string \<Rightarrow> bool" where
  "balanced s \<longleftrightarrow> excess s = 0 \<and> even (quotes s)"

lemma balance_simps [simp]:
  "excess [] = 0" "excess (s @ t) = excess s + excess t" "quotes [] = 0" "quotes (s @ t) = quotes s + quotes t"
  by (simp_all add: excess_def quotes_def)

lemma clean_balance [simp]: "clean s \<Longrightarrow> excess s = 0" "clean s \<Longrightarrow> quotes s = 0"
  by (simp_all add: excess_def quotes_def clean_def count_notin)

lemma balance_Cons [simp]:
  "excess (c # s) = (if c = CHR ''{'' then 1 else 0) - (if c = CHR ''}'' then 1 else 0) + excess s"
  "quotes (c # s) = (if c = CHR 0x22 then Suc (quotes s) else quotes s)"
  by (simp_all add: excess_def quotes_def)

lemma clean_simps [simp]:
  "clean []" "clean (s @ t) \<longleftrightarrow> clean s \<and> clean t"
  "clean (c # s) \<longleftrightarrow> c \<noteq> CHR ''{'' \<and> c \<noteq> CHR ''}'' \<and> c \<noteq> CHR 0x22 \<and> clean s"
  by (auto simp: clean_def)

lemma clean_dec_nat [simp]: "clean (dec_nat n)"
  by (simp add: clean_def dec_nat_notin)

lemma clean_ids [simp]:
  "clean (pipeline_id i)" "clean (source_id i)" "clean (sink_id p j) = clean p" "clean (proc_id p j) = clean p"
  "clean newline"
  by (simp_all add: pipeline_id_def source_id_def sink_id_def proc_id_def newline_def)

lemma quote_balance [simp]: "excess (quote s) = excess s" "quotes (quote s) = Suc (Suc (quotes s))"
  by (simp_all add: excess_def quotes_def quote_def)

lemma join_balanced:
  "clean sep \<Longrightarrow> list_all balanced xs \<Longrightarrow> balanced (join sep xs)"
  by (induction sep xs rule: join.induct) (auto simp: balanced_def)

lemma line_balanced:
  "clean indent \<Longrightarrow> clean node \<Longrightarrow> list_all balanced attrs \<Longrightarrow> balanced (dot_node indent node attrs)"
  "clean indent \<Longrightarrow> clean a \<Longrightarrow> clean b \<Longrightarrow> balanced (dot_edge indent a b)"
  "clean indent \<Longrightarrow> clean key \<Longrightarrow> balanced val \<Longrightarrow> balanced (dot_attr indent key val)"
  using join_balanced [of "'', ''" attrs]
  by (simp_all add: dot_node_def dot_edge_def dot_attr_def balanced_def)

lemma attrs_balanced:
  "clean label \<Longrightarrow> list_all balanced (source_attrs label)"
  "clean label \<Longrightarrow> list_all balanced (proc_attrs label)"
  "clean label \<Longrightarrow> list_all balanced (nested_sink_attrs label)"
  "clean diameter \<Longrightarrow> clean color \<Longrightarrow> clean fontsize \<Longrightarrow> list_all balanced (loop_attrs diameter color fontsize)"
  "list_all balanced rewrite_attrs"
  "clean (sink_name l) \<Longrightarrow> list_all balanced (leaf_attrs l)"
  by (simp_all add: source_attrs_def proc_attrs_def nested_sink_attrs_def loop_attrs_def rewrite_attrs_def
      leaf_attrs_def balanced_def)

text \<open>What a step adds to the buffer.\<close>

definition grows :: "int \<Rightarrow> dot \<Rightarrow> dot \<Rightarrow> bool" where
  "grows n d d' \<longleftrightarrow> (\<exists>t. dt_buf d' = dt_buf d @ t \<and> excess t = n \<and> even (quotes t))"

lemma grows_refl: "dt_buf d' = dt_buf d \<Longrightarrow> grows 0 d d'"
  by (simp add: grows_def)

lemma grows_trans: "grows m d d1 \<Longrightarrow> grows n d1 d2 \<Longrightarrow> grows (m + n) d d2"
  unfolding grows_def by (elim exE conjE, rule_tac x = "t @ ta" in exI) simp

lemma grows_out: "dt_buf d1 = dt_buf d \<Longrightarrow> excess s = n \<Longrightarrow> even (quotes s) \<Longrightarrow> grows n d (out s d1)"
  by (simp add: grows_def out_def)

lemma grows_balanced: "dt_buf d1 = dt_buf d \<Longrightarrow> balanced s \<Longrightarrow> grows 0 d (out s d1)"
  by (simp add: balanced_def grows_out)

lemma balanced_append: "balanced s \<Longrightarrow> balanced t \<Longrightarrow> balanced (s @ t)"
  by (simp add: balanced_def)

lemma processors_grow:
  "clean indent \<Longrightarrow> clean parent \<Longrightarrow> clean prev \<Longrightarrow> \<forall>x\<in>set xs. clean (processor_name x) \<Longrightarrow>
   clean (fst (dot_processors indent parent prev j xs d)) \<and>
   grows 0 d (snd (dot_processors indent parent prev j xs d))"
proof (induction indent parent prev j xs d rule: dot_processors.induct)
  case (2 indent parent prev j x xs d)
  let ?d = "out (dot_node indent (proc_id parent j) (proc_attrs (processor_name x)) @
    dot_edge indent prev (proc_id parent j)) (d\<lparr>dt_Processor := True\<rparr>)"
  have "grows 0 d ?d"
    using 2(2-5) by (intro grows_balanced balanced_append line_balanced attrs_balanced) simp_all
  with 2 grows_trans [of 0 d ?d 0] show ?case by (simp add: Let_def)
qed (simp add: grows_refl)

lemma nested_sinks_grow:
  "clean parent \<Longrightarrow> clean prev \<Longrightarrow> \<forall>l\<in>set ls. clean (sink_name l) \<Longrightarrow>
     grows 0 d (dot_nested_sinks parent prev k ls d)"
proof (induction parent prev k ls d rule: dot_nested_sinks.induct)
  case (2 parent prev k l ls d)
  let ?d = "out (dot_node ''    '' (sink_id parent k) (nested_sink_attrs (sink_name l)) @
    dot_edge ''    '' prev (sink_id parent k)) d"
  have "clean ''    ''" by (simp add: clean_def)
  then have "grows 0 d ?d"
    using 2(2-4) by (intro grows_balanced balanced_append line_balanced attrs_balanced) simp_all
  with 2 grows_trans [of 0 d ?d 0] show ?case by (simp add: Let_def)
qed (simp add: grows_refl)

definition clean_leaves :: "sink_value list \<Rightarrow> bool" where
  "clean_leaves ls \<longleftrightarrow> (\<forall>l\<in>set ls. clean (sink_name l))"

definition clean_names :: "pipeline_value \<Rightarrow> bool" where
  "clean_names p \<longleftrightarrow> clean (pv_Source p) \<and> (\<forall>x\<in>set (pv_Processors p). clean (processor_name x)) \<and>
     clean_leaves (leaves_of p) \<and> (\<forall>r\<in>set (routes_of p). clean (rv_Iname r) \<and>
       (\<forall>x\<in>set (rv_Processors r). clean (processor_name x)) \<and> clean_leaves (rv_Sinks r))"

lemma route_grows:
  assumes "clean pid" and "clean prev" and "clean (rv_Iname r)"
    and "\<forall>x\<in>set (rv_Processors r). clean (processor_name x)" and "clean_leaves (rv_Sinks r)"
  shows "grows 0 d (dot_route pid prev j r d)"
proof -
  let ?base = "sink_id pid j"
  let ?open = "''  subgraph '' @ (''cluster_'' @ ?base) @ '' {'' @ newline @
     dot_attr ''    '' ''label'' (route_name r) @
     dot_attr ''    '' ''style'' ''filled,bold'' @
     dot_attr ''    '' ''fillcolor'' ''honeydew'' @
     dot_attr ''    '' ''color'' ''darkgreen'' @ newline @
     dot_node ''    '' (?base @ ''_loop'') (loop_attrs ''1.15'' ''gray20'' ''13'') @
     dot_node ''    '' (?base @ ''_rewrite'') rewrite_attrs @
     dot_edge ''    '' (?base @ ''_loop'') (?base @ ''_rewrite'')"
  let ?d1 = "out ?open (d\<lparr>dt_RouteCluster := True, dt_Loop := True, dt_Rewrite := True, dt_Sink := True\<rparr>)"
  obtain node d2 where p: "dot_processors ''    '' ?base (?base @ ''_rewrite'') 0 (rv_Processors r) ?d1 = (node, d2)"
    by (cases "dot_processors ''    '' ?base (?base @ ''_rewrite'') 0 (rv_Processors r) ?d1") auto
  let ?d3 = "dot_nested_sinks ?base node 0 (rv_Sinks r) d2"
  let ?close = "''  }'' @ newline @ newline @
     ''  '' @ prev @ '' -> '' @ (?base @ ''_loop'') @ '' [lhead='' @ (''cluster_'' @ ?base) @ ''];'' @ newline"
  have lines: "balanced (dot_attr ''    '' ''label'' (route_name r))"
    "balanced (dot_attr ''    '' ''style'' ''filled,bold'')"
    "balanced (dot_attr ''    '' ''fillcolor'' ''honeydew'')"
    "balanced (dot_attr ''    '' ''color'' ''darkgreen'')"
    "balanced (dot_node ''    '' (?base @ ''_loop'') (loop_attrs ''1.15'' ''gray20'' ''13''))"
    "balanced (dot_node ''    '' (?base @ ''_rewrite'') rewrite_attrs)"
    "balanced (dot_edge ''    '' (?base @ ''_loop'') (?base @ ''_rewrite''))"
    using assms(1,3) by (intro line_balanced attrs_balanced; simp add: route_name_def balanced_def)+
  have "grows 1 d ?d1"
    using lines assms(1) by (intro grows_out) (simp_all add: balanced_def)
  moreover have g2: "clean node \<and> grows 0 ?d1 d2"
    using processors_grow [of "''    ''" ?base "?base @ ''_rewrite''" "rv_Processors r" 0 ?d1] assms(1,4) p by simp
  ultimately have "grows 1 d d2" using grows_trans [of 1 d ?d1 0 d2] by simp
  moreover have "grows 0 d2 ?d3"
    using nested_sinks_grow [of ?base node "rv_Sinks r" d2 0] g2 assms(1,5) by (simp add: clean_leaves_def)
  ultimately have "grows 1 d ?d3" using grows_trans [of 1 d d2 0] by simp
  moreover have "grows (- 1) ?d3 (out ?close ?d3)"
    using assms(1,2) by (intro grows_out) simp_all
  ultimately have "grows 0 d (out ?close ?d3)" using grows_trans [of 1 d ?d3 "- 1"] by simp
  moreover have "dot_route pid prev j r d = out ?close ?d3"
    by (simp add: dot_route_def Let_def p [simplified])
  ultimately show ?thesis by simp
qed

lemma leaf_grows:
  assumes "clean pid" and "clean prev" and "clean (sink_name l)"
  shows "grows 0 d (dot_leaf pid prev j l d)"
  unfolding dot_leaf_def Let_def
  using assms by (intro grows_balanced balanced_append line_balanced attrs_balanced) simp_all

lemma sinks_grow:
  "clean pid \<Longrightarrow> clean prev \<Longrightarrow>
   \<forall>s\<in>set ss. case s of Leaf l \<Rightarrow> clean (sink_name l) | Route r \<Rightarrow> clean (rv_Iname r) \<and>
     (\<forall>x\<in>set (rv_Processors r). clean (processor_name x)) \<and> clean_leaves (rv_Sinks r) \<Longrightarrow>
   grows 0 d (dot_sinks pid prev j ss d)"
proof (induction pid prev j ss d rule: dot_sinks.induct)
  case (2 pid prev j s ss d)
  let ?d = "case s of Route r \<Rightarrow> dot_route pid prev j r d | Leaf l \<Rightarrow> dot_leaf pid prev j l d"
  have "grows 0 d ?d"
    using 2(2-4) by (cases s) (simp_all add: route_grows leaf_grows)
  with 2 grows_trans [of 0 d ?d 0] show ?case by simp
qed (simp add: grows_refl)

lemma pipelines_grow:
  "\<forall>p\<in>set ps. clean_names p \<Longrightarrow> grows 0 d (dot_pipelines i ps d)"
proof (induction i ps d rule: dot_pipelines.induct)
  case (2 i p ps d)
  let ?d1 = "out (dot_node ''  '' (source_id i) (source_attrs (source_name p))) d"
  obtain prev d2 where x: "dot_processors ''  '' (pipeline_id i) (source_id i) 0 (pv_Processors p) ?d1 = (prev, d2)"
    by (cases "dot_processors ''  '' (pipeline_id i) (source_id i) 0 (pv_Processors p) ?d1") auto
  let ?d3 = "dot_sinks (pipeline_id i) prev 0 (pv_Sinks p) d2"
  have n: "clean_names p" using 2(2) by simp
  have "grows 0 d ?d1"
    using n by (intro grows_balanced line_balanced attrs_balanced) (simp_all add: clean_names_def source_name_def)
  moreover have g2: "clean prev \<and> grows 0 ?d1 d2"
    using processors_grow [of "''  ''" "pipeline_id i" "source_id i" "pv_Processors p" 0 ?d1] n x
    by (simp add: clean_names_def)
  moreover have "grows 0 d2 ?d3"
  proof (rule sinks_grow)
    show "\<forall>s\<in>set (pv_Sinks p). case s of Leaf l \<Rightarrow> clean (sink_name l) | Route r \<Rightarrow> clean (rv_Iname r) \<and>
        (\<forall>x\<in>set (rv_Processors r). clean (processor_name x)) \<and> clean_leaves (rv_Sinks r)"
      using n by (auto simp: clean_names_def leaves_of_def routes_of_def clean_leaves_def split: pipeline_sink.splits)
  qed (use g2 in simp_all)
  moreover have "grows 0 ?d3 (out newline ?d3)" by (intro grows_out) simp_all
  ultimately have "grows 0 d (out newline ?d3)"
    using grows_trans [of 0 d ?d1 0 d2] grows_trans [of 0 d d2 0 ?d3] grows_trans [of 0 d ?d3 0] by simp
  with 2 x grows_trans [of 0 d "out newline ?d3" 0] show ?case by (simp add: Let_def)
qed (simp add: grows_refl)

lemma forward_edge_balanced: "balanced (forward_edge index i j s)"
  by (simp add: forward_edge_def balanced_def split: pipeline_sink.splits sink_value.splits option.splits)

lemma forward_sinks_grow: "grows 0 d (forward_sinks index i j ss d)"
proof (induction ss arbitrary: j d)
  case (Cons s ss)
  have "grows 0 d (out (forward_edge index i j s) d)"
    by (intro grows_balanced forward_edge_balanced) simp
  with Cons [of "out (forward_edge index i j s) d" "Suc j"] show ?case
    using grows_trans [of 0 d _ 0] by fastforce
qed (simp add: grows_refl)

lemma forward_pipelines_grow: "grows 0 d (forward_pipelines index i ps d)"
proof (induction ps arbitrary: i d)
  case (Cons p ps)
  from grows_trans [OF forward_sinks_grow Cons] show ?case by simp
qed (simp add: grows_refl)

lemma legend_balanced: "balanced (legend usedSource d)"
proof -
  have attrs: "list_all balanced attrs \<and> clean node" if "(b, node, attrs) \<in> set (legend_entries usedSource d)" for b node attrs
    using that attrs_balanced(1) [of "''Source''"] attrs_balanced(2) [of "''Processor''"]
      attrs_balanced(3) [of "''Sink''"] attrs_balanced(4) [of "''1.0''" "''gray30''" "''12''"] attrs_balanced(5)
    by (auto simp: legend_entries_def balanced_def)
  have nodes: "balanced (concat (map (\<lambda>(used, node, attrs). dot_node ''    '' node attrs) es))"
    if "set es \<subseteq> set (legend_entries usedSource d)" for es
    using that
  proof (induction es)
    case (Cons e es)
    obtain b node as where e: "e = (b, node, as)" by (cases e)
    with attrs [of b node as] Cons.prems have "balanced (dot_node ''    '' node as)"
      by (intro line_balanced) simp_all
    with Cons e show ?case by (simp add: balanced_append)
  qed (simp add: balanced_def)
  have ids: "balanced (join '' -> '' (map (\<lambda>(used, node, attrs). node) es))"
    if "set es \<subseteq> set (legend_entries usedSource d)" for es
    using that attrs by (intro join_balanced) (auto simp: list_all_iff balanced_def split: prod.splits)
  have lines: "balanced (dot_attr ''    '' ''label'' ''Legend'')" "balanced (dot_attr ''    '' ''style'' ''filled,dashed'')"
    "balanced (dot_attr ''    '' ''color'' ''gray'')"
    by (intro line_balanced; simp add: balanced_def)+
  have "set (filter fst (legend_entries usedSource d)) \<subseteq> set (legend_entries usedSource d)" by auto
  from nodes [OF this] ids [OF this] lines show ?thesis
    by (simp add: legend_def spacer_def balanced_def Let_def)
qed

text \<open>The flags of the state, without its buffer.\<close>

definition marks :: "dot \<Rightarrow> dot" where
  "marks d = d\<lparr>dt_buf := ''''\<rparr>"

lemma marks_out [simp]: "marks (out s d) = marks d" "dt_Processor (out s d) = dt_Processor d"
  by (simp_all add: marks_def out_def)

lemma marks_processors:
  "marks (snd (dot_processors indent parent prev j xs d)) =
     (marks d)\<lparr>dt_Processor := dt_Processor d \<or> xs \<noteq> []\<rparr>"
proof (induction indent parent prev j xs d rule: dot_processors.induct)
  case (2 indent parent prev j x xs d)
  then show ?case by (simp add: Let_def) (simp add: marks_def out_def)
qed (simp add: marks_def)

lemma marks_nested: "marks (dot_nested_sinks parent prev k ls d) = marks d"
  by (induction parent prev k ls d rule: dot_nested_sinks.induct) (simp_all add: Let_def)

definition route_marks :: "route_value \<Rightarrow> dot \<Rightarrow> dot" where
  "route_marks r d = d\<lparr>dt_RouteCluster := True, dt_Loop := True, dt_Rewrite := True, dt_Sink := True,
     dt_Processor := dt_Processor d \<or> rv_Processors r \<noteq> []\<rparr>"

lemma marks_route: "marks (dot_route pid prev j r d) = route_marks r (marks d)"
proof -
  have p: "marks d2 = (marks d1)\<lparr>dt_Processor := dt_Processor d1 \<or> xs \<noteq> []\<rparr>"
    if "dot_processors indent parent prev j xs d1 = (node, d2)" for indent parent prev j xs d1 d2 node
    using marks_processors [of indent parent prev j xs d1] that by simp
  show ?thesis
    by (auto simp: dot_route_def Let_def marks_nested split_beta marks_processors)
      (simp_all add: marks_def out_def route_marks_def)
qed

lemma marks_forward:
  "marks (forward_sinks index i j ss d) = marks d"
  "marks (forward_pipelines index i ps d) = marks d"
proof -
  show s: "marks (forward_sinks index i j ss d) = marks d" for index i j ss d
    by (induction ss arbitrary: j d) simp_all
  show "marks (forward_pipelines index i ps d) = marks d"
    by (induction ps arbitrary: i d) (simp_all add: s)
qed

text \<open>What sinks and pipelines use.\<close>

definition forwards :: "pipeline_sink \<Rightarrow> bool" where
  "forwards s \<longleftrightarrow> (\<exists>f. s = Leaf (SForwarding f))"

definition route_with_processors :: "pipeline_sink \<Rightarrow> bool" where
  "route_with_processors s \<longleftrightarrow> (\<exists>r. s = Route r \<and> rv_Processors r \<noteq> [])"

definition routes :: "pipeline_sink \<Rightarrow> bool" where
  "routes s \<longleftrightarrow> (\<exists>r. s = Route r)"

definition use_marks :: "pipeline_sink list \<Rightarrow> dot \<Rightarrow> dot" where
  "use_marks ss d = d\<lparr>dt_RouteCluster := dt_RouteCluster d \<or> list_ex routes ss,
     dt_Loop := dt_Loop d \<or> list_ex routes ss, dt_Rewrite := dt_Rewrite d \<or> list_ex routes ss,
     dt_Sink := dt_Sink d \<or> ss \<noteq> [], dt_Processor := dt_Processor d \<or> list_ex route_with_processors ss,
     dt_ForwardSink := dt_ForwardSink d \<or> list_ex forwards ss\<rparr>"

lemma marks_sinks: "marks (dot_sinks pid prev j ss d) = use_marks ss (marks d)"
proof (induction pid prev j ss d rule: dot_sinks.induct)
  case (2 pid prev j s ss d)
  show ?case
  proof (cases s)
    case (Leaf l)
    with 2 show ?thesis
      by (simp add: dot_leaf_def Let_def)
        (simp add: marks_def use_marks_def forwards_def routes_def route_with_processors_def isForwardingSink_def
          split: sink_value.splits)
  next
    case (Route r)
    with 2 show ?thesis
      by (simp add: marks_route)
        (auto simp: route_marks_def use_marks_def forwards_def routes_def route_with_processors_def marks_def)
  qed
qed (simp add: use_marks_def)

lemma marks_pipelines:
  "marks (dot_pipelines i ps d) =
     (use_marks (concat (map pv_Sinks ps)) (marks d))\<lparr>dt_Processor := dt_Processor d \<or>
        list_ex route_with_processors (concat (map pv_Sinks ps)) \<or> list_ex (\<lambda>p. pv_Processors p \<noteq> []) ps\<rparr>"
proof (induction i ps d rule: dot_pipelines.induct)
  case (2 i p ps d)
  let ?x = "dot_processors ''  '' (pipeline_id i) (source_id i) 0 (pv_Processors p)
    (out (dot_node ''  '' (source_id i) (source_attrs (source_name p))) d)"
  obtain prev d2 where x: "?x = (prev, d2)" by (cases ?x)
  with marks_processors [of "''  ''" "pipeline_id i" "source_id i" 0 "pv_Processors p"
      "out (dot_node ''  '' (source_id i) (source_attrs (source_name p))) d"]
  have m: "marks d2 = (marks d)\<lparr>dt_Processor := dt_Processor d \<or> pv_Processors p \<noteq> []\<rparr>"
    by simp
  let ?d3 = "dot_sinks (pipeline_id i) prev 0 (pv_Sinks p) d2"
  have "dt_Processor ?d3 = dt_Processor (marks ?d3)" by (simp add: marks_def)
  then have d3: "dt_Processor ?d3 \<longleftrightarrow>
      dt_Processor d \<or> pv_Processors p \<noteq> [] \<or> list_ex route_with_processors (pv_Sinks p)"
    by (simp add: marks_sinks m use_marks_def)
  have "marks (dot_pipelines (Suc i) ps (out newline ?d3)) =
      (use_marks (concat (map pv_Sinks ps)) (marks ?d3))\<lparr>dt_Processor := dt_Processor ?d3 \<or>
        list_ex route_with_processors (concat (map pv_Sinks ps)) \<or> list_ex (\<lambda>p. pv_Processors p \<noteq> []) ps\<rparr>"
    using 2 [OF refl x [symmetric] refl refl] by simp
  with x show ?case
    by (simp add: Let_def marks_sinks m d3) (auto simp: use_marks_def)
qed (simp add: use_marks_def marks_def)

lemma list_ex_concat: "list_ex P (concat (map f xs)) \<longleftrightarrow> (\<exists>x\<in>set xs. list_ex P (f x))"
  by (induction xs) auto

lemma sinks_use:
  "list_ex routes (pv_Sinks p) \<longleftrightarrow> routes_of p \<noteq> []"
  "list_ex forwards (pv_Sinks p) \<longleftrightarrow> (\<exists>f. SForwarding f \<in> set (leaves_of p))"
  "list_ex route_with_processors (pv_Sinks p) \<longleftrightarrow> (\<exists>r\<in>set (routes_of p). rv_Processors r \<noteq> [])"
proof -
  have "list_ex routes ss \<longleftrightarrow> concat (map (\<lambda>k. case k of Route r \<Rightarrow> [r] | Leaf l \<Rightarrow> []) ss) \<noteq> []"
    "list_ex forwards ss \<longleftrightarrow> (\<exists>f. SForwarding f \<in> set (concat (map (\<lambda>k. case k of Route r \<Rightarrow> [] | Leaf l \<Rightarrow> [l]) ss)))"
    "list_ex route_with_processors ss \<longleftrightarrow>
      (\<exists>r\<in>set (concat (map (\<lambda>k. case k of Route r \<Rightarrow> [r] | Leaf l \<Rightarrow> []) ss)). rv_Processors r \<noteq> [])" for ss
    by (induction ss; auto simp: routes_def forwards_def route_with_processors_def split: pipeline_sink.splits)+
  then show "list_ex routes (pv_Sinks p) \<longleftrightarrow> routes_of p \<noteq> []"
    "list_ex forwards (pv_Sinks p) \<longleftrightarrow> (\<exists>f. SForwarding f \<in> set (leaves_of p))"
    "list_ex route_with_processors (pv_Sinks p) \<longleftrightarrow> (\<exists>r\<in>set (routes_of p). rv_Processors r \<noteq> [])"
    unfolding routes_of_def leaves_of_def by blast+
qed

section \<open>Properties of the drawing\<close>

text \<open>
  The legend explains exactly what is drawn: an entry is there exactly when the diagram
  has a node or cluster of its kind.
\<close>

theorem legend_matches_drawing:
  "map (fst \<circ> snd) (filter fst (legend_entries (pipelines \<noteq> [])
      (addCrossPipelineEdges pipelines (dot_pipelines 0 pipelines dot_start)))) =
   (if pipelines \<noteq> [] then [''legend_source''] else []) @
   (if \<exists>p\<in>set pipelines. pv_Processors p \<noteq> [] \<or> (\<exists>r\<in>set (routes_of p). rv_Processors r \<noteq> [])
    then [''legend_proc''] else []) @
   (if \<exists>p\<in>set pipelines. routes_of p \<noteq> [] then [''legend_route'', ''legend_loop'', ''legend_rewrite''] else []) @
   (if \<exists>p\<in>set pipelines. pv_Sinks p \<noteq> [] then [''legend_sink''] else []) @
   (if \<exists>p\<in>set pipelines. \<exists>f. SForwarding f \<in> set (leaves_of p) then [''legend_forward''] else [])"
proof -
  let ?d = "addCrossPipelineEdges pipelines (dot_pipelines 0 pipelines dot_start)"
  let ?ss = "concat (map pv_Sinks pipelines)"
  have m: "marks ?d = (use_marks ?ss (marks dot_start))\<lparr>dt_Processor := dt_Processor dot_start \<or>
      list_ex route_with_processors ?ss \<or> list_ex (\<lambda>p. pv_Processors p \<noteq> []) pipelines\<rparr>"
    by (simp add: addCrossPipelineEdges_def marks_forward marks_pipelines)
  have flags: "dt_Processor ?d = dt_Processor (marks ?d)" "dt_RouteCluster ?d = dt_RouteCluster (marks ?d)"
    "dt_Loop ?d = dt_Loop (marks ?d)" "dt_Rewrite ?d = dt_Rewrite (marks ?d)" "dt_Sink ?d = dt_Sink (marks ?d)"
    "dt_ForwardSink ?d = dt_ForwardSink (marks ?d)" by (simp_all add: marks_def)
  have "map (fst \<circ> snd) (filter fst (legend_entries b ?d)) =
      (if b then [''legend_source''] else []) @ (if dt_Processor ?d then [''legend_proc''] else []) @
      (if dt_RouteCluster ?d then [''legend_route''] else []) @ (if dt_Loop ?d then [''legend_loop''] else []) @
      (if dt_Rewrite ?d then [''legend_rewrite''] else []) @ (if dt_Sink ?d then [''legend_sink''] else []) @
      (if dt_ForwardSink ?d then [''legend_forward''] else [])" for b
    by (simp add: legend_entries_def)
  moreover have "dt_RouteCluster ?d \<longleftrightarrow> (\<exists>p\<in>set pipelines. routes_of p \<noteq> [])"
    "dt_Loop ?d \<longleftrightarrow> (\<exists>p\<in>set pipelines. routes_of p \<noteq> [])"
    "dt_Rewrite ?d \<longleftrightarrow> (\<exists>p\<in>set pipelines. routes_of p \<noteq> [])"
    "dt_ForwardSink ?d \<longleftrightarrow> (\<exists>p\<in>set pipelines. \<exists>f. SForwarding f \<in> set (leaves_of p))"
    "dt_Processor ?d \<longleftrightarrow> (\<exists>p\<in>set pipelines. pv_Processors p \<noteq> [] \<or> (\<exists>r\<in>set (routes_of p). rv_Processors r \<noteq> []))"
    "dt_Sink ?d \<longleftrightarrow> (\<exists>p\<in>set pipelines. pv_Sinks p \<noteq> [])"
    unfolding flags m sinks_use [symmetric]
    by (simp_all add: use_marks_def marks_def dot_start_def list_ex_concat list_ex_iff) blast
  ultimately show ?thesis by simp
qed

text \<open>
  The file is well-formed Graphviz as far as brackets go: when no name contains a quote
  or a brace, every brace that is opened is closed and the quotes come in pairs.  The function
  reports exactly the error of writing that text.
\<close>

theorem dot_file_balanced:
  assumes "\<forall>p\<in>set pipelines. clean_names p"
  shows "count_list (dot_text pipelines) (CHR ''{'') = count_list (dot_text pipelines) (CHR ''}'') \<and>
    even (count_list (dot_text pipelines) (CHR 0x22)) \<and>
    GenerateDotFile write_file pipelines path =
      map_option (Wrapf ''failed to write dot file: '') (write_file path (dot_text pipelines))"
proof -
  let ?d0 = "dot_pipelines 0 pipelines dot_start"
  let ?d = "addCrossPipelineEdges pipelines ?d0"
  have "grows 0 dot_start ?d"
    using grows_trans [OF pipelines_grow [OF assms] forward_pipelines_grow]
    by (simp add: addCrossPipelineEdges_def)
  then obtain t where t: "dt_buf ?d = dot_header @ t" "excess t = 0" "even (quotes t)"
    by (auto simp: grows_def dot_start_def)
  have h: "excess dot_header = 1" "quotes dot_header = 0" by (simp_all add: dot_header_def)
  have "excess (legend b ?d) = 0 \<and> even (quotes (legend b ?d))" for b
    using legend_balanced [of b ?d] by (simp add: balanced_def)
  with t h have "excess (dot_text pipelines) = 0 \<and> even (quotes (dot_text pipelines))"
    by (simp add: dot_text_def Let_def)
  then show ?thesis
    by (auto simp: excess_def quotes_def GenerateDotFile_def split: option.splits)
qed

theorem dot_file_balanced_witness:
  "even (count_list (dot_text relays) (CHR 0x22))"
proof -
  have "\<forall>p\<in>set relays. clean_names p"
    by (simp add: relays_def relay_def to_eth1_def clean_names_def routes_of_def leaves_of_def clean_leaves_def
        FilterName_def ForwardingName_def)
  from dot_file_balanced [OF this] show ?thesis by blast
qed

end
