(* ===== verification/Listener.thy ===== *)
theory Listener
  imports Cli
begin

text \<open>
  \<^verbatim>\<open>cmd/udp-proxy-2020/listener.go\<close>: sockets that listen on the ports of every interface, so
  that the host does not answer with ICMP errors; what they receive is thrown away.  The
  operating system answers through \<open>listen_env\<close>.
\<close>

section \<open>Starting the listeners\<close>

text \<open>The concrete types of \<^verbatim>\<open>net.Addr\<close> that are told apart; a nil address is the empty one.\<close>

datatype net_addr = IPNet ip | IPAddr ip | OtherAddr

record listener =
  ln_iname :: string
  ln_IP :: ip
  ln_Port :: int

text \<open>Whether a port can be bound may depend on the sockets that are open already.\<close>

record listen_env =
  le_InterfaceByName :: "string \<Rightarrow> go_error option"
  le_Addrs :: "string \<Rightarrow> go_error + net_addr list"
  le_ListenUDP :: "listener list \<Rightarrow> ip \<Rightarrow> int \<Rightarrow> go_error option"

fun addr_ip :: "net_addr \<Rightarrow> ip" where
  "addr_ip (IPNet ip) = ip"
| "addr_ip (IPAddr ip) = ip"
| "addr_ip OtherAddr = []"

fun listen_ports :: "listen_env \<Rightarrow> string \<Rightarrow> ip \<Rightarrow> 32 word list \<Rightarrow> listener list \<Rightarrow> listener list" where
  "listen_ports env iname ip [] conns = conns"
| "listen_ports env iname ip (port # ports) conns =
     (case le_ListenUDP env conns ip (sint port) of
        Some err \<Rightarrow> listen_ports env iname ip ports conns
      | None \<Rightarrow> listen_ports env iname ip ports
          (conns @ [\<lparr>ln_iname = iname, ln_IP = ip, ln_Port = sint port\<rparr>]))"

fun listen_addrs :: "listen_env \<Rightarrow> string \<Rightarrow> 32 word list \<Rightarrow> net_addr list \<Rightarrow> listener list \<Rightarrow>
    listener list" where
  "listen_addrs env iname ports [] conns = conns"
| "listen_addrs env iname ports (addr # addrs) conns =
     (let ip = addr_ip addr in
      if ip = [] \<or> is_multicast ip \<or> is_link_local_unicast ip \<or> is_loopback ip
      then listen_addrs env iname ports addrs conns
      else listen_addrs env iname ports addrs (listen_ports env iname ip ports conns))"

fun listen_interfaces :: "listen_env \<Rightarrow> 32 word list \<Rightarrow> string list \<Rightarrow> listener list \<Rightarrow> listener list" where
  "listen_interfaces env ports [] conns = conns"
| "listen_interfaces env ports (iname # inames) conns =
     (case le_InterfaceByName env iname of
        Some err \<Rightarrow> listen_interfaces env ports inames conns
      | None \<Rightarrow> (case le_Addrs env iname of
          Inl err \<Rightarrow> listen_interfaces env ports inames conns
        | Inr ifaceAddrs \<Rightarrow>
            listen_interfaces env ports inames (listen_addrs env iname ports ifaceAddrs conns)))"

text \<open>Each socket is one goroutine and one unit of the wait group.\<close>

definition startUDPListeners :: "listen_env \<Rightarrow> cli \<Rightarrow> listener list" where
  "startUDPListeners env cli = listen_interfaces env (c_Port cli) (c_Interface cli) []"

section \<open>A listener's loop\<close>

text \<open>
  What happens in a turn of the loop: the context is done, the deadline cannot be set, or the
  read gives a datagram, a timeout or another error.
\<close>

datatype turn = ContextDone | DeadlineError go_error | Datagram "byte list" | ReadTimeout | ReadError go_error

fun returns :: "turn \<Rightarrow> bool" where
  "returns ContextDone = True"
| "returns (DeadlineError err) = True"
| "returns (ReadError err) = True"
| "returns (Datagram bs) = False"
| "returns ReadTimeout = False"

text \<open>
  The loop over its turns, with the number of units in the wait group and whether the socket
  is open: \<open>None\<close> while it runs, otherwise the state after the deferred calls.
\<close>

fun listener_loop :: "turn list \<Rightarrow> nat \<times> bool \<Rightarrow> (nat \<times> bool) option" where
  "listener_loop [] st = None"
| "listener_loop (t # ts) (wg, is_open) =
     (if returns t then Some (wg - 1, False) else listener_loop ts (wg, is_open))"

section \<open>Lemmas\<close>

text \<open>The nested loops as one loop over the sockets to open.\<close>

definition usable :: "ip \<Rightarrow> bool" where
  "usable ip \<longleftrightarrow> ip \<noteq> [] \<and> \<not> is_multicast ip \<and> \<not> is_link_local_unicast ip \<and> \<not> is_loopback ip"

definition wanted :: "listen_env \<Rightarrow> 32 word list \<Rightarrow> string list \<Rightarrow> listener list" where
  "wanted env ports inames = concat (map (\<lambda>iname.
     case (le_InterfaceByName env iname, le_Addrs env iname) of
       (None, Inr addrs) \<Rightarrow> concat (map (\<lambda>ip. map (\<lambda>port. \<lparr>ln_iname = iname, ln_IP = ip, ln_Port = sint port\<rparr>) ports)
         (filter usable (map addr_ip addrs)))
     | _ \<Rightarrow> []) inames)"

definition try_listen :: "listen_env \<Rightarrow> listener list \<Rightarrow> listener \<Rightarrow> listener list" where
  "try_listen env conns l =
     (if le_ListenUDP env conns (ln_IP l) (ln_Port l) = None then conns @ [l] else conns)"

lemma listen_ports_fold:
  "listen_ports env iname ip ports conns =
     foldl (try_listen env) conns (map (\<lambda>port. \<lparr>ln_iname = iname, ln_IP = ip, ln_Port = sint port\<rparr>) ports)"
  by (induction ports arbitrary: conns) (simp_all add: try_listen_def split: option.splits)

lemma listen_addrs_fold:
  "listen_addrs env iname ports addrs conns =
     foldl (try_listen env) conns (concat (map (\<lambda>ip. map (\<lambda>port. \<lparr>ln_iname = iname, ln_IP = ip, ln_Port = sint port\<rparr>) ports)
       (filter usable (map addr_ip addrs))))"
  by (induction addrs arbitrary: conns) (auto simp: listen_ports_fold usable_def Let_def)

lemma listen_interfaces_fold:
  "listen_interfaces env ports inames conns = foldl (try_listen env) conns (wanted env ports inames)"
  by (induction inames arbitrary: conns)
    (simp_all add: wanted_def listen_addrs_fold split: option.splits sum.splits)

lemma try_listen_invariant:
  "set (foldl (try_listen env) conns ls) \<subseteq> set conns \<union> set ls"
proof (induction ls arbitrary: conns)
  case (Cons l ls)
  have "set (try_listen env conns l) \<subseteq> set conns \<union> {l}" by (auto simp: try_listen_def)
  with Cons [of "try_listen env conns l"] show ?case by auto
qed simp

section \<open>Properties\<close>

text \<open>
  C39. The listeners are those that one pass over the interfaces, their addresses and the
  ports opens, in this order, each wanted socket being tried once with the sockets before it
  open; an interface without addresses, an unusable address or a port in use only costs its
  own sockets.  No socket listens on a loopback, multicast, link-local or missing address.
\<close>

theorem startUDPListeners_flat:
  "startUDPListeners env cli = foldl
     (\<lambda>conns l. if le_ListenUDP env conns (ln_IP l) (ln_Port l) = None then conns @ [l] else conns) []
     (wanted env (c_Port cli) (c_Interface cli)) \<and>
   (\<forall>l\<in>set (startUDPListeners env cli). ln_iname l \<in> set (c_Interface cli) \<and>
      ln_Port l \<in> sint ` set (c_Port cli) \<and> ln_IP l \<noteq> [] \<and> \<not> is_multicast (ln_IP l) \<and>
      \<not> is_link_local_unicast (ln_IP l) \<and> \<not> is_loopback (ln_IP l))"
proof -
  have eq: "startUDPListeners env cli = foldl (try_listen env) [] (wanted env (c_Port cli) (c_Interface cli))"
    by (simp add: startUDPListeners_def listen_interfaces_fold)
  have "ln_iname l \<in> set (c_Interface cli) \<and> ln_Port l \<in> sint ` set (c_Port cli) \<and> usable (ln_IP l)"
    if "l \<in> set (wanted env (c_Port cli) (c_Interface cli))" for l
    using that by (auto simp: wanted_def split: option.splits sum.splits)
  moreover have "set (startUDPListeners env cli) \<subseteq> set (wanted env (c_Port cli) (c_Interface cli))"
    using try_listen_invariant [of env "[]"] by (simp add: eq)
  ultimately have "\<forall>l\<in>set (startUDPListeners env cli). ln_iname l \<in> set (c_Interface cli) \<and>
      ln_Port l \<in> sint ` set (c_Port cli) \<and> usable (ln_IP l)" by blast
  moreover have "try_listen env = (\<lambda>conns l. if le_ListenUDP env conns (ln_IP l) (ln_Port l) = None then conns @ [l] else conns)"
    by (simp add: fun_eq_iff try_listen_def)
  ultimately show ?thesis by (simp add: eq usable_def)
qed

theorem startUDPListeners_flat_witness:
  "startUDPListeners \<lparr>le_InterfaceByName = (\<lambda>i. None),
      le_Addrs = (\<lambda>i. Inr [IPNet [127, 0, 0, 1], IPNet [10, 0, 0, 1], OtherAddr]),
      le_ListenUDP = (\<lambda>conns ip port. if port = 53 then Some (Errorf ''in use'') else None)\<rparr>
    \<lparr>c_Interface = [''eth0''], c_FixedIp = [], c_Port = [53, 9003], c_Timeout = 250, c_CacheTTL = 180,
     c_DeliverLocal = False, c_Level = ''info'', c_LogLines = False, c_Logfile = ''stderr'', c_NoListen = False,
     c_Decode = False, c_Pcap = False, c_PcapPath = ''/root'', c_GraphPipeline = '''', c_ListInterfaces = False,
     c_Version = False\<rparr> = [\<lparr>ln_iname = ''eth0'', ln_IP = [10, 0, 0, 1], ln_Port = 9003\<rparr>]"
  by (subst startUDPListeners_flat [THEN conjunct1])
    (simp add: wanted_def usable_def is_multicast_def is_link_local_unicast_def is_loopback_def to4_def)

text \<open>
  A listener runs exactly until its context is done or its socket fails, whatever it
  receives and however often its read times out before; then its socket is closed and the
  wait group has one unit less.
\<close>

theorem listener_stops:
  "listener_loop ts (wg, True) =
     (if \<exists>t\<in>set ts. t = ContextDone \<or> (\<exists>err. t = DeadlineError err \<or> t = ReadError err)
      then Some (wg - 1, False) else None)"
proof (induction ts)
  case (Cons t ts)
  then show ?case by (cases t) auto
qed simp

end
