(* ===== verification/SetupFilter.thy ===== *)
theory SetupFilter
  imports Setup
begin

text \<open>
  What the set-up leaves on the handles of the sources: each is the cached handle of its
  interface and has the BPF filter for the given ports and the addresses of the interface.
  The handles that the operating system opens must be different ones: a handle that is
  opened has no filter, whatever an equal one had before.
\<close>

definition answers_apart :: "os_env \<Rightarrow> string set \<Rightarrow> bool" where
  "answers_apart env I \<longleftrightarrow> (\<forall>i\<in>I. \<forall>h. an_Activate (en_reader env i) = Inr h \<longrightarrow>
     (\<forall>j\<in>I. an_Activate (en_reader env j) = Inr h \<longrightarrow> j = i) \<and>
     (\<forall>src dst. an_Activate (en_writer env src dst) \<noteq> Inr h))"

lemma answers_apart_reader:
  "answers_apart env I \<Longrightarrow> i \<in> I \<Longrightarrow> j \<in> I \<Longrightarrow> an_Activate (en_reader env i) = Inr h \<Longrightarrow>
     an_Activate (en_reader env j) = Inr h \<Longrightarrow> j = i"
  unfolding answers_apart_def by blast

lemma answers_apart_writer:
  "answers_apart env I \<Longrightarrow> i \<in> I \<Longrightarrow> an_Activate (en_reader env i) = Inr h \<Longrightarrow>
     an_Activate (en_writer env src dst) \<noteq> Inr h"
  unfolding answers_apart_def by blast

section \<open>Opening\<close>

lemma CreateReaderHandle_filter:
  assumes "CreateReaderHandle goos show_lt ans i promisc timeout (dm, os) = (Inr h, dm', os')"
  shows "dm_interfaces dm' = dm_interfaces dm \<and>
    (if dm_handles dm (deviceManagerKey i Reader) = None
     then an_Activate ans = Inr h \<and> dm_handles dm' = (dm_handles dm)(deviceManagerKey i Reader \<mapsto> h) \<and>
       pc_filter os' = (pc_filter os)(h := None)
     else dm_handles dm (deviceManagerKey i Reader) = Some h \<and> dm_handles dm' = dm_handles dm \<and>
       pc_filter os' = pc_filter os)"
  using assms
  by (auto simp: CreateReaderHandle_def activate_reader_def pcap_ops Let_def
      split: option.splits sum.splits if_splits prod.splits)

lemma NewPcapSource_filter:
  assumes "NewPcapSource goos show_lt ans i promisc timeout (dm, os) = (Inr src, dm', os')"
  shows "so_iname src = i \<and> dm_interfaces dm' = dm_interfaces dm \<and>
    (if dm_handles dm (deviceManagerKey i Reader) = None
     then an_Activate ans = Inr (so_handle src) \<and>
       dm_handles dm' = (dm_handles dm)(deviceManagerKey i Reader \<mapsto> so_handle src) \<and>
       pc_filter os' = (pc_filter os)(so_handle src := None)
     else dm_handles dm (deviceManagerKey i Reader) = Some (so_handle src) \<and>
       dm_handles dm' = dm_handles dm \<and> pc_filter os' = pc_filter os)"
proof -
  from assms obtain h where "CreateReaderHandle goos show_lt ans i promisc timeout (dm, os) = (Inr h, dm', os')"
    and "so_iname src = i" "so_handle src = h"
    by (auto simp: NewPcapSource_def startInterfaceMonitor_def split: prod.splits sum.splits)
  with CreateReaderHandle_filter [OF this(1)] show ?thesis by simp
qed

lemma isolated_filter:
  assumes "CreateIsolatedWriterHandle goos show_lt ans i (dm, os) = (Inr h, s')"
  shows "an_Activate ans = Inr h \<and> fst s' = dm \<and> pc_filter (snd s') = (pc_filter os)(h := None)"
  using assms by (auto simp: CreateIsolatedWriterHandle_def newWriterHandle_def pcap_ops
      split: option.splits sum.splits if_splits prod.splits)

section \<open>The invariant of the set-up\<close>

text \<open>
  \<open>dm\<close> is the device manager before the set-up: its interfaces do not change, the cached
  handles are those that were opened for the interface, and a source has the cached one.
\<close>

definition filtered :: "cli \<Rightarrow> device_manager \<Rightarrow> pcap_state \<Rightarrow> pcap_source \<Rightarrow> bool" where
  "filtered cli dm os src \<longleftrightarrow> (\<exists>addrs. GetAddresses (so_iname src) dm = Inr addrs \<and>
     pc_filter os (so_handle src) = Some (BuildBPFFilter (c_Port cli) addrs))"

definition setup_inv :: "os_env \<Rightarrow> cli \<Rightarrow> device_manager \<Rightarrow> string set \<Rightarrow> pcap_source list \<Rightarrow> dm_state \<Rightarrow> bool" where
  "setup_inv env cli dm I srcs s \<longleftrightarrow> dm_interfaces (fst s) = dm_interfaces dm \<and>
     (\<forall>i h. cached_handle i Reader s = Some h \<longrightarrow> i \<in> I \<and> an_Activate (en_reader env i) = Inr h) \<and>
     (\<forall>src\<in>set srcs. cached_handle (so_iname src) Reader s = Some (so_handle src) \<and>
        filtered cli dm (snd s) src)"

lemma setup_inv_reader:
  "setup_inv env cli dm I srcs s \<Longrightarrow> src \<in> set srcs \<Longrightarrow>
     so_iname src \<in> I \<and> an_Activate (en_reader env (so_iname src)) = Inr (so_handle src)"
  unfolding setup_inv_def by blast

lemma setup_inv_source:
  assumes inv: "setup_inv env cli dm I srcs (dm0, os0)" and apart: "answers_apart env I" and "i \<in> I"
    and new: "NewPcapSource goos show_lt (en_reader env i) i promisc timeout (dm0, os0) = (Inr src, dm1, os1)"
    and addrs: "GetAddresses i dm1 = Inr addrs"
  shows "setup_inv env cli dm I (srcs @ [src])
    (dm1, os1\<lparr>pc_filter := (pc_filter os1)(so_handle src \<mapsto> BuildBPFFilter (c_Port cli) addrs)\<rparr>)"
proof -
  note n = NewPcapSource_filter [OF new]
  let ?os = "os1\<lparr>pc_filter := (pc_filter os1)(so_handle src \<mapsto> BuildBPFFilter (c_Port cli) addrs)\<rparr>"
  have ifs: "dm_interfaces dm1 = dm_interfaces dm" using n inv by (simp add: setup_inv_def)
  have iname: "so_iname src = i" using n by blast
  have here: "dm_handles dm1 (deviceManagerKey i Reader) = Some (so_handle src)"
    using n by (simp split: if_splits)
  have act: "an_Activate (en_reader env i) = Inr (so_handle src)"
    using n inv by (auto simp: setup_inv_def cached_handle_def split: if_splits)
  have cached: "dm_handles dm1 (deviceManagerKey j Reader) = dm_handles dm0 (deviceManagerKey j Reader)"
    if "j \<noteq> i" for j using n that by (auto simp: reader_key split: if_splits)
  have self: "filtered cli dm ?os src"
    using addrs ifs iname by (simp add: filtered_def GetAddresses_def)
  have other: "dm_handles dm1 (deviceManagerKey (so_iname x) Reader) = Some (so_handle x) \<and> filtered cli dm ?os x"
    if x: "x \<in> set srcs" for x
  proof -
    note xa = setup_inv_reader [OF inv x]
    have f: "filtered cli dm os0 x" and xc: "dm_handles dm0 (deviceManagerKey (so_iname x) Reader) = Some (so_handle x)"
      using inv x by (simp_all add: setup_inv_def cached_handle_def)
    show ?thesis
    proof (cases "so_iname x = i")
      case True
      then have "so_handle x = so_handle src" using xa act by simp
      with True here self iname show ?thesis by (simp add: filtered_def)
    next
      case False
      then have "so_handle x \<noteq> so_handle src" using answers_apart_reader [OF apart \<open>i \<in> I\<close> _ act] xa by auto
      with n have "pc_filter ?os (so_handle x) = pc_filter os0 (so_handle x)" by (simp split: if_splits)
      with f xc cached [OF False] show ?thesis by (simp add: filtered_def)
    qed
  qed
  have keys: "j \<in> I \<and> an_Activate (en_reader env j) = Inr h"
    if "dm_handles dm1 (deviceManagerKey j Reader) = Some h" for j h
  proof (cases "j = i")
    case True
    with that here act \<open>i \<in> I\<close> show ?thesis by simp
  next
    case False
    with that cached [OF False] inv show ?thesis by (simp add: setup_inv_def cached_handle_def)
  qed
  show ?thesis
    unfolding setup_inv_def cached_handle_def fst_conv snd_conv set_append set_simps
    using ifs keys other self here iname by auto
qed

lemma setup_base_dm:
  "setup_base env cli iname lt s = (Inr p, s') \<Longrightarrow> su_dm s' = su_dm s \<and> su_sources s' = su_sources s"
  by (auto simp: setup_base_def addPcapFileSink_def bind_setup_Inr create_pcap_file_Inr Let_def split: if_splits)

lemma setupInterfacePipeline_inv:
  assumes "setupInterfacePipeline env cli n iname timeout s = (Inr (st, p, src), s')"
    and "setup_inv env cli dm I (su_sources s) (su_dm s)" and "answers_apart env I" and "iname \<in> I"
  shows "setup_inv env cli dm I (su_sources s' @ [src]) (su_dm s')"
proof -
  obtain dm0 os0 where s: "su_dm s = (dm0, os0)" by (cases "su_dm s")
  from assms(1) obtain netif dm1 os1 addrs where
    new: "NewPcapSource (en_goos env) (en_link_string env) (en_reader env iname) iname
        (\<not> has_broadcast netif) timeout (dm0, os0) = (Inr src, dm1, os1)"
    and addrs: "GetAddresses iname dm1 = Inr addrs"
    and b: "setup_base env cli iname (handle_LinkType os1 (so_handle src))
        (set_filter (so_handle src) (BuildBPFFilter (c_Port cli) addrs) (s\<lparr>su_dm := (dm1, os1)\<rparr>)) = (Inr p, s')"
    by (auto simp: s setupInterfacePipeline_def bind_setup_Inr case_failure_Inr Let_def
        split: sum.splits prod.splits option.splits)
  from setup_inv_source [OF assms(2) [unfolded s] assms(3,4) new addrs] setup_base_dm [OF b]
  show ?thesis by (simp add: set_filter_def)
qed

lemma setup_interfaces_inv:
  "setup_interfaces env cli timeout inames states s = (Inr states', s') \<Longrightarrow>
   setup_inv env cli dm I (su_sources s) (su_dm s) \<Longrightarrow> answers_apart env I \<Longrightarrow> set inames \<subseteq> I \<Longrightarrow>
     setup_inv env cli dm I (su_sources s') (su_dm s')"
proof (induction inames arbitrary: states s)
  case (Cons iname inames)
  from Cons.prems(1) obtain st p src s1 where
    a: "setupInterfacePipeline env cli (length (su_pipelines s)) iname timeout s = (Inr (st, p, src), s1)"
    and b: "setup_interfaces env cli timeout inames (states @ [st])
      (s1\<lparr>su_pipelines := su_pipelines s1 @ [p], su_sources := su_sources s1 @ [src]\<rparr>) = (Inr states', s')"
    by (auto simp: bind_setup_Inr)
  from setupInterfacePipeline_inv [OF a Cons.prems(2,3)] Cons.prems(3,4) show ?case
    by (intro Cons.IH [OF b]) simp_all
qed simp

lemma setup_inv_writer:
  assumes "setup_inv env cli dm I srcs (dm0, os0)" and "answers_apart env I"
    and "an_Activate (en_writer env src dst) = Inr h"
    and "fst s' = dm0" and "pc_filter (snd s') = (pc_filter os0)(h := None)"
  shows "setup_inv env cli dm I srcs s'"
proof -
  have "filtered cli dm (snd s') x" if x: "x \<in> set srcs" for x
  proof -
    have "so_handle x \<noteq> h"
      using setup_inv_reader [OF assms(1) x] answers_apart_writer [OF assms(2)] assms(3) by blast
    moreover have "filtered cli dm os0 x" using assms(1) x by (simp add: setup_inv_def)
    ultimately show ?thesis by (simp add: filtered_def assms(5))
  qed
  with assms(1,4) show ?thesis by (simp add: setup_inv_def cached_handle_def)
qed

lemma setupCrossInterfaceSink_inv:
  assumes "setupCrossInterfaceSink env cli src dst s = (Inr u, s')"
    and "setup_inv env cli dm I (su_sources s) (su_dm s)" and "answers_apart env I"
  shows "setup_inv env cli dm I (su_sources s') (su_dm s')"
proof -
  obtain dm0 os0 where s: "su_dm s = (dm0, os0)" by (cases "su_dm s")
  obtain opened d where c: "CreateIsolatedWriterHandle (en_goos env) (en_link_string env)
      (en_writer env (is_name src) (is_name dst)) (is_name dst) (dm0, os0) = (opened, d)"
    by (cases "CreateIsolatedWriterHandle (en_goos env) (en_link_string env)
      (en_writer env (is_name src) (is_name dst)) (is_name dst) (dm0, os0)")
  with assms(1) obtain t where t: "NewTransmitterSink opened (is_name dst) = Inr t"
    by (cases "NewTransmitterSink opened (is_name dst)") (simp_all add: s setupCrossInterfaceSink_def Let_def)
  then obtain h where h: "opened = Inr h" by (cases opened) (simp_all add: NewTransmitterSink_def)
  have "su_sources s' = su_sources s" "su_dm s' = d"
    using assms(1) c t
    by (auto simp: s setupCrossInterfaceSink_def addRoutePcapFileSink_def bind_setup_Inr
        create_pcap_file_Inr Let_def split: if_splits)
  moreover have d: "an_Activate (en_writer env (is_name src) (is_name dst)) = Inr h" "fst d = dm0"
    "pc_filter (snd d) = (pc_filter os0)(h := None)" using isolated_filter [OF c [unfolded h]] by simp_all
  ultimately show ?thesis using setup_inv_writer [OF assms(2) [unfolded s] assms(3) d] by simp
qed

lemma run_pairs_inv:
  "run_pairs (setupCrossInterfaceSink env cli) ps s = (Inr u, s') \<Longrightarrow>
   setup_inv env cli dm I (su_sources s) (su_dm s) \<Longrightarrow> answers_apart env I \<Longrightarrow>
     setup_inv env cli dm I (su_sources s') (su_dm s')"
proof (induction ps arbitrary: s)
  case (Cons p ps)
  then obtain s1 where f: "setupCrossInterfaceSink env cli (fst p) (snd p) s = (Inr (), s1)"
    and g: "run_pairs (setupCrossInterfaceSink env cli) ps s1 = (Inr u, s')"
    by (auto simp: bind_setup_Inr)
  from Cons.IH [OF g setupCrossInterfaceSink_inv [OF f Cons.prems(2,3)] Cons.prems(3)] show ?case .
qed simp

lemma setup_filters:
  assumes "setupPipelines env cli (dm, os) timeout ttl = (Inr registries, s)" and "dm_handles dm = Map.empty"
    and "active_interfaces env cli dm = Inr L" and "answers_apart env (set L)"
  shows "setup_inv env cli dm (set L) (su_sources s) (su_dm s)"
proof -
  let ?s = "\<lparr>su_dm = (dm, os), su_sources = [], su_pipelines = [], su_transmitters = [], su_files = []\<rparr>"
  from assms(1,3) obtain states s1 u where
    i: "setup_interfaces env cli timeout L [] ?s = (Inr states, s1)"
    and c: "attachCrossInterfaceSinks (setupCrossInterfaceSink env cli) states s1 = (Inr u, s)"
    by (auto simp: setupPipelines_def bind_setup_Inr Let_def split: sum.splits)
  have "setup_inv env cli dm (set L) (su_sources ?s) (su_dm ?s)"
    using assms(2) by (simp add: setup_inv_def cached_handle_def)
  from run_pairs_inv [OF c [unfolded attach_pairs] setup_interfaces_inv [OF i this assms(4)] assms(4)]
  show ?thesis by simp
qed

end
