(* ===== verification/MainProgram.thy ===== *)
theory MainProgram
  imports Graphviz Listener SetupFilter
begin

text \<open>
  \<^verbatim>\<open>main\<close> of \<^verbatim>\<open>cmd/udp-proxy-2020/main.go\<close>: from the command line to the running pipelines,
  or to the exit.  \<^verbatim>\<open>os.Exit\<close> skips the deferred calls; a return runs them, which closes the
  cached handles, and gives the exit code 0.
\<close>

section \<open>The program\<close>

datatype outcome =
    Exited nat
  | Returned dm_state                                        \<comment> \<open>after the deferred calls\<close>
  | Started setup_state "registry list" "listener list"      \<comment> \<open>the goroutines are started\<close>

record main_env =
  me_build :: build_info
  me_OpenFile :: "string \<Rightarrow> go_error option"
  me_FindAllDevs :: "go_error + pcap_interface list"
  me_pcap :: pcap_state
  me_os :: os_env
  me_WriteFile :: "string \<Rightarrow> string \<Rightarrow> go_error option"
  me_listen :: listen_env
  me_close_order :: "device_manager \<Rightarrow> string list"
  me_list_order :: "device_manager \<Rightarrow> string list"

text \<open>What is printed on the standard output comes with the outcome.\<close>

definition run_main :: "main_env \<Rightarrow> cli \<Rightarrow> string \<times> outcome" where
  "run_main env args =
     (case parseArgs (me_build env) args of
        (printed, complaint, Inl (Exit n)) \<Rightarrow> (printed, Exited n)
      | (printed, complaint, Inl (Failed err)) \<Rightarrow> (printed, Exited 1)
      | (printed, complaint, Inr cli) \<Rightarrow>
          (case setupLogging (me_OpenFile env) cli of
             Inl e \<Rightarrow> (printed, Exited 1)
           | Inr handler \<Rightarrow>
               (case getDurations cli of
                  Inl e \<Rightarrow> (printed, Exited 1)
                | Inr (timeout, ttl) \<Rightarrow>
                    (case NewDeviceManager (me_FindAllDevs env) of
                       Inl err \<Rightarrow> (printed, Exited 1)
                     | Inr dm \<Rightarrow>
                         if c_ListInterfaces cli
                         then (printed @ ListInterfaces (me_list_order env dm) dm, Exited 0)
                         else (case setupPipelines (me_os env) cli (dm, me_pcap env) timeout ttl of
                             (Inl (Exit n), s) \<Rightarrow> (printed, Exited n)
                           | (Inl (Failed err), s) \<Rightarrow>
                               (printed, Returned (CloseHandles (me_close_order env (fst (su_dm s))) (su_dm s)))
                           | (Inr registries, s) \<Rightarrow>
                               if c_GraphPipeline cli \<noteq> ''''
                               then (case GenerateDotFile (me_WriteFile env) (su_pipelines s) (c_GraphPipeline cli) of
                                   Some err \<Rightarrow> (printed, Exited 1)
                                 | None \<Rightarrow> (printed, Exited 0))
                               else (printed, Started s registries
                                 (if c_NoListen cli then [] else startUDPListeners (me_listen env) cli)))))))"

text \<open>The exit code; a running program has none yet.\<close>

fun exit_code :: "outcome \<Rightarrow> nat option" where
  "exit_code (Exited n) = Some n"
| "exit_code (Returned s) = Some 0"
| "exit_code (Started s registries listeners) = None"

section \<open>Lemmas\<close>

lemma parseArgs_Inr:
  "parseArgs b args = (printed, complaint, Inr cli) \<Longrightarrow> cli = args \<and> printed = '''' \<and>
     (c_ListInterfaces args \<or> 2 \<le> length (c_Interface args) \<and> c_Port args \<noteq> [])"
  by (auto simp: parseArgs_def split: if_splits)

lemma getDurations_Inr:
  "getDurations cli = Inr (timeout, ttl) \<Longrightarrow> ttl = sint (c_CacheTTL cli) * 60 * 10 ^ 9"
  by (auto simp: getDurations_def parse_minutes_def Minute_def Let_def split: if_splits)

lemma buildSharedRegistries_TTL:
  "buildSharedRegistries env ttl m = Inr registries \<Longrightarrow> \<exists>registry. registries = [registry] \<and> rg_TTL registry = ttl"
  by (auto simp: buildSharedRegistries_def NewRegistryProcessorByInterface_def split: sum.splits)

lemma NewDeviceManager_empty: "NewDeviceManager found = Inr dm \<Longrightarrow> dm_handles dm = Map.empty"
  by (auto simp: NewDeviceManager_def Refresh_def Let_def split: sum.splits)

text \<open>What a program has got through when it sets its pipelines up.\<close>

definition reaches_setup :: "main_env \<Rightarrow> cli \<Rightarrow> device_manager \<Rightarrow> duration \<Rightarrow> duration \<Rightarrow> bool" where
  "reaches_setup env cli dm timeout ttl \<longleftrightarrow> (\<exists>printed complaint handler.
     parseArgs (me_build env) cli = (printed, complaint, Inr cli) \<and>
     setupLogging (me_OpenFile env) cli = Inr handler \<and> getDurations cli = Inr (timeout, ttl) \<and>
     NewDeviceManager (me_FindAllDevs env) = Inr dm \<and> \<not> c_ListInterfaces cli)"

lemma run_main_setup:
  assumes "reaches_setup env cli dm timeout ttl"
  shows "run_main env cli = ('''', case setupPipelines (me_os env) cli (dm, me_pcap env) timeout ttl of
     (Inl (Exit n), s) \<Rightarrow> Exited n
   | (Inl (Failed err), s) \<Rightarrow> Returned (CloseHandles (me_close_order env (fst (su_dm s))) (su_dm s))
   | (Inr registries, s) \<Rightarrow>
       if c_GraphPipeline cli \<noteq> ''''
       then (case GenerateDotFile (me_WriteFile env) (su_pipelines s) (c_GraphPipeline cli) of
           Some err \<Rightarrow> Exited 1 | None \<Rightarrow> Exited 0)
       else Started s registries (if c_NoListen cli then [] else startUDPListeners (me_listen env) cli))"
proof -
  from assms obtain printed complaint handler where
    "parseArgs (me_build env) cli = (printed, complaint, Inr cli)"
    "setupLogging (me_OpenFile env) cli = Inr handler" "getDurations cli = Inr (timeout, ttl)"
    "NewDeviceManager (me_FindAllDevs env) = Inr dm" "\<not> c_ListInterfaces cli"
    unfolding reaches_setup_def by blast
  with parseArgs_Inr [OF this(1)] show ?thesis
    by (simp add: run_main_def split: sum.splits prod.splits failure.splits option.splits)
qed

lemma run_main_running:
  assumes "run_main env cli = (printed, Started s registries listeners)"
  shows "\<exists>dm timeout ttl. reaches_setup env cli dm timeout ttl \<and>
    setupPipelines (me_os env) cli (dm, me_pcap env) timeout ttl = (Inr registries, s) \<and>
    c_GraphPipeline cli = '''' \<and>
    listeners = (if c_NoListen cli then [] else startUDPListeners (me_listen env) cli)"
proof -
  obtain out complaint r where p: "parseArgs (me_build env) cli = (out, complaint, r)"
    by (cases "parseArgs (me_build env) cli") auto
  then obtain cli' where r: "r = Inr cli'"
    using assms by (cases r) (auto simp: run_main_def split: failure.splits)
  with p parseArgs_Inr have cli: "cli' = cli" by blast
  from assms p r cli obtain handler where h: "setupLogging (me_OpenFile env) cli = Inr handler"
    by (cases "setupLogging (me_OpenFile env) cli") (auto simp: run_main_def)
  from assms p r cli h obtain timeout ttl where d: "getDurations cli = Inr (timeout, ttl)"
    by (cases "getDurations cli") (auto simp: run_main_def)
  from assms p r cli h d obtain dm where m: "NewDeviceManager (me_FindAllDevs env) = Inr dm"
    by (cases "NewDeviceManager (me_FindAllDevs env)") (auto simp: run_main_def)
  from assms p r cli h d m have "\<not> c_ListInterfaces cli" by (auto simp: run_main_def split: if_splits)
  with p r cli h d m have reach: "reaches_setup env cli dm timeout ttl" by (auto simp: reaches_setup_def)
  from assms run_main_setup [OF reach] show ?thesis
    by (intro exI [of _ dm] exI [of _ timeout] exI [of _ ttl])
      (auto simp: reach split: sum.splits prod.splits failure.splits option.splits if_splits)
qed

section \<open>Properties\<close>

text \<open>
  C33. A program that runs: it has two given interfaces and a port or more, no interface
  twice; a source and a pipeline for each of them, in order, and last one for the loopback
  interface of the device manager, which there is, if packets are delivered locally; one
  registry, whose clients live for as many minutes as \<^verbatim>\<open>--cache-ttl\<close> says (the unit that the help
  text of the flag gives, while an example in the README takes 300 for five minutes); the handle
  of each source has the BPF filter for exactly the given ports and the addresses of its
  interface, when the handles that the operating system opens are different ones; and the UDP
  listeners, unless they were switched off.
\<close>

theorem running_program:
  assumes "run_main env cli = (printed, Started s registries listeners)"
  shows "2 \<le> length (c_Interface cli) \<and> c_Port cli \<noteq> [] \<and> distinct (c_Interface cli) \<and>
    (\<exists>registry. registries = [registry] \<and> rg_TTL registry = sint (c_CacheTTL cli) * 60 * 10 ^ 9) \<and>
    (\<exists>dm L. NewDeviceManager (me_FindAllDevs env) = Inr dm \<and>
       L = c_Interface cli @ (if c_DeliverLocal cli then [GetLoopback (en_order (me_os env) AtSetup) dm] else []) \<and>
       (c_DeliverLocal cli \<longrightarrow> GetLoopback (en_order (me_os env) AtSetup) dm \<noteq> '''') \<and>
       map pv_Source (su_pipelines s) = L \<and> map so_iname (su_sources s) = L \<and>
       (answers_apart (me_os env) (set L) \<longrightarrow> (\<forall>src\<in>set (su_sources s).
          \<exists>addrs. GetAddresses (so_iname src) dm = Inr addrs \<and>
            pc_filter (snd (su_dm s)) (so_handle src) = Some (BuildBPFFilter (c_Port cli) addrs)))) \<and>
    listeners = (if c_NoListen cli then [] else startUDPListeners (me_listen env) cli)"
proof -
  from run_main_running [OF assms] obtain dm timeout ttl where
    r: "reaches_setup env cli dm timeout ttl"
    and s: "setupPipelines (me_os env) cli (dm, me_pcap env) timeout ttl = (Inr registries, s)"
    and l: "listeners = (if c_NoListen cli then [] else startUDPListeners (me_listen env) cli)" by blast
  from r have a: "2 \<le> length (c_Interface cli)" "c_Port cli \<noteq> []"
    and t: "ttl = sint (c_CacheTTL cli) * 60 * 10 ^ 9" and dm: "NewDeviceManager (me_FindAllDevs env) = Inr dm"
    by (auto simp: reaches_setup_def dest: parseArgs_Inr getDurations_Inr)
  from setupPipelines_Inr [OF s] obtain L fixedIPs states ps R where
    d: "distinct (c_Interface cli)" and L: "active_interfaces (me_os env) cli dm = Inr L"
    and b: "buildSharedRegistries (me_os env) ttl fixedIPs = Inr registries"
    and parts: "setup_parts cli L states ps R s" by auto
  have len: "length (su_pipelines s) = length L" and so: "map so_iname (su_sources s) = L"
    using parts by (simp_all add: setup_parts_def)
  with setup_parts_routes(1) [OF parts] have pv: "map pv_Source (su_pipelines s) = L"
    by (intro nth_equalityI) simp_all
  have lo: "GetLoopback (en_order (me_os env) AtSetup) dm \<noteq> ''''" if "c_DeliverLocal cli"
    using L that by (auto simp: active_interfaces_def Let_def split: if_splits)
  have f: "\<exists>addrs. GetAddresses (so_iname src) dm = Inr addrs \<and>
      pc_filter (snd (su_dm s)) (so_handle src) = Some (BuildBPFFilter (c_Port cli) addrs)"
    if "answers_apart (me_os env) (set L)" "src \<in> set (su_sources s)" for src
    using setup_filters [OF s NewDeviceManager_empty [OF dm] L that(1)] that(2)
    unfolding setup_inv_def filtered_def by blast
  from buildSharedRegistries_TTL [OF b] t
  have "\<exists>registry. registries = [registry] \<and> rg_TTL registry = sint (c_CacheTTL cli) * 60 * 10 ^ 9" by simp
  with a d l show ?thesis
    by (intro conjI exI [of _ dm] exI [of _ L] dm active_interfaces_Inr [OF L] lo pv so impI ballI f)
qed

definition lab_main :: main_env where
  "lab_main = \<lparr>me_build = \<lparr>bi_Version = ''1'', bi_Buildinfos = '''', bi_Tag = '''', bi_CommitID = '''', bi_Delta = ''''\<rparr>,
     me_OpenFile = (\<lambda>f. None), me_FindAllDevs = Inr [lab_iface ''eth0'' 0, lab_iface ''eth1'' 1],
     me_pcap = no_pcap, me_os = lab_env, me_WriteFile = (\<lambda>p t. None),
     me_listen = \<lparr>le_InterfaceByName = (\<lambda>i. None), le_Addrs = (\<lambda>i. Inr []), le_ListenUDP = (\<lambda>c i p. None)\<rparr>,
     me_close_order = (\<lambda>dm. []), me_list_order = (\<lambda>dm. [])\<rparr>"

lemma lab_reaches_setup:
  "reaches_setup lab_main lab_cli lab_dm 250000000 10800000000000"
  by (simp add: reaches_setup_def parseArgs_def setupLogging_def lab_cli_def lab_main_def getDurations_def
      ParseTimeout_def parse_minutes_def Minute_def NewDeviceManager_def Refresh_def lab_dm_def lab_iface_def
      empty_dm_def Millisecond_def)

lemma lab_setup_ttl: "\<exists>registries s. setupPipelines lab_env lab_cli (lab_dm, no_pcap) 250000000 ttl = (Inr registries, s)"
  by (simp add: lab_run)

lemma lab_runs: "\<exists>s registries listeners. run_main lab_main lab_cli = ('''', Started s registries listeners)"
proof -
  obtain registries s where
    "setupPipelines lab_env lab_cli (lab_dm, no_pcap) 250000000 10800000000000 = (Inr registries, s)"
    using lab_setup_ttl by blast
  moreover have "me_os lab_main = lab_env" "me_pcap lab_main = no_pcap" "c_GraphPipeline lab_cli = ''''"
    by (simp_all add: lab_main_def lab_cli_def)
  ultimately show ?thesis using run_main_setup [OF lab_reaches_setup] by simp
qed

lemma lab_answers_apart: "answers_apart lab_env {''eth0'', ''eth1''}"
  by (auto simp: answers_apart_def lab_env_def all_well_def)

theorem running_program_witness:
  "\<exists>s registries listeners. run_main lab_main lab_cli = ('''', Started s registries listeners) \<and>
     map so_iname (su_sources s) = [''eth0'', ''eth1''] \<and>
     pc_filter (snd (su_dm s)) (so_handle (su_sources s ! 1)) =
       Some (BuildBPFFilter [9003] (if_Addresses (lab_iface ''eth1'' 1)))"
proof -
  obtain s registries listeners where
    r: "run_main lab_main lab_cli = ('''', Started s registries listeners)" using lab_runs by blast
  have cli: "c_Interface lab_cli = [''eth0'', ''eth1'']" "\<not> c_DeliverLocal lab_cli" "c_Port lab_cli = [9003]"
    and env: "me_os lab_main = lab_env" by (simp_all add: lab_cli_def lab_main_def)
  from running_program [OF r] obtain dm where
    dm: "NewDeviceManager (me_FindAllDevs lab_main) = Inr dm"
    and so: "map so_iname (su_sources s) = [''eth0'', ''eth1'']"
    and f: "\<forall>src\<in>set (su_sources s). \<exists>addrs. GetAddresses (so_iname src) dm = Inr addrs \<and>
      pc_filter (snd (su_dm s)) (so_handle src) = Some (BuildBPFFilter [9003] addrs)"
    using lab_answers_apart by (auto simp: cli env)
  have "NewDeviceManager (me_FindAllDevs lab_main) = Inr lab_dm"
    using lab_reaches_setup by (simp add: reaches_setup_def)
  with dm have "dm = lab_dm" by simp
  then have "GetAddresses ''eth1'' dm = Inr (if_Addresses (lab_iface ''eth1'' 1))"
    by (simp add: GetAddresses_def lab_dm_def)
  moreover have "length (su_sources s) = 2" using arg_cong [OF so, of length] by simp
  then have "su_sources s ! 1 \<in> set (su_sources s)" "so_iname (su_sources s ! 1) = ''eth1''"
    using arg_cong [OF so, of "\<lambda>xs. xs ! 1"] by simp_all
  with f obtain addrs where "GetAddresses ''eth1'' dm = Inr addrs"
    "pc_filter (snd (su_dm s)) (so_handle (su_sources s ! 1)) = Some (BuildBPFFilter [9003] addrs)" by metis
  ultimately show ?thesis using r so
    by (intro exI [of _ s] exI [of _ registries] exI [of _ listeners] conjI) simp_all
qed

text \<open>
  C34. The exit code when the set-up fails: the checks that exit give their own code, but an
  error that the set-up reports makes \<^verbatim>\<open>main\<close> return, which is exit code 0, the code of a
  successful run that draws the pipelines; a drawing that cannot be written gives 1.
\<close>

theorem setup_failure_exits_zero:
  assumes "reaches_setup env cli dm timeout ttl"
    and "setupPipelines (me_os env) cli (dm, me_pcap env) timeout ttl = (r, s)"
  shows "exit_code (snd (run_main env cli)) =
    (case r of
       Inl (Exit n) \<Rightarrow> Some n
     | Inl (Failed err) \<Rightarrow> Some 0
     | Inr registries \<Rightarrow>
         if c_GraphPipeline cli = '''' then None
         else if me_WriteFile env (c_GraphPipeline cli) (dot_text (su_pipelines s)) = None then Some 0 else Some 1)"
  using assms(2) run_main_setup [OF assms(1)]
  by (auto simp: GenerateDotFile_def split: sum.splits failure.splits option.splits)

theorem setup_failure_exits_zero_witness:
  "exit_code (snd (run_main (lab_main\<lparr>me_os := lab_env\<lparr>en_InterfaceByName :=
      (\<lambda>i. Inl (Errorf ''no such network interface''))\<rparr>\<rparr>) lab_cli)) = Some 0"
proof -
  let ?os = "lab_env\<lparr>en_InterfaceByName := (\<lambda>i. Inl (Errorf ''no such network interface''))\<rparr>"
  let ?env = "lab_main\<lparr>me_os := ?os\<rparr>"
  have "reaches_setup ?env lab_cli lab_dm 250000000 10800000000000"
    using lab_reaches_setup by (simp add: reaches_setup_def)
  moreover have "me_os ?env = ?os" "me_pcap ?env = no_pcap" by (simp_all add: lab_main_def)
  moreover have "\<exists>err s. setupPipelines ?os lab_cli (lab_dm, no_pcap) 250000000 10800000000000 = (Inl (Failed err), s)"
    by (simp add: lab_run)
  ultimately show ?thesis using setup_failure_exits_zero [of ?env lab_cli lab_dm] by fastforce
qed

end
