(* ===== verification/HandleCalls.thy ===== *)
theory HandleCalls
  imports DeviceManager
begin

text \<open>
  Concurrent calls of the device manager.  \<^verbatim>\<open>CreateReaderHandle\<close> and \<^verbatim>\<open>CreateWriterHandle\<close>
  hold the lock \<^verbatim>\<open>dm.mu\<close> while they look a handle up and again while they store one, but
  not in between, where the handle is opened.  Here each of these sections is a step of its own
  and any number of calls interleave; theory \<open>DeviceManager\<close> has the calls that run alone.
\<close>

section \<open>Sections of a call\<close>

datatype handle_call =
    ReaderCall string bool duration
  | WriterCall string

fun call_key :: "handle_call \<Rightarrow> string" where
  "call_key (ReaderCall iname promisc timeout) = deviceManagerKey iname Reader"
| "call_key (WriterCall iname) = deviceManagerKey iname Writer"

text \<open>How far a goroutine is with its call.\<close>

datatype call_progress =
    Called handle_call
  | Missed handle_call               \<comment> \<open>no handle was in the cache, and the lock is released\<close>
  | Opened handle_call nat           \<comment> \<open>a handle has been opened and is not yet stored\<close>
  | Returned "go_error + nat"

fun lookup_section :: "device_manager \<Rightarrow> handle_call \<Rightarrow> call_progress" where
  "lookup_section dm c = (case dm_handles dm (call_key c) of
       Some handle \<Rightarrow> Returned (Inr handle) | None \<Rightarrow> Missed c)"

fun call_open :: "string \<Rightarrow> (link_type \<Rightarrow> string) \<Rightarrow> pcap_answers \<Rightarrow> handle_call \<Rightarrow> pcap_state \<Rightarrow>
    (go_error + nat) \<times> pcap_state" where
  "call_open goos show_lt ans (ReaderCall iname promisc timeout) os =
     activate_reader goos show_lt promisc timeout ans iname os"
| "call_open goos show_lt ans (WriterCall iname) os = newWriterHandle goos show_lt ans iname os"

definition open_section :: "string \<Rightarrow> (link_type \<Rightarrow> string) \<Rightarrow> pcap_answers \<Rightarrow> handle_call \<Rightarrow>
    pcap_state \<Rightarrow> call_progress \<times> pcap_state" where
  "open_section goos show_lt ans c os = (case call_open goos show_lt ans c os of
       (Inl err, os') \<Rightarrow> (Returned (Inl err), os')
     | (Inr handle, os') \<Rightarrow> (Opened c handle, os'))"

definition store_section :: "handle_call \<Rightarrow> nat \<Rightarrow> device_manager \<Rightarrow> call_progress \<times> device_manager" where
  "store_section c handle dm =
     (Returned (Inr handle), dm\<lparr>dm_handles := (dm_handles dm)(call_key c \<mapsto> handle)\<rparr>)"

section \<open>Interleaved calls\<close>

record handle_world =
  hw_dm :: device_manager
  hw_os :: pcap_state
  hw_calls :: "call_progress list"
  hw_isolated :: "nat list"          \<comment> \<open>handles that transmitters own\<close>

abbreviation hw_set :: "nat \<Rightarrow> call_progress \<Rightarrow> handle_world \<Rightarrow> handle_world" where
  "hw_set i p w \<equiv> w\<lparr>hw_calls := (hw_calls w)[i := p]\<rparr>"

abbreviation hw_state :: "handle_world \<Rightarrow> dm_state" where
  "hw_state w \<equiv> (hw_dm w, hw_os w)"

inductive call_step :: "string \<Rightarrow> (link_type \<Rightarrow> string) \<Rightarrow> handle_world \<Rightarrow> handle_world \<Rightarrow> bool"
  for goos show_lt where
  calls: "call_step goos show_lt w (w\<lparr>hw_calls := hw_calls w @ [Called c]\<rparr>)"
| looks_up: "i < length (hw_calls w) \<Longrightarrow> hw_calls w ! i = Called c \<Longrightarrow>
    call_step goos show_lt w (hw_set i (lookup_section (hw_dm w) c) w)"
| opens: "i < length (hw_calls w) \<Longrightarrow> hw_calls w ! i = Missed c \<Longrightarrow> fresh ans (hw_state w) \<Longrightarrow>
    open_section goos show_lt ans c (hw_os w) = (p, os) \<Longrightarrow>
    call_step goos show_lt w (hw_set i p w\<lparr>hw_os := os\<rparr>)"
| stores: "i < length (hw_calls w) \<Longrightarrow> hw_calls w ! i = Opened c h \<Longrightarrow>
    store_section c h (hw_dm w) = (p, dm) \<Longrightarrow>
    call_step goos show_lt w (hw_set i p w\<lparr>hw_dm := dm\<rparr>)"
| closes: "CloseDevice iname d (hw_state w) = (err, dm, os) \<Longrightarrow>
    call_step goos show_lt w (w\<lparr>hw_dm := dm, hw_os := os\<rparr>)"
| closes_all: "enumerates ks (dm_handles (hw_dm w)) \<Longrightarrow> CloseHandles ks (hw_state w) = (dm, os) \<Longrightarrow>
    call_step goos show_lt w (w\<lparr>hw_dm := dm, hw_os := os\<rparr>)"
| isolates: "fresh ans (hw_state w) \<Longrightarrow>
    CreateIsolatedWriterHandle goos show_lt ans iname (hw_state w) = (r, dm, os) \<Longrightarrow>
    call_step goos show_lt w (w\<lparr>hw_dm := dm, hw_os := os,
      hw_isolated := (case r of Inl e \<Rightarrow> hw_isolated w | Inr h \<Rightarrow> h # hw_isolated w)\<rparr>)"
| releases: "h \<in> set (hw_isolated w) \<Longrightarrow>
    call_step goos show_lt w (w\<lparr>hw_os := close_handle h (hw_os w),
      hw_isolated := removeAll h (hw_isolated w)\<rparr>)"
| refreshes: "Refresh found (hw_dm w) = (err, dm) \<Longrightarrow>
    call_step goos show_lt w (w\<lparr>hw_dm := dm\<rparr>)"

inductive_cases call_stepE: "call_step goos show_lt w w'"

text \<open>A call that is not interrupted is the one of theory \<open>DeviceManager\<close>.\<close>

fun create_alone :: "string \<Rightarrow> (link_type \<Rightarrow> string) \<Rightarrow> pcap_answers \<Rightarrow> handle_call \<Rightarrow> dm_state \<Rightarrow>
    (go_error + nat) \<times> dm_state" where
  "create_alone goos show_lt ans (ReaderCall iname promisc timeout) =
     CreateReaderHandle goos show_lt ans iname promisc timeout"
| "create_alone goos show_lt ans (WriterCall iname) = CreateWriterHandle goos show_lt ans iname"

lemma create_alone_sections:
  "create_alone goos show_lt ans c (dm, os) = (case lookup_section dm c of
     Returned r \<Rightarrow> (r, dm, os)
   | Missed c' \<Rightarrow> (case open_section goos show_lt ans c os of
       (Opened c'' h, os') \<Rightarrow> (Inr h, snd (store_section c h dm), os')
     | (Returned r, os') \<Rightarrow> (r, dm, os')))"
  by (cases c) (auto simp: CreateReaderHandle_def CreateWriterHandle_def open_section_def
      store_section_def split: option.split prod.split sum.split)


theorem uninterrupted_call:
  assumes "i < length (hw_calls w)" and "hw_calls w ! i = Called c" and "fresh ans (hw_state w)"
    and "create_alone goos show_lt ans c (hw_state w) = (r, dm, os)"
  shows "(call_step goos show_lt)\<^sup>*\<^sup>* w (hw_set i (Returned r) w\<lparr>hw_dm := dm, hw_os := os\<rparr>)"
proof (cases "dm_handles (hw_dm w) (call_key c)")
  case (Some h)
  with assms(4) have "r = Inr h" "dm = hw_dm w" "os = hw_os w"
    by (auto simp: create_alone_sections)
  with looks_up [OF assms(1,2), of goos show_lt] Some show ?thesis by (simp add: r_into_rtranclp)
next
  case None
  let ?w = "hw_set i (Missed c) w"
  have "call_step goos show_lt w ?w"
    using looks_up [OF assms(1,2), of goos show_lt] None by simp
  moreover obtain p os1 where o: "open_section goos show_lt ans c (hw_os w) = (p, os1)"
    by (cases "open_section goos show_lt ans c (hw_os w)")
  have "call_step goos show_lt ?w (hw_set i p w\<lparr>hw_os := os1\<rparr>)"
    using opens [of i ?w c ans goos show_lt p os1] assms(1,3) o by simp
  moreover have "(call_step goos show_lt)\<^sup>*\<^sup>* (hw_set i p w\<lparr>hw_os := os1\<rparr>)
      (hw_set i (Returned r) w\<lparr>hw_dm := dm, hw_os := os\<rparr>)"
  proof (cases "\<exists>h. p = Opened c h")
    case True
    then obtain h where p: "p = Opened c h" by blast
    then have r: "r = Inr h" "dm = snd (store_section c h (hw_dm w))" "os = os1"
      using assms(4) None o by (auto simp: create_alone_sections)
    have "call_step goos show_lt (hw_set i p w\<lparr>hw_os := os1\<rparr>)
        (hw_set i (Returned r) (hw_set i p w\<lparr>hw_os := os1\<rparr>)\<lparr>hw_dm := dm\<rparr>)"
      by (rule stores [of _ _ c h]) (use assms(1) p r in \<open>simp_all add: store_section_def\<close>)
    then show ?thesis using r(3) by (cases w) (simp add: r_into_rtranclp)
  next
    case False
    with o have "p = Returned r \<and> dm = hw_dm w \<and> os = os1"
      using assms(4) None
      by (auto simp: create_alone_sections open_section_def split: sum.splits prod.splits)
    then show ?thesis by simp
  qed
  ultimately show ?thesis by (meson converse_rtranclp_into_rtranclp)
qed

section \<open>What holds in every interleaving\<close>

definition at_call :: "handle_world \<Rightarrow> nat \<Rightarrow> call_progress \<Rightarrow> bool" where
  "at_call w i p \<longleftrightarrow> i < length (hw_calls w) \<and> hw_calls w ! i = p"

definition held_handles :: "handle_world \<Rightarrow> nat set" where
  "held_handles w = {h. \<exists>i c. at_call w i (Opened c h)}"

definition cached_handles :: "handle_world \<Rightarrow> nat set" where
  "cached_handles w = ran (dm_handles (hw_dm w))"

definition open_handles :: "handle_world \<Rightarrow> nat set" where
  "open_handles w = set (pc_live (hw_os w))"

text \<open>
  Every handle that somebody knows is open, and known in one place only: in the cache, by a
  call that is about to store it, or by a transmitter.
\<close>

definition calls_inv :: "handle_world \<Rightarrow> bool" where
  "calls_inv w \<longleftrightarrow> dm_inv (hw_state w) \<and>
     held_handles w \<union> set (hw_isolated w) \<subseteq> open_handles w \<and>
     cached_handles w \<inter> held_handles w = {} \<and> cached_handles w \<inter> set (hw_isolated w) = {} \<and>
     held_handles w \<inter> set (hw_isolated w) = {} \<and>
     (\<forall>i j c c' h. at_call w i (Opened c h) \<and> at_call w j (Opened c' h) \<longrightarrow> i = j)"

lemma at_call_set [simp]:
  "at_call (hw_set i p w) j q \<longleftrightarrow> i < length (hw_calls w) \<and> j = i \<and> q = p \<or> j \<noteq> i \<and> at_call w j q"
  by (cases "j = i") (auto simp: at_call_def)

lemma at_call_simps [simp]:
  "at_call (w\<lparr>hw_dm := dm\<rparr>) = at_call w" "at_call (w\<lparr>hw_os := os\<rparr>) = at_call w"
  "at_call (w\<lparr>hw_isolated := hs\<rparr>) = at_call w"
  by (simp_all add: at_call_def fun_eq_iff)

lemma at_call_append:
  "at_call (w\<lparr>hw_calls := hw_calls w @ [p]\<rparr>) j q \<longleftrightarrow> at_call w j q \<or> j = length (hw_calls w) \<and> q = p"
  by (auto simp: at_call_def nth_append)


lemma open_section_outcome:
  assumes "fresh ans (dm, os)" and "open_section goos show_lt ans c os = (p, os')"
  shows "pc_inactive os' = pc_inactive os \<and>
    ((\<exists>e. p = Returned (Inl e)) \<and> pc_live os' = pc_live os \<or>
     (\<exists>h. p = Opened c h \<and> h \<notin> set (pc_live os) \<and> pc_live os' = h # pc_live os))"
proof -
  obtain r os1 where r: "call_open goos show_lt ans c os = (r, os1)"
    by (cases "call_open goos show_lt ans c os")
  have new: "\<And>h. an_Activate ans = Inr h \<Longrightarrow> h \<notin> set (pc_live os)"
    using assms(1) by (simp add: fresh_def)
  have "pc_inactive os1 = pc_inactive os \<and> (case r of Inl e \<Rightarrow> pc_live os1 = pc_live os
     | Inr h \<Rightarrow> an_Activate ans = Inr h \<and> pc_live os1 = h # pc_live os)"
    using r activate_reader_outcome [OF new] newWriterHandle_outcome [OF new]
    by (cases c; cases r) (fastforce simp: open_handle_def)+
  with assms(2) r new show ?thesis by (auto simp: open_section_def split: sum.splits)
qed

lemma held_handlesI: "at_call w i (Opened c h) \<Longrightarrow> h \<in> held_handles w"
  unfolding held_handles_def by blast

lemma at_call_same:
  assumes "at_call w i q" and "\<And>c h. q \<noteq> Opened c h" and "\<And>c h. p \<noteq> Opened c h"
  shows "at_call (hw_set i p w) j (Opened c h) \<longleftrightarrow> at_call w j (Opened c h)"
proof -
  have "p \<noteq> Opened c h" "q \<noteq> Opened c h" using assms(2,3) by blast+
  with assms(1) show ?thesis by (cases "j = i") (auto simp: at_call_def)
qed

text \<open>The invariant in terms of what it depends on.\<close>

lemma calls_invI:
  assumes "dm_inv (hw_state w')" and "held_handles w' \<union> set (hw_isolated w') \<subseteq> open_handles w'"
    and "cached_handles w' \<inter> (held_handles w' \<union> set (hw_isolated w')) = {}"
    and "held_handles w' \<inter> set (hw_isolated w') = {}"
    and "\<And>i j c c' h. at_call w' i (Opened c h) \<Longrightarrow> at_call w' j (Opened c' h) \<Longrightarrow> i = j"
  shows "calls_inv w'"
  unfolding calls_inv_def using assms by blast

lemmas handle_sets = cached_handles_def open_handles_def held_handles_def

lemma calls_inv_held:
  assumes "calls_inv w" and "at_call w i (Opened c h)"
  shows "h \<in> open_handles w \<and> h \<notin> cached_handles w \<and> h \<notin> set (hw_isolated w)"
  using assms(1) held_handlesI [OF assms(2)] unfolding calls_inv_def by blast

lemma calls_inv_unique:
  "calls_inv w \<Longrightarrow> at_call w i (Opened c h) \<Longrightarrow> at_call w j (Opened c' h) \<Longrightarrow> i = j"
  unfolding calls_inv_def by blast

lemma calls_inv_cached: "calls_inv w \<Longrightarrow> cached_handles w \<subseteq> open_handles w"
  by (auto simp: calls_inv_def dm_inv_def dm_ok_def cached_handles_def open_handles_def ran_def)

text \<open>A change of the manager or of libpcap that leaves the calls alone.\<close>

lemma calls_inv_manager:
  assumes "calls_inv w" and "dm_inv (dm, os)" and "ran (dm_handles dm) \<subseteq> cached_handles w"
    and "set own \<subseteq> set (hw_isolated w) \<union> new" and "new \<inter> open_handles w = {}"
    and "held_handles w \<union> set own \<subseteq> set (pc_live os)"
  shows "calls_inv (w\<lparr>hw_dm := dm, hw_os := os, hw_isolated := own\<rparr>)" (is "calls_inv ?w")
proof (rule calls_invI)
  have sets: "held_handles ?w = held_handles w" "cached_handles ?w = ran (dm_handles dm)"
    "open_handles ?w = set (pc_live os)" "hw_isolated ?w = own" "at_call ?w = at_call w"
    by (simp_all add: held_handles_def cached_handles_def open_handles_def)
  from assms(2) show "dm_inv (hw_state ?w)" by simp
  from assms(6) show "held_handles ?w \<union> set (hw_isolated ?w) \<subseteq> open_handles ?w" by (simp only: sets)
  note old = assms(1) [unfolded calls_inv_def] calls_inv_cached [OF assms(1)]
  from old assms(3-5) show "cached_handles ?w \<inter> (held_handles ?w \<union> set (hw_isolated ?w)) = {}"
    unfolding sets by blast
  from old assms(4,5) show "held_handles ?w \<inter> set (hw_isolated ?w) = {}" unfolding sets by blast
  show "\<And>i j c c' h. at_call ?w i (Opened c h) \<Longrightarrow> at_call ?w j (Opened c' h) \<Longrightarrow> i = j"
    unfolding sets using calls_inv_unique [OF assms(1)] .
qed

text \<open>A call that makes a step without a handle of its own.\<close>

lemma calls_inv_calls:
  assumes "calls_inv w" and "hw_dm w' = hw_dm w" and "hw_os w' = hw_os w"
    and "hw_isolated w' = hw_isolated w"
    and "\<And>j c h. at_call w' j (Opened c h) \<longleftrightarrow> at_call w j (Opened c h)"
  shows "calls_inv w'"
  using assms(1) unfolding calls_inv_def handle_sets assms(2-5) .


lemma at_call_opened:
  "at_call w i (Missed c) \<Longrightarrow> at_call (hw_set i (Opened c h) w\<lparr>hw_os := os\<rparr>) j (Opened c' h') \<longleftrightarrow>
     j = i \<and> c' = c \<and> h' = h \<or> at_call w j (Opened c' h')"
  by (cases "j = i") (auto simp: at_call_def)

lemma at_call_stored:
  "at_call (hw_set i (Returned r) w\<lparr>hw_dm := dm\<rparr>) j (Opened c' h') \<longleftrightarrow>
     j \<noteq> i \<and> at_call w j (Opened c' h')"
  by (cases "j = i") (auto simp: at_call_def)

lemma held_handles_opened:
  "at_call w i (Missed c) \<Longrightarrow> held_handles (hw_set i (Opened c h) w\<lparr>hw_os := os\<rparr>) = insert h (held_handles w)"
  unfolding held_handles_def by (subst at_call_opened) auto

lemma held_handles_stored:
  assumes "calls_inv w" and "at_call w i (Opened c h)"
  shows "held_handles (hw_set i (Returned r) w\<lparr>hw_dm := dm\<rparr>) = held_handles w - {h}"
proof -
  have "j \<noteq> i \<and> at_call w j (Opened c' h') \<longleftrightarrow> at_call w j (Opened c' h') \<and> h' \<noteq> h" for j c' h'
    using calls_inv_unique [OF assms, of j c'] assms(2) by (cases "j = i") (auto simp: at_call_def)
  then show ?thesis unfolding held_handles_def at_call_stored by blast
qed

lemma calls_inv_opens:
  assumes "calls_inv w" and "at_call w i (Missed c)" and "h \<notin> open_handles w"
    and "pc_live os = h # pc_live (hw_os w)" and "pc_inactive os = pc_inactive (hw_os w)"
  shows "calls_inv (hw_set i (Opened c h) w\<lparr>hw_os := os\<rparr>)" (is "calls_inv ?w")
proof (rule calls_invI)
  have sets: "cached_handles ?w = cached_handles w" "hw_isolated ?w = hw_isolated w"
    "open_handles ?w = insert h (open_handles w)"
    using assms(4) by (simp_all add: cached_handles_def open_handles_def)
  note old = assms(1) [unfolded calls_inv_def] calls_inv_cached [OF assms(1)]
  from old assms(4,5) show "dm_inv (hw_state ?w)" by (auto simp: dm_inv_def dm_ok_def)
  from old show "held_handles ?w \<union> set (hw_isolated ?w) \<subseteq> open_handles ?w"
    unfolding sets held_handles_opened [OF assms(2)] by blast
  from old assms(3) show "cached_handles ?w \<inter> (held_handles ?w \<union> set (hw_isolated ?w)) = {}"
    and "held_handles ?w \<inter> set (hw_isolated ?w) = {}"
    unfolding sets held_handles_opened [OF assms(2)] by blast+
  show "j = k" if "at_call ?w j (Opened c1 h1)" "at_call ?w k (Opened c2 h1)" for j k c1 c2 h1
    using that [unfolded at_call_opened [OF assms(2)]] assms(3) calls_inv_unique [OF assms(1)]
      calls_inv_held [OF assms(1)] by blast
qed

lemma calls_inv_stores:
  assumes "calls_inv w" and "at_call w i (Opened c h)" and "store_section c h (hw_dm w) = (p, dm)"
  shows "calls_inv (hw_set i p w\<lparr>hw_dm := dm\<rparr>)" (is "calls_inv ?w")
proof (rule calls_invI)
  from assms(3) have p: "p = Returned (Inr h)" and
    dm: "dm_handles dm = (dm_handles (hw_dm w))(call_key c \<mapsto> h)"
    by (auto simp: store_section_def)
  have sets: "hw_isolated ?w = hw_isolated w" "open_handles ?w = open_handles w"
    "held_handles ?w = held_handles w - {h}" "cached_handles ?w \<subseteq> insert h (cached_handles w)"
    unfolding p held_handles_stored [OF assms(1,2)]
    by (auto simp: open_handles_def cached_handles_def dm ran_def)
  note old = assms(1) [unfolded calls_inv_def] and h = calls_inv_held [OF assms(1,2)]
  show "dm_inv (hw_state ?w)"
    using old h by (auto simp: dm_inv_def dm_ok_def dm open_handles_def cached_handles_def ran_def)
  from old sets(1-3) show "held_handles ?w \<union> set (hw_isolated ?w) \<subseteq> open_handles ?w"
    and "held_handles ?w \<inter> set (hw_isolated ?w) = {}" by auto
  from old h have "insert h (cached_handles w) \<inter> (held_handles w - {h} \<union> set (hw_isolated w)) = {}"
    by auto
  then show "cached_handles ?w \<inter> (held_handles ?w \<union> set (hw_isolated ?w)) = {}"
    using sets(4) unfolding sets(1,3) by blast
  show "j = k" if "at_call ?w j (Opened c1 h1)" "at_call ?w k (Opened c2 h1)" for j k c1 c2 h1
    using that [unfolded p at_call_stored] calls_inv_unique [OF assms(1)] by blast
qed


lemma calls_inv_dm_step:
  assumes "calls_inv w" and "dm_step goos show_lt (hw_state w) (dm, os)"
    and "ran (dm_handles dm) \<subseteq> cached_handles w"
    and "open_handles w - cached_handles w \<subseteq> set (pc_live os)"
  shows "calls_inv (w\<lparr>hw_dm := dm, hw_os := os\<rparr>)"
proof -
  have "held_handles w \<union> set (hw_isolated w) \<subseteq> open_handles w - cached_handles w"
    using assms(1) unfolding calls_inv_def by blast
  with assms have "calls_inv (w\<lparr>hw_dm := dm, hw_os := os, hw_isolated := hw_isolated w\<rparr>)"
    by (intro calls_inv_manager [where new = "{}"] dm_step_inv [OF assms(2)])
      (auto simp: calls_inv_def)
  then show ?thesis by (cases w) simp
qed

lemma CloseDevice_effect:
  assumes "CloseDevice iname d (dm, os) = (err, dm', os')"
  shows "dm_handles dm' = dm_handles dm |` (- {deviceManagerKey iname d}) \<and>
    set (pc_live os') = set (pc_live os) - ran (dm_handles dm |` {deviceManagerKey iname d})"
  using assms
  by (cases "dm_handles dm (deviceManagerKey iname d)")
    (auto simp: CloseDevice_def close_handle_def restrict_map_def fun_eq_iff ran_def)

lemma CloseHandles_effect:
  assumes "enumerates ks (dm_handles dm)" and "CloseHandles ks (dm, os) = (dm', os')"
  shows "dm_handles dm' = Map.empty \<and> set (pc_live os') = set (pc_live os) - ran (dm_handles dm)"
  using assms CloseHandles_all [OF assms(1), of os] by auto

lemma isolated_outcome:
  assumes "fresh ans (dm, os)"
    and "CreateIsolatedWriterHandle goos show_lt ans iname (dm, os) = (r, dm', os')"
  shows "dm' = dm \<and> pc_inactive os' = pc_inactive os \<and> (case r of Inl e \<Rightarrow> pc_live os' = pc_live os
    | Inr h \<Rightarrow> h \<notin> set (pc_live os) \<and> pc_live os' = h # pc_live os)"
proof -
  obtain os1 r1 where w: "newWriterHandle goos show_lt ans iname os = (r1, os1)"
    by (cases "newWriterHandle goos show_lt ans iname os")
  with newWriterHandle_outcome [OF _ w] assms show ?thesis
    by (auto simp: CreateIsolatedWriterHandle_def fresh_def open_handle_def split: sum.splits)
qed

lemma restrict_ran: "ran (m |` A) \<subseteq> ran m"
  by (auto simp: ran_def restrict_map_def split: if_splits)

lemma calls_inv_open_section:
  assumes "calls_inv w" and "at_call w i (Missed c)" and "fresh ans (hw_state w)"
    and "open_section goos show_lt ans c (hw_os w) = (p, os)"
  shows "calls_inv (hw_set i p w\<lparr>hw_os := os\<rparr>)"
proof -
  from open_section_outcome [OF assms(3,4)] consider
    e where "p = Returned (Inl e)" "pc_live os = pc_live (hw_os w)" "pc_inactive os = pc_inactive (hw_os w)"
    | h where "p = Opened c h" "h \<notin> open_handles w" "pc_live os = h # pc_live (hw_os w)"
        "pc_inactive os = pc_inactive (hw_os w)" by (auto simp: open_handles_def)
  then show ?thesis
  proof cases
    case (1 e)
    have same: "at_call (hw_set i p w\<lparr>hw_os := os\<rparr>) j (Opened c' h) \<longleftrightarrow> at_call w j (Opened c' h)" for j c' h
      using at_call_same [OF assms(2), of p j c' h] by (simp add: 1(1))
    from assms(1) show ?thesis
      unfolding calls_inv_def handle_sets same using 1(2,3) by (simp add: dm_inv_def dm_ok_def)
  next
    case (2 h)
    with calls_inv_opens [OF assms(1,2), of h os] show ?thesis by simp
  qed
qed

lemma calls_inv_close:
  assumes "calls_inv w" and "CloseDevice iname d (hw_state w) = (err, dm, os)"
  shows "calls_inv (w\<lparr>hw_dm := dm, hw_os := os\<rparr>)"
proof (rule calls_inv_dm_step [OF assms(1)])
  show "dm_step [] (\<lambda>lt. []) (hw_state w) (dm, os)"
    using close_device [of "[]" "\<lambda>lt. []" "hw_state w" iname d] assms(2) by simp
  note e = CloseDevice_effect [OF assms(2)]
  from e restrict_ran show "ran (dm_handles dm) \<subseteq> cached_handles w"
    by (simp add: cached_handles_def)
  from e restrict_ran show "open_handles w - cached_handles w \<subseteq> set (pc_live os)"
    unfolding cached_handles_def open_handles_def by fast
qed

lemma calls_inv_isolates:
  assumes "calls_inv w" and "fresh ans (hw_state w)"
    and "CreateIsolatedWriterHandle goos show_lt ans iname (hw_state w) = (r, dm, os)"
  shows "calls_inv (w\<lparr>hw_dm := dm, hw_os := os,
    hw_isolated := (case r of Inl e \<Rightarrow> hw_isolated w | Inr h \<Rightarrow> h # hw_isolated w)\<rparr>)"
proof -
  from dm_inv_isolated [OF _ assms(2), of goos show_lt iname] assms(1,3)
  have inv: "dm_inv (dm, os)" by (simp add: calls_inv_def)
  note o = isolated_outcome [OF assms(2,3)]
  have live: "held_handles w \<union> set (hw_isolated w) \<subseteq> set (pc_live (hw_os w))"
    using assms(1) by (simp add: calls_inv_def open_handles_def)
  from o show ?thesis
    by (intro calls_inv_manager [OF assms(1) inv, where new = "case r of Inl e \<Rightarrow> {} | Inr h \<Rightarrow> {h}"])
      (use live in \<open>auto simp: cached_handles_def open_handles_def split: sum.splits\<close>)
qed

lemma calls_inv_releases:
  assumes "calls_inv w" and "h \<in> set (hw_isolated w)"
  shows "calls_inv (w\<lparr>hw_os := close_handle h (hw_os w), hw_isolated := removeAll h (hw_isolated w)\<rparr>)"
proof -
  from assms have "\<forall>k. dm_handles (hw_dm w) k \<noteq> Some h"
    by (auto simp: calls_inv_def cached_handles_def ran_def)
  from dm_step_inv [OF close_isolated [OF this]] assms(1)
  have inv: "dm_inv (hw_dm w, close_handle h (hw_os w))" by (simp add: calls_inv_def)
  have "held_handles w \<union> set (removeAll h (hw_isolated w)) \<subseteq> open_handles w - {h}"
    using assms unfolding calls_inv_def by auto
  then have "calls_inv (w\<lparr>hw_dm := hw_dm w, hw_os := close_handle h (hw_os w),
      hw_isolated := removeAll h (hw_isolated w)\<rparr>)"
    by (intro calls_inv_manager [OF assms(1) inv, where new = "{}"])
      (auto simp: cached_handles_def open_handles_def close_handle_def)
  then show ?thesis by (cases w) simp
qed

lemma calls_inv_step: "call_step goos show_lt w w' \<Longrightarrow> calls_inv w \<Longrightarrow> calls_inv w'"
proof (induction rule: call_step.induct)
  case (calls w c)
  then show ?case by (rule calls_inv_calls) (auto simp: at_call_append)
next
  case (looks_up i w c)
  then have "at_call w i (Called c)" by (simp add: at_call_def)
  from calls_inv_calls [OF looks_up(3) _ _ _ at_call_same [OF this]] show ?case
    by (simp split: option.splits)
next
  case (closes_all ks w dm os)
  have "dm_step goos show_lt (hw_state w) (dm, os)"
    using close_handles [OF closes_all(1), of goos show_lt "hw_os w"] closes_all(2) by simp
  from calls_inv_dm_step [OF closes_all(3) this] CloseHandles_effect [OF closes_all(1,2)] show ?case
    by (simp add: cached_handles_def open_handles_def)
next
  case (refreshes found w err dm)
  have s: "dm_step goos show_lt (hw_state w) (dm, hw_os w)"
    using refresh [of goos show_lt "hw_dm w" "hw_os w" found] refreshes(1) by simp
  have "dm_handles dm = dm_handles (hw_dm w)"
    using refreshes(1) by (auto simp: Refresh_def split: sum.splits)
  with calls_inv_dm_step [OF refreshes(2) s] show ?case
    by (cases w) (auto simp: cached_handles_def open_handles_def)
qed (simp_all add: at_call_def calls_inv_open_section calls_inv_stores calls_inv_close
  calls_inv_isolates calls_inv_releases)


section \<open>Who owns a handle\<close>

text \<open>
  An abstract machine of owners: a handle that is opened belongs to the call that opened it,
  then to the cache, or else to a transmitter, until its owner closes it.  When it is
  \<open>careful\<close>, a handle is stored only where there is none.
\<close>

record ownership =
  ow_cache :: "string \<rightharpoonup> nat"
  ow_held :: "nat set"
  ow_isolated :: "nat set"
  ow_open :: "nat set"

inductive own_step :: "bool \<Rightarrow> ownership \<Rightarrow> ownership \<Rightarrow> bool" for careful where
  own_keeps: "own_step careful s s"
| own_opens: "h \<notin> ow_open s \<Longrightarrow>
    own_step careful s (s\<lparr>ow_held := insert h (ow_held s), ow_open := insert h (ow_open s)\<rparr>)"
| own_isolates: "h \<notin> ow_open s \<Longrightarrow>
    own_step careful s (s\<lparr>ow_isolated := insert h (ow_isolated s), ow_open := insert h (ow_open s)\<rparr>)"
| own_stores: "h \<in> ow_held s \<Longrightarrow> (careful \<Longrightarrow> ow_cache s k = None) \<Longrightarrow>
    own_step careful s (s\<lparr>ow_cache := (ow_cache s)(k \<mapsto> h), ow_held := ow_held s - {h}\<rparr>)"
| own_closes: "own_step careful s (s\<lparr>ow_cache := ow_cache s |` (- ks),
      ow_open := ow_open s - ran (ow_cache s |` ks)\<rparr>)"
| own_releases: "h \<in> ow_isolated s \<Longrightarrow>
    own_step careful s (s\<lparr>ow_isolated := ow_isolated s - {h}, ow_open := ow_open s - {h}\<rparr>)"

definition ownership_of :: "handle_world \<Rightarrow> ownership" where
  "ownership_of w = \<lparr>ow_cache = dm_handles (hw_dm w), ow_held = held_handles w,
     ow_isolated = set (hw_isolated w), ow_open = open_handles w\<rparr>"

text \<open>A handle is lost when it is open and has no owner: nothing will ever close it.\<close>

definition lost_handles :: "ownership \<Rightarrow> nat set" where
  "lost_handles s = ow_open s - (ran (ow_cache s) \<union> ow_held s \<union> ow_isolated s)"

definition own_inv :: "ownership \<Rightarrow> bool" where
  "own_inv s \<longleftrightarrow> ran (ow_cache s) \<union> ow_held s \<union> ow_isolated s \<subseteq> ow_open s \<and>
     inj_on (ow_cache s) (dom (ow_cache s))"

lemma own_inv_of: "calls_inv w \<Longrightarrow> own_inv (ownership_of w)"
proof -
  assume w: "calls_inv w"
  then have "inj_on (dm_handles (hw_dm w)) (dom (dm_handles (hw_dm w)))"
    by (force simp: calls_inv_def dm_inv_def dm_ok_def inj_on_def)
  moreover have "cached_handles w \<union> held_handles w \<union> set (hw_isolated w) \<subseteq> open_handles w"
    using w calls_inv_cached [OF w] unfolding calls_inv_def by blast
  ultimately show ?thesis by (simp add: own_inv_def ownership_of_def cached_handles_def)
qed

text \<open>
  A call in progress asks for a key; once it has missed, the code assumes that the cache still has
  no handle for that key (\<open>misses_hold\<close>), which is so when no two calls in progress ask for the
  same one (\<open>exclusive\<close>).
\<close>

fun asks_for :: "call_progress \<Rightarrow> string list" where
  "asks_for (Called c) = [call_key c]"
| "asks_for (Missed c) = [call_key c]"
| "asks_for (Opened c h) = [call_key c]"
| "asks_for (Returned r) = []"

fun missed :: "call_progress \<Rightarrow> string list" where
  "missed (Missed c) = [call_key c]"
| "missed (Opened c h) = [call_key c]"
| "missed p = []"

definition exclusive :: "handle_world \<Rightarrow> bool" where
  "exclusive w \<longleftrightarrow> distinct (concat (map asks_for (hw_calls w)))"

definition misses_hold :: "handle_world \<Rightarrow> bool" where
  "misses_hold w \<longleftrightarrow> list_all (\<lambda>p. list_all (\<lambda>k. dm_handles (hw_dm w) k = None) (missed p)) (hw_calls w)"

lemma missed_asks: "set (missed p) \<subseteq> set (asks_for p)"
  by (cases p) auto

lemma exclusive_other:
  assumes "exclusive w" and "i < length (hw_calls w)" and "j < length (hw_calls w)" and "i \<noteq> j"
    and "k \<in> set (asks_for (hw_calls w ! i))"
  shows "k \<notin> set (missed (hw_calls w ! j))"
proof -
  have "distinct (concat (map f xs)) \<Longrightarrow> i < length xs \<Longrightarrow> j < length xs \<Longrightarrow> i \<noteq> j \<Longrightarrow>
      set (f (xs ! i)) \<inter> set (f (xs ! j)) = {}" for f :: "call_progress \<Rightarrow> string list" and xs i j
  proof (induction xs arbitrary: i j)
    case (Cons x xs)
    then show ?case by (cases i; cases j) (auto dest!: nth_mem)
  qed simp
  with assms missed_asks show ?thesis unfolding exclusive_def by blast
qed

lemma ownership_step:
  assumes "call_step goos show_lt w w'" and "calls_inv w"
    and "careful \<Longrightarrow> misses_hold w"
  shows "own_step careful (ownership_of w) (ownership_of w')"
  using assms(1)
proof (cases rule: call_step.cases)
  case (calls c)
  then have "ownership_of w' = ownership_of w"
    by (auto simp: ownership_of_def held_handles_def open_handles_def at_call_append)
  then show ?thesis by (simp add: own_keeps)
next
  case (looks_up i c)
  then have "at_call w i (Called c)" by (simp add: at_call_def)
  from at_call_same [OF this] have "held_handles w' = held_handles w"
    unfolding held_handles_def looks_up(1) by (simp split: option.splits)
  with looks_up(1) have "ownership_of w' = ownership_of w"
    by (simp add: ownership_of_def open_handles_def)
  then show ?thesis by (simp add: own_keeps)
next
  case (opens i c ans p os)
  then have m: "at_call w i (Missed c)" by (simp add: at_call_def)
  from open_section_outcome [OF opens(4,5)] show ?thesis
  proof (elim conjE disjE exE)
    fix e assume e: "p = Returned (Inl e)" "pc_live os = pc_live (hw_os w)"
    with at_call_same [OF m, of p] opens(1) have "ownership_of w' = ownership_of w"
      by (simp add: ownership_of_def held_handles_def open_handles_def)
    then show ?thesis by (simp add: own_keeps)
  next
    fix h assume h: "p = Opened c h" "h \<notin> set (pc_live (hw_os w))" "pc_live os = h # pc_live (hw_os w)"
    with own_opens [of h "ownership_of w"] held_handles_opened [OF m, of os h] opens(1) show ?thesis
      by (simp add: ownership_of_def open_handles_def)
  qed
next
  case (stores i c h p dm)
  then have at: "at_call w i (Opened c h)" by (simp add: at_call_def)
  from stores(4) have p: "p = Returned (Inr h)"
    "dm_handles dm = (dm_handles (hw_dm w))(call_key c \<mapsto> h)" by (auto simp: store_section_def)
  have "ownership_of w' = ownership_of w\<lparr>ow_cache := (ow_cache (ownership_of w))(call_key c \<mapsto> h),
      ow_held := ow_held (ownership_of w) - {h}\<rparr>"
    using held_handles_stored [OF assms(2) at, of dm "Inr h"] p
    by (simp add: stores(1) ownership_of_def open_handles_def)
  moreover have "careful \<Longrightarrow> dm_handles (hw_dm w) (call_key c) = None"
    using assms(3) at by (auto simp: misses_hold_def at_call_def list_all_length)
  ultimately show ?thesis
    using own_stores [of h "ownership_of w" careful "call_key c"] held_handlesI [OF at]
    by (simp add: ownership_of_def)
next
  case (closes iname d err dm os)
  with own_closes [of careful "ownership_of w" "{deviceManagerKey iname d}"] CloseDevice_effect [OF closes(2)]
  show ?thesis by (simp add: ownership_of_def open_handles_def held_handles_def)
next
  case (closes_all ks dm os)
  with own_closes [of careful "ownership_of w" UNIV] CloseHandles_effect [OF closes_all(2,3)]
  show ?thesis by (simp add: ownership_of_def open_handles_def held_handles_def restrict_map_def)
next
  case (isolates ans iname r dm os)
  show ?thesis
  proof (cases r)
    case (Inl e)
    with isolates(1) isolated_outcome [OF isolates(2,3)] have "ownership_of w' = ownership_of w"
      by (simp add: ownership_of_def held_handles_def open_handles_def)
    then show ?thesis by (simp add: own_keeps)
  next
    case (Inr h)
    with own_isolates [of h "ownership_of w"] isolates(1) isolated_outcome [OF isolates(2,3)] show ?thesis
      by (simp add: ownership_of_def held_handles_def open_handles_def)
  qed
next
  case (releases h)
  with own_releases [of h "ownership_of w"] show ?thesis
    by (simp add: ownership_of_def held_handles_def open_handles_def close_handle_def set_removeAll)
next
  case (refreshes found err dm)
  then have "ownership_of w' = ownership_of w"
    by (auto simp: ownership_of_def held_handles_def open_handles_def Refresh_def split: sum.splits)
  then show ?thesis by (simp add: own_keeps)
qed

text \<open>What is lost stays lost, and is never closed; a careful step loses nothing.\<close>

lemma own_step_lost: "own_step careful s s' \<Longrightarrow> own_inv s \<Longrightarrow> lost_handles s \<subseteq> lost_handles s'"
  by (induction rule: own_step.induct)
    (auto simp: lost_handles_def own_inv_def ran_def restrict_map_def)

lemma own_step_careful: "own_step True s s' \<Longrightarrow> lost_handles s' \<subseteq> lost_handles s"
proof (induction rule: own_step.induct)
  case (own_stores h s k)
  then have "ran ((ow_cache s)(k \<mapsto> h)) = insert h (ran (ow_cache s))" by (simp add: ran_map_upd)
  then show ?case by (auto simp: lost_handles_def)
qed (auto simp: lost_handles_def ran_def restrict_map_def)


lemma misses_hold_set:
  assumes "misses_hold w" and "\<forall>k\<in>set (missed p). dm_handles (hw_dm w) k = None"
  shows "misses_hold (hw_set i p w)"
  using assms set_update_subset_insert [of "hw_calls w" i p]
  by (auto simp: misses_hold_def list_all_iff)

lemma misses_hold_nth:
  "misses_hold w \<Longrightarrow> i < length (hw_calls w) \<Longrightarrow> k \<in> set (missed (hw_calls w ! i)) \<Longrightarrow>
     dm_handles (hw_dm w) k = None"
  by (auto simp: misses_hold_def list_all_iff dest: nth_mem)

lemma misses_hold_manager:
  assumes "misses_hold w" and "hw_calls w' = hw_calls w"
    and "\<And>k. dm_handles (hw_dm w) k = None \<Longrightarrow> dm_handles (hw_dm w') k = None"
  shows "misses_hold w'"
  using assms by (simp add: misses_hold_def list_all_iff)

lemma misses_hold_stores:
  assumes "exclusive w" and "misses_hold w" and "i < length (hw_calls w)"
    and "hw_calls w ! i = Opened c h" and "store_section c h (hw_dm w) = (p, dm)"
  shows "misses_hold (hw_set i p w\<lparr>hw_dm := dm\<rparr>)"
proof -
  from assms(5) have p: "p = Returned (Inr h)"
    "dm_handles dm = (dm_handles (hw_dm w))(call_key c \<mapsto> h)" by (auto simp: store_section_def)
  have "dm_handles dm k = None"
    if j: "j < length (hw_calls w)" "k \<in> set (missed ((hw_calls w)[i := p] ! j))" for j k
  proof (cases "j = i")
    case False
    with j exclusive_other [OF assms(1,3) j(1), of "call_key c"] assms(4)
      misses_hold_nth [OF assms(2) j(1), of k] show ?thesis by (auto simp: p(2))
  qed (use j p(1) in simp)
  then show ?thesis by (simp add: misses_hold_def list_all_length list_all_iff)
qed

lemma misses_hold_opens:
  assumes "misses_hold w" and "i < length (hw_calls w)" and "hw_calls w ! i = Missed c"
    and "fresh ans (hw_state w)" and "open_section goos show_lt ans c (hw_os w) = (p, os)"
  shows "misses_hold (hw_set i p w\<lparr>hw_os := os\<rparr>)"
proof -
  have "\<forall>k\<in>set (missed p). k = call_key c"
    using open_section_outcome [OF assms(4,5)] by (elim conjE disjE exE) simp_all
  moreover have "dm_handles (hw_dm w) (call_key c) = None"
    using misses_hold_nth [OF assms(1,2)] assms(3) by simp
  ultimately have "\<forall>k\<in>set (missed p). dm_handles (hw_dm w) k = None" by (metis (no_types))
  from misses_hold_set [OF assms(1) this, of i] show ?thesis by (simp add: misses_hold_def)
qed

lemma misses_hold_step:
  assumes "call_step goos show_lt w w'" and "exclusive w" and "misses_hold w"
  shows "misses_hold w'"
  using assms(1)
proof (cases rule: call_step.cases)
  case (calls c)
  with assms(3) show ?thesis by (simp add: misses_hold_def)
next
  case (looks_up i c)
  have "\<forall>k\<in>set (missed (lookup_section (hw_dm w) c)). dm_handles (hw_dm w) k = None"
    by (simp split: option.split)
  from misses_hold_set [OF assms(3) this, of i] show ?thesis by (simp only: looks_up(1))
next
  case (opens i c ans p os)
  from misses_hold_opens [OF assms(3) opens(2-5)] show ?thesis by (simp only: opens(1))
next
  case (stores i c h p dm)
  from misses_hold_stores [OF assms(2,3) stores(2-4)] show ?thesis by (simp only: stores(1))
next
  case (closes iname d err dm os)
  have "dm_handles dm k = None" if "dm_handles (hw_dm w) k = None" for k
    using CloseDevice_effect [OF closes(2)] that by (simp add: restrict_map_def)
  with misses_hold_manager [OF assms(3), of w'] show ?thesis by (simp add: closes(1))
next
  case (closes_all ks dm os)
  with misses_hold_manager [OF assms(3), of w'] CloseHandles_effect [OF closes_all(2,3)]
  show ?thesis by simp
next
  case (isolates ans iname r dm os)
  with misses_hold_manager [OF assms(3), of w'] isolated_outcome [OF isolates(2,3)]
  show ?thesis by simp
next
  case (releases h)
  with misses_hold_manager [OF assms(3), of w'] show ?thesis by simp
next
  case (refreshes found err dm)
  have "dm_handles dm = dm_handles (hw_dm w)"
    using refreshes(2) by (auto simp: Refresh_def split: sum.splits)
  with misses_hold_manager [OF assms(3), of w'] show ?thesis by (simp add: refreshes(1))
qed

section \<open>Properties\<close>

definition new_manager :: "device_manager \<Rightarrow> pcap_state \<Rightarrow> handle_world" where
  "new_manager dm os = \<lparr>hw_dm = dm, hw_os = os, hw_calls = [], hw_isolated = []\<rparr>"

lemma new_manager_inv:
  assumes "NewDeviceManager found = Inr dm" and "pc_inactive os = 0"
  shows "calls_inv (new_manager dm os) \<and> dm_handles dm = Map.empty"
proof -
  from assms(1) have h: "dm_handles dm = Map.empty"
    by (auto simp: NewDeviceManager_def Refresh_def Let_def split: sum.splits)
  then have "dm_inv (dm, os)" using assms(2) by (simp add: dm_inv_def dm_ok_def)
  with h show ?thesis
    by (simp add: calls_inv_def new_manager_def handle_sets at_call_def)
qed

lemma calls_inv_reachable: "(call_step goos show_lt)\<^sup>*\<^sup>* w w' \<Longrightarrow> calls_inv w \<Longrightarrow> calls_inv w'"
  by (induction rule: rtranclp_induct) (auto intro: calls_inv_step)

text \<open>
  Concurrent calls of the device manager, in every interleaving of their sections with each
  other and with \<^verbatim>\<open>Close\<close>, \<^verbatim>\<open>CloseHandles\<close> and \<^verbatim>\<open>Refresh\<close>: a handle in the cache is open and
  there only once, a handle that a call has opened and not yet stored belongs to that call
  alone, and neither is one that a transmitter owns.
\<close>

theorem interleaved_calls_invariant:
  assumes "NewDeviceManager found = Inr dm" and "pc_inactive os = 0"
    and "(call_step goos show_lt)\<^sup>*\<^sup>* (new_manager dm os) w"
  shows "cached_handles w \<union> held_handles w \<union> set (hw_isolated w) \<subseteq> open_handles w \<and>
    inj_on (dm_handles (hw_dm w)) (dom (dm_handles (hw_dm w))) \<and>
    cached_handles w \<inter> held_handles w = {} \<and> cached_handles w \<inter> set (hw_isolated w) = {} \<and>
    held_handles w \<inter> set (hw_isolated w) = {}"
proof -
  from calls_inv_reachable [OF assms(3)] new_manager_inv [OF assms(1,2)] have "calls_inv w" by blast
  with own_inv_of [OF this] show ?thesis
    by (simp add: own_inv_def ownership_of_def calls_inv_def cached_handles_def)
qed

definition eth0_call :: handle_call where
  "eth0_call = ReaderCall ''eth0'' False 250000000"

lemma open_section_ready:
  assumes "reader_ready goos a" and "an_Activate a = Inr h" and "h \<notin> set (pc_live os)"
  shows "open_section goos show_lt a (ReaderCall iname promisc timeout) os =
    (Opened (ReaderCall iname promisc timeout) h, open_handle (reader_config promisc timeout a iname) h os)"
proof -
  obtain r os' where r: "activate_reader goos show_lt promisc timeout a iname os = (r, os')"
    by (cases "activate_reader goos show_lt promisc timeout a iname os")
  with activate_reader_outcome [OF _ r] assms show ?thesis
    by (auto simp: open_section_def split: sum.splits)
qed

text \<open>A first call on a new manager, up to the point where it has a handle.\<close>

definition first_handle :: handle_world where
  "first_handle = (new_manager empty_dm no_pcap)\<lparr>hw_calls := [Opened eth0_call 3],
     hw_os := open_handle (reader_config False 250000000 (all_well 3 LinkTypeEthernet) ''eth0'') 3 no_pcap\<rparr>"

lemma eth0_ready: "reader_ready ''linux'' (all_well h LinkTypeEthernet)"
  by (simp add: reader_ready_def writer_ready_def all_well_def isValidLinkType_def)

lemma three_steps: "r a b \<Longrightarrow> r b c \<Longrightarrow> r c d \<Longrightarrow> r\<^sup>*\<^sup>* a d"
  by (meson rtranclp.rtrancl_into_rtrancl rtranclp.rtrancl_refl)

lemma first_handle_reached:
  "(\<lambda>w w'. call_step ''linux'' show_lt w w' \<and> exclusive w)\<^sup>*\<^sup>* (new_manager empty_dm no_pcap) first_handle"
proof -
  let ?w = "\<lambda>ps. (new_manager empty_dm no_pcap)\<lparr>hw_calls := ps\<rparr>"
  have 1: "call_step ''linux'' show_lt (?w []) (?w [Called eth0_call])"
    using calls [of "''linux''" show_lt "?w []" eth0_call] by simp
  have 2: "call_step ''linux'' show_lt (?w [Called eth0_call]) (?w [Missed eth0_call])"
    using looks_up [of 0 "?w [Called eth0_call]" eth0_call "''linux''" show_lt]
    by (simp add: new_manager_def empty_dm_def)
  have o: "open_section ''linux'' show_lt (all_well 3 LinkTypeEthernet) eth0_call no_pcap =
      (Opened eth0_call 3, hw_os first_handle)"
    using open_section_ready [OF eth0_ready, of 3 3 no_pcap]
    by (simp add: eth0_call_def first_handle_def all_well_def no_pcap_def)
  have 3: "call_step ''linux'' show_lt (?w [Missed eth0_call]) first_handle"
    using opens [of 0 "?w [Missed eth0_call]" eth0_call "all_well 3 LinkTypeEthernet" "''linux''" show_lt]
      o by (simp add: new_manager_def fresh_def all_well_def no_pcap_def first_handle_def)
  have "exclusive (?w [])" "exclusive (?w [Called eth0_call])" "exclusive (?w [Missed eth0_call])"
    by (simp_all add: exclusive_def)
  moreover have "?w [] = new_manager empty_dm no_pcap" by (simp add: new_manager_def)
  ultimately show ?thesis
    using three_steps [of "\<lambda>w w'. call_step ''linux'' show_lt w w' \<and> exclusive w" "?w []"
      "?w [Called eth0_call]" "?w [Missed eth0_call]" first_handle] 1 2 3 by (simp only: simp_thms)
qed

lemma empty_dm_new: "NewDeviceManager (Inr []) = Inr empty_dm"
  by (simp add: NewDeviceManager_def Refresh_def empty_dm_def)

lemma first_handle_sets:
  "held_handles first_handle = {3}" "hw_isolated first_handle = []"
  by (simp_all add: held_handles_def at_call_def first_handle_def new_manager_def)

theorem interleaved_calls_invariant_witness:
  "3 \<in> open_handles first_handle \<and> 3 \<notin> cached_handles first_handle"
proof -
  have "(call_step ''linux'' (\<lambda>lt. []))\<^sup>*\<^sup>* (new_manager empty_dm no_pcap) first_handle"
    by (rule rtranclp_mono [THEN predicate2D, OF _ first_handle_reached]) blast
  from interleaved_calls_invariant [OF empty_dm_new _ this] show ?thesis
    by (auto simp: first_handle_sets no_pcap_def)
qed

text \<open>
  C23. As long as no two goroutines open a handle for the same interface and direction at once, no
  handle is lost: every open handle is in the cache, about to be stored by the call that
  opened it, or owned by a transmitter.
\<close>

theorem no_handle_is_lost:
  assumes "NewDeviceManager found = Inr dm" and "pc_inactive os = 0" and "pc_live os = []"
    and "(\<lambda>w w'. call_step goos show_lt w w' \<and> exclusive w)\<^sup>*\<^sup>* (new_manager dm os) w"
  shows "open_handles w = cached_handles w \<union> held_handles w \<union> set (hw_isolated w)"
proof -
  have "calls_inv w \<and> misses_hold w \<and> lost_handles (ownership_of w) = {}"
    using assms(4)
  proof (induction rule: rtranclp_induct)
    case base
    with new_manager_inv [OF assms(1,2)] assms(3) show ?case
      by (simp add: misses_hold_def lost_handles_def ownership_of_def open_handles_def new_manager_def)
  next
    case (step w w')
    then have "own_step True (ownership_of w) (ownership_of w')" by (intro ownership_step) auto
    from own_step_careful [OF this] step show ?case
      by (auto intro: calls_inv_step misses_hold_step)
  qed
  then show ?thesis
    using own_inv_of [of w]
    by (auto simp: lost_handles_def own_inv_def ownership_of_def cached_handles_def)
qed


theorem no_handle_is_lost_witness: "open_handles first_handle = insert 3 (cached_handles first_handle)"
  using no_handle_is_lost [OF empty_dm_new _ _ first_handle_reached]
  by (simp add: first_handle_sets no_pcap_def)


lemma lost_reachable:
  "(call_step goos show_lt)\<^sup>*\<^sup>* w w' \<Longrightarrow> calls_inv w \<Longrightarrow>
     lost_handles (ownership_of w) \<subseteq> lost_handles (ownership_of w')"
proof (induction rule: rtranclp_induct)
  case (step w' w'')
  then have inv: "calls_inv w'" by (auto intro: calls_inv_reachable)
  from ownership_step [OF step(2) inv, of False] have
    "own_step False (ownership_of w') (ownership_of w'')" by simp
  from own_step_lost [OF this own_inv_of [OF inv]] step show ?case by blast
qed simp

lemma looks_up_missing:
  assumes "at_call w i (Called c)" and "dm_handles (hw_dm w) (call_key c) = None"
  shows "call_step goos show_lt w (hw_set i (Missed c) w)"
  using looks_up [of i w c goos show_lt] assms by (simp add: at_call_def)

lemma opens_ready:
  assumes "at_call w i (Missed (ReaderCall iname promisc timeout))" and "reader_ready goos a"
    and "an_Activate a = Inr h" and "h \<notin> open_handles w"
  shows "\<exists>os. call_step goos show_lt w (hw_set i (Opened (ReaderCall iname promisc timeout) h) w\<lparr>hw_os := os\<rparr>) \<and>
    pc_live os = h # pc_live (hw_os w)"
  using opens [of i w "ReaderCall iname promisc timeout" a goos show_lt] assms
    open_section_ready [OF assms(2,3), of "hw_os w" show_lt iname promisc timeout]
  by (auto simp: at_call_def fresh_def open_handles_def open_handle_def)

lemma stores_opened:
  assumes "at_call w i (Opened c h)"
  shows "call_step goos show_lt w (hw_set i (Returned (Inr h)) w\<lparr>hw_dm := (hw_dm w)
    \<lparr>dm_handles := (dm_handles (hw_dm w))(call_key c \<mapsto> h)\<rparr>\<rparr>)"
  using stores [of i w c h] assms by (simp add: at_call_def store_section_def)

text \<open>Two calls for one reader that both miss: the world when both have opened a handle.\<close>

lemma both_opened:
  assumes "at_call w i (Called c)" and "at_call w j (Called c)" and "i \<noteq> j"
    and "c = ReaderCall iname promisc timeout" and "dm_handles (hw_dm w) (call_key c) = None"
    and "reader_ready goos a" and "an_Activate a = Inr h" and "h \<notin> open_handles w"
    and "reader_ready goos b" and "an_Activate b = Inr h'" and "h' \<notin> insert h (open_handles w)"
  shows "\<exists>w'. (call_step goos show_lt)\<^sup>*\<^sup>* w w' \<and> at_call w' i (Opened c h) \<and> at_call w' j (Opened c h') \<and>
    hw_dm w' = hw_dm w"
proof -
  let ?w1 = "hw_set i (Missed c) w" let ?w2 = "hw_set j (Missed c) ?w1"
  have ij: "i < length (hw_calls w)" "j < length (hw_calls w)" using assms(1,2) by (simp_all add: at_call_def)
  have 1: "call_step goos show_lt w ?w1" by (rule looks_up_missing [OF assms(1,5)])
  have 2: "call_step goos show_lt ?w1 ?w2"
    by (rule looks_up_missing) (use assms(2,3,5) in \<open>simp_all add: at_call_def\<close>)
  have "at_call ?w2 i (Missed (ReaderCall iname promisc timeout))"
    using ij assms(3,4) by (simp add: at_call_def)
  from opens_ready [OF this assms(6,7), of show_lt] assms(8) obtain os where
    3: "call_step goos show_lt ?w2 (hw_set i (Opened c h) ?w2\<lparr>hw_os := os\<rparr>)"
    and os: "pc_live os = h # pc_live (hw_os w)"
    by (auto simp: open_handles_def assms(4))
  let ?w3 = "hw_set i (Opened c h) ?w2\<lparr>hw_os := os\<rparr>"
  have "at_call ?w3 j (Missed (ReaderCall iname promisc timeout))" "h' \<notin> open_handles ?w3"
    using ij assms(3,4,11) os by (simp_all add: at_call_def open_handles_def)
  from opens_ready [OF this(1) assms(9,10) this(2), of show_lt] obtain os' where
    4: "call_step goos show_lt ?w3 (hw_set j (Opened c h') ?w3\<lparr>hw_os := os'\<rparr>)"
    by (auto simp: assms(4))
  from three_steps [where r = "call_step goos show_lt", OF 1 2 3] 4 have "(call_step goos show_lt)\<^sup>*\<^sup>* w (hw_set j (Opened c h') ?w3\<lparr>hw_os := os'\<rparr>)"
    by (rule rtranclp.rtrancl_into_rtrancl)
  then show ?thesis using ij assms(3) by (intro exI [of _ "hw_set j (Opened c h') ?w3\<lparr>hw_os := os'\<rparr>"])
    (simp add: at_call_def)
qed

text \<open>The second store of the same key makes the first handle lost.\<close>

lemma overwritten_is_lost:
  assumes "calls_inv w" and "at_call w j (Opened c h')" and "dm_handles (hw_dm w) (call_key c) = Some h"
    and "h \<noteq> h'" and "hw_dm w' = (hw_dm w)\<lparr>dm_handles := (dm_handles (hw_dm w))(call_key c \<mapsto> h')\<rparr>"
    and "hw_calls w' = (hw_calls w)[j := Returned (Inr h')]" and "hw_os w' = hw_os w"
    and "hw_isolated w' = hw_isolated w"
  shows "h \<in> lost_handles (ownership_of w')"
proof -
  have "h \<in> cached_handles w" using assms(3) by (auto simp: cached_handles_def ran_def)
  with assms(1) calls_inv_cached [OF assms(1)] have h: "h \<in> open_handles w" "h \<notin> held_handles w"
    "h \<notin> set (hw_isolated w)" unfolding calls_inv_def by blast+
  have "h \<notin> ran (dm_handles (hw_dm w'))"
    using assms(1,3,4) by (auto simp: assms(5) ran_def calls_inv_def dm_inv_def dm_ok_def)
  moreover have "at_call w k (Opened d g)" if "at_call w' k (Opened d g)" for k d g
    using that by (cases "k = j") (auto simp: at_call_def assms(6))
  then have "held_handles w' \<subseteq> held_handles w" unfolding held_handles_def by blast
  ultimately show ?thesis
    using h assms(7,8) by (auto simp: lost_handles_def ownership_of_def open_handles_def)
qed


text \<open>
  C25. Two goroutines that open the reader of one interface at the same time can lose a handle:
  both miss the cache, both open a handle and the second store overwrites the first, so both
  calls succeed with different handles, and from then on the first one is in no cache entry
  and stays open whatever is called, \<^verbatim>\<open>CloseHandles\<close> included.  (Two pipelines for the
  loopback, which \<^verbatim>\<open>--interface lo --deliver-local\<close> gives, reconnect in this way.)
\<close>

theorem concurrent_calls_leak:
  assumes "NewDeviceManager found = Inr dm" and "pc_inactive os = 0"
    and "(call_step goos show_lt)\<^sup>*\<^sup>* (new_manager dm os) w"
    and "at_call w i (Called (ReaderCall iname promisc timeout))"
    and "at_call w j (Called (ReaderCall iname promisc timeout))" and "i \<noteq> j"
    and "dm_handles (hw_dm w) (deviceManagerKey iname Reader) = None"
    and "reader_ready goos a" and "an_Activate a = Inr h" and "h \<notin> open_handles w"
    and "reader_ready goos b" and "an_Activate b = Inr h'" and "h' \<notin> insert h (open_handles w)"
  shows "\<exists>w'. (call_step goos show_lt)\<^sup>*\<^sup>* w w' \<and>
    at_call w' i (Returned (Inr h)) \<and> at_call w' j (Returned (Inr h')) \<and>
    dm_handles (hw_dm w') (deviceManagerKey iname Reader) = Some h' \<and>
    (\<forall>w''. \<not> (call_step goos show_lt)\<^sup>*\<^sup>* w' w'' \<or> h \<in> open_handles w'' \<and> h \<notin> cached_handles w'')"
proof -
  let ?c = "ReaderCall iname promisc timeout"
  from both_opened [OF assms(4-6) refl _ assms(8-13), of show_lt] assms(7) obtain w1 where
    w1: "(call_step goos show_lt)\<^sup>*\<^sup>* w w1" "at_call w1 i (Opened ?c h)" "at_call w1 j (Opened ?c h')"
    by auto
  define w2 where "w2 = hw_set i (Returned (Inr h)) w1\<lparr>hw_dm := (hw_dm w1)
    \<lparr>dm_handles := (dm_handles (hw_dm w1))(call_key ?c \<mapsto> h)\<rparr>\<rparr>"
  have 2: "call_step goos show_lt w1 w2" unfolding w2_def by (rule stores_opened [OF w1(2)])
  have at2: "at_call w2 j (Opened ?c h')" using w1(3) assms(6) by (auto simp: w2_def at_call_def)
  define w3 where "w3 = hw_set j (Returned (Inr h')) w2\<lparr>hw_dm := (hw_dm w2)
    \<lparr>dm_handles := (dm_handles (hw_dm w2))(call_key ?c \<mapsto> h')\<rparr>\<rparr>"
  have 3: "call_step goos show_lt w2 w3" unfolding w3_def by (rule stores_opened [OF at2])
  have reach: "(call_step goos show_lt)\<^sup>*\<^sup>* w w3" using w1(1) 2 3 by simp
  have inv0: "calls_inv w"
    using calls_inv_reachable [OF assms(3)] new_manager_inv [OF assms(1,2)] by blast
  then have inv: "calls_inv w2" "calls_inv w3"
    using calls_inv_reachable w1(1) reach calls_inv_step [OF 2] by blast+
  have key: "dm_handles (hw_dm w2) (call_key ?c) = Some h" by (simp add: w2_def)
  from overwritten_is_lost [OF inv(1) at2 key, of w3] assms(13)
  have lost: "h \<in> lost_handles (ownership_of w3)" by (simp add: w3_def)
  have "h \<in> open_handles w'' \<and> h \<notin> cached_handles w''" if "(call_step goos show_lt)\<^sup>*\<^sup>* w3 w''" for w''
    using lost_reachable [OF that inv(2)] lost
    by (auto simp: lost_handles_def ownership_of_def cached_handles_def)
  moreover have "at_call w3 i (Returned (Inr h))" "at_call w3 j (Returned (Inr h'))"
    using w1(2,3) assms(6) by (simp_all add: w2_def w3_def at_call_def)
  moreover have "dm_handles (hw_dm w3) (deviceManagerKey iname Reader) = Some h'" by (simp add: w3_def)
  ultimately show ?thesis using reach by blast
qed

definition two_calls :: handle_world where
  "two_calls = (new_manager empty_dm no_pcap)\<lparr>hw_calls := [Called eth0_call, Called eth0_call]\<rparr>"

lemma two_steps: "r a b \<Longrightarrow> r b c \<Longrightarrow> r\<^sup>*\<^sup>* a c"
  by (meson rtranclp.rtrancl_into_rtrancl rtranclp.rtrancl_refl)

lemma two_calls_reached: "(call_step goos show_lt)\<^sup>*\<^sup>* (new_manager empty_dm no_pcap) two_calls"
proof -
  have 1: "call_step goos show_lt (new_manager empty_dm no_pcap)
      ((new_manager empty_dm no_pcap)\<lparr>hw_calls := [Called eth0_call]\<rparr>)"
    using calls [of goos show_lt "new_manager empty_dm no_pcap" eth0_call] by (simp add: new_manager_def)
  have 2: "call_step goos show_lt ((new_manager empty_dm no_pcap)\<lparr>hw_calls := [Called eth0_call]\<rparr>) two_calls"
    using calls [of goos show_lt "(new_manager empty_dm no_pcap)\<lparr>hw_calls := [Called eth0_call]\<rparr>" eth0_call]
    by (simp add: two_calls_def)
  show ?thesis using 1 2 by (rule two_steps)
qed

lemma two_calls_simps:
  "dm_handles (hw_dm two_calls) k = None" "open_handles two_calls = {}"
  "at_call two_calls 0 (Called eth0_call)" "at_call two_calls (Suc 0) (Called eth0_call)"
  by (simp_all add: two_calls_def new_manager_def empty_dm_def open_handles_def no_pcap_def at_call_def)

theorem concurrent_calls_leak_witness:
  "\<exists>w. at_call w 0 (Returned (Inr 3)) \<and> at_call w 1 (Returned (Inr 4)) \<and>
    dm_handles (hw_dm w) ''eth0:read'' = Some 4 \<and> 3 \<in> open_handles w \<and> 3 \<notin> cached_handles w"
proof -
  let ?a = "\<lambda>h. all_well h LinkTypeEthernet"
  have act: "an_Activate (?a h) = Inr h" for h by (simp add: all_well_def)
  have key: "deviceManagerKey ''eth0'' Reader = ''eth0:read''" by (simp add: deviceManagerKey_def Reader_def)
  have "\<exists>w. (call_step ''linux'' (\<lambda>lt. []))\<^sup>*\<^sup>* two_calls w \<and>
      at_call w 0 (Returned (Inr 3)) \<and> at_call w (Suc 0) (Returned (Inr 4)) \<and>
      dm_handles (hw_dm w) (deviceManagerKey ''eth0'' Reader) = Some 4 \<and>
      (\<forall>v. \<not> (call_step ''linux'' (\<lambda>lt. []))\<^sup>*\<^sup>* w v \<or> 3 \<in> open_handles v \<and> 3 \<notin> cached_handles v)"
    by (rule concurrent_calls_leak [OF empty_dm_new _ two_calls_reached
          two_calls_simps(3,4) [unfolded eth0_call_def] _ two_calls_simps(1) eth0_ready act _ eth0_ready act])
      (simp_all add: two_calls_simps no_pcap_def)
  then obtain w where "at_call w 0 (Returned (Inr 3))" "at_call w 1 (Returned (Inr 4))"
    "dm_handles (hw_dm w) ''eth0:read'' = Some 4"
    "\<not> (call_step ''linux'' (\<lambda>lt. []))\<^sup>*\<^sup>* w w \<or> 3 \<in> open_handles w \<and> 3 \<notin> cached_handles w"
    unfolding key by (elim exE conjE) simp
  then show ?thesis by (intro exI [of _ w]) simp
qed

end
