(* ===== verification/Spec2Isabelle.thy ===== *)
theory Spec2Isabelle
  imports Shutdown MainProgram HandleCalls
begin

text \<open>
  \<^bold>\<open>udp-proxy-2020: a model of the program and its correctness.\<close>

  The program repeats UDP packets between the interfaces of a router.  Every interface has a
  pipeline: a source that captures packets with libpcap, processors that filter, print and
  learn the sender, and a route to every other interface.  A route looks up the clients that
  have been learned on its interface, rewrites the packet for each of them (or for the
  broadcast address when none is known) and hands the frames to a transmitter, which injects
  them with libpcap.  All pipelines share one registry of clients, from which a goroutine of
  \<^verbatim>\<open>main\<close> removes expired ones, and one device manager, which caches the capture handles.

  \<^bold>\<open>Theories and code.\<close>  Paths are under \<^verbatim>\<open>src/\<close>.

  \<^item> \<open>GoPrelude\<close>: Go's errors and panics as values, printing of numbers, \<^verbatim>\<open>strings\<close>; ranging
    over a map is an enumeration of its keys in any order.  \<open>GoNet\<close>: addresses, masks, their
    text and parsing as in package \<^verbatim>\<open>net\<close>.
  \<^item> \<open>Packet\<close>: \<^verbatim>\<open>internal/proxy/types.go\<close> and \<^verbatim>\<open>linktypes.go\<close>, with the layers of gopacket that
    are read; gopacket itself (decoding, serialisation) is the record \<open>gopacket_lib\<close>.
  \<^item> \<open>Pipeline\<close>: \<^verbatim>\<open>internal/proxy/pipeline.go\<close>; the locales \<open>safe_processor\<close>, \<open>safe_sink\<close> and
    \<open>ending_run\<close> are the contracts of stages and of a source that ends.
  \<^item> \<open>Bus\<close>: \<^verbatim>\<open>internal/proxy/bus.go\<close> and \<^verbatim>\<open>stages/forwarding.go\<close>, with channels, open or
    closed: a send on a closed one panics.
  \<^item> \<open>Stages\<close>, \<open>Decode\<close>: \<^verbatim>\<open>filter.go\<close>, \<^verbatim>\<open>transform.go\<close>, \<^verbatim>\<open>pcap_sink.go\<close>, \<^verbatim>\<open>decode.go\<close>.
  \<^item> \<open>Rewrite\<close>: \<^verbatim>\<open>internal/proxy/rewrite/rewrite.go\<close>.  \<open>Route\<close>: \<^verbatim>\<open>stages/route_sink.go\<close>.
  \<^item> \<open>Registry\<close>: \<^verbatim>\<open>stages/registry.go\<close>; the locale \<open>expiring_store\<close> is its contract towards the
    clock (kept for the time to live, removed after it), \<open>client_directory\<close> the one towards routes.
  \<^item> \<open>Backoff\<close>, \<open>Transmitter\<close>: the growing delays and \<^verbatim>\<open>stages/transmitter.go\<close>, whose
    goroutines interleave as the step relation \<open>tx_step\<close>.
  \<^item> \<open>DeviceManager\<close>: \<^verbatim>\<open>internal/proxy/device_manager.go\<close>; libpcap's answers are a record, its
    handles are numbers, and the state records which are open.  The locales \<open>opener\<close> and
    \<open>handle_cache\<close> cover readers and writers alike.  \<open>HandleCalls\<close>: its calls interleaved.
  \<^item> \<open>PcapSource\<close>: \<^verbatim>\<open>stages/pcap_source.go\<close>; a \<^verbatim>\<open>select\<close> is a state, and the case that fires
    an event, so \<^verbatim>\<open>Read\<close> is a function of the events that happen.  The sources of a program and
    the handles of its transmitters share one device manager in the step relation \<open>source_run\<close>.
  \<^item> \<open>Config\<close>, \<open>Cli\<close>, \<open>Setup\<close>, \<open>Graphviz\<close>, \<open>Listener\<close>, \<open>MainProgram\<close>: \<^verbatim>\<open>internal/config/utils.go\<close>
    and \<^verbatim>\<open>cmd/udp-proxy-2020\<close>.  \<open>Setup\<close> builds the pipelines as values, as the code does;
    \<open>SetupFilter\<close> follows the handles of the sources and their BPF filters through it.
  \<^item> \<open>System\<close>, \<open>Running\<close>, \<open>Shutdown\<close>: these values as stages over one shared state, the steps
    of the running program, and the end of a pipeline.

  \<^bold>\<open>What is shown.\<close>  Each component has its invariant, kept by every operation, and the result
  of its operations on every branch, errors included.  For the whole program: a packet is
  delivered to every target of every open route (\<open>delivers\<close>) and to no one else, in particular
  not back to where it came from (\<open>no_reflection\<close>); nothing panics in any state that the
  goroutines can reach (\<open>running_never_panics\<close>); a cancelled pipeline returns and closes what it
  opened (\<open>pipeline_returns_on_cancel\<close>); a started program has a pipeline and a filtered source for
  each interface, one registry and its listeners (\<open>running_program\<close>).  The theorems also state what
  the code does where that is not what one expects: a handle can leak when a transmitter is
  closed while it reconnects, or when two goroutines open the same reader at once, a
  reconnected source has no filter, a loopback that is given twice is not noticed, and a
  failing set-up exits with code 0.

  \<^bold>\<open>Time, order and bounds.\<close>  The clock is an argument.  The order of ranging over a map is a
  parameter; results that do not depend on it are shown for every order.  \<^verbatim>\<open>Pipeline.Run\<close> is a
  partial function, \<open>None\<close> when it does not return; that it returns is shown with the number of
  events still to come as measure.  No fuel is used.  Integers are words of their width where
  the code computes with them (time-outs, ports, lengths, checksummed fields) and unbounded
  where it only counts.

  \<^bold>\<open>Interleaving.\<close>  The critical sections of the transmitter, the cases of a source's \<^verbatim>\<open>select\<close>
  and the operations of the registry are the atomic steps of their own components.  In the
  running program (\<open>sys_step\<close>) a pipeline handles one packet in one step.  \<^verbatim>\<open>CreateReaderHandle\<close>
  and \<^verbatim>\<open>CreateWriterHandle\<close> are atomic in \<open>DeviceManager\<close> and \<open>PcapSource\<close>, while the code releases
  its lock between the lookup and the store.  \<open>HandleCalls\<close> has these sections as steps and any
  number of calls interleaved, and refines them to an abstract machine of owners (\<open>own_step\<close>): as
  long as no two calls open the same handle at once no handle is lost (\<open>no_handle_is_lost\<close>),
  otherwise one can be (\<open>concurrent_calls_leak\<close>).  The sources of different interfaces satisfy
  the condition, two sources of one interface do not; \<open>source_run\<close> therefore has at most one source
  for an interface.

  \<^bold>\<open>Not modelled.\<close>  The text of log messages; kong, which fills the command line in; libpcap,
  gopacket, the file system and the sockets, which are parameters; the tests, build files
  and documents.
\<close>

end
